(* ===== verification/Prelude.thy ===== *)
theory Prelude
  imports Complex_Main
begin

text \<open>
  Shared ground of the development: results with errors, traversal of a list with a fallible
  function, SQL's \<open>COALESCE\<close>, look-ups in association lists and counting facts about
  duplicate-free key lists. Nothing here is about the program.
\<close>

named_theorems result_simps \<open>inversion of successful computations\<close>
named_theorems entry_simps \<open>look-ups in payload dictionaries\<close>

section \<open>Fallible computations\<close>

fun bindr :: "'e + 'a \<Rightarrow> ('a \<Rightarrow> 'e + 'b) \<Rightarrow> 'e + 'b" where
  "bindr (Inl e) f = Inl e"
| "bindr (Inr x) f = f x"

lemma bindr_eq_Inr [simp, result_simps]:
  "bindr m f = Inr y \<longleftrightarrow> (\<exists>x. m = Inr x \<and> f x = Inr y)"
  by (cases m) auto

lemma bindr_eq_Inl [result_simps]:
  "bindr m f = Inl e \<longleftrightarrow> m = Inl e \<or> (\<exists>x. m = Inr x \<and> f x = Inl e)"
  by (cases m) auto

lemma bindr_assoc: "bindr (bindr r f) g = bindr r (\<lambda>x. bindr (f x) g)"
  by (cases r) simp_all

lemma bindr_cong [fundef_cong]:
  "m = m' \<Longrightarrow> (\<And>x. m' = Inr x \<Longrightarrow> f x = g x) \<Longrightarrow> bindr m f = bindr m' g"
  by (cases m') auto

text \<open>A result that is no error, in the form the witnesses evaluate.\<close>

fun ok :: "'e + 'a \<Rightarrow> bool" where
  "ok (Inl e) = False"
| "ok (Inr x) = True"

lemma ok_Inr: "ok m \<Longrightarrow> \<exists>x. m = Inr x"
  by (cases m) auto

lemma ok_pair: "ok m \<Longrightarrow> \<exists>x y. m = Inr (x, y)"
  by (cases m) auto

fun of_option :: "'e \<Rightarrow> 'a option \<Rightarrow> 'e + 'a" where
  "of_option e None = Inl e"
| "of_option e (Some x) = Inr x"

lemma of_option_eq_Inr [simp, result_simps]: "of_option e v = Inr x \<longleftrightarrow> v = Some x"
  by (cases v) auto

fun traverse :: "('a \<Rightarrow> 'e + 'b) \<Rightarrow> 'a list \<Rightarrow> 'e + 'b list" where
  "traverse f [] = Inr []"
| "traverse f (x # xs) = bindr (f x) (\<lambda>y. bindr (traverse f xs) (\<lambda>ys. Inr (y # ys)))"

lemma traverse_Inr_iff [result_simps]:
  "traverse f xs = Inr ys \<longleftrightarrow> list_all2 (\<lambda>x y. f x = Inr y) xs ys"
proof (induction xs arbitrary: ys)
  case Nil
  then show ?case by auto
next
  case (Cons x xs)
  then show ?case by (cases ys) auto
qed

lemma traverse_eq_map:
  "(\<And>x. x \<in> set xs \<Longrightarrow> f x = Inr (g x)) \<Longrightarrow> traverse f xs = Inr (map g xs)"
  by (induction xs) auto

lemma traverse_length: "traverse f xs = Inr ys \<Longrightarrow> length ys = length xs"
  by (simp add: traverse_Inr_iff list_all2_lengthD)

lemma traverse_Inl_ex: "traverse f xs = Inl e \<Longrightarrow> \<exists>x\<in>set xs. f x = Inl e"
  by (induction xs) (auto simp: result_simps)

lemma traverse_append:
  "traverse f (xs @ ys) = bindr (traverse f xs) (\<lambda>us. bindr (traverse f ys) (\<lambda>vs. Inr (us @ vs)))"
proof (induction xs)
  case Nil
  then show ?case by (cases "traverse f ys") auto
next
  case (Cons x xs)
  then show ?case by (cases "f x"; cases "traverse f xs"; cases "traverse f ys") auto
qed

section \<open>NULL and look-ups\<close>

fun coalesce :: "'a option \<Rightarrow> 'a \<Rightarrow> 'a" where
  "coalesce None d = d"
| "coalesce (Some x) d = x"

fun coalesce2 :: "'a option \<Rightarrow> 'a option \<Rightarrow> 'a option" where
  "coalesce2 None d = d"
| "coalesce2 (Some x) d = Some x"

definition opt_entry :: "string \<Rightarrow> 'v option \<Rightarrow> (string \<times> 'v) list" where
  "opt_entry k v = (case v of None \<Rightarrow> [] | Some x \<Rightarrow> [(k, x)])"

lemma opt_entry_simps [simp]: "opt_entry k None = []" "opt_entry k (Some x) = [(k, x)]"
  by (simp_all add: opt_entry_def)

lemma map_of_opt_entry [entry_simps]:
  "map_of (opt_entry k v) k' = (if k = k' then v else None)"
  by (cases v) auto

lemma map_of_append_lookup [entry_simps]:
  "map_of (xs @ ys) k = (case map_of xs k of None \<Rightarrow> map_of ys k | Some v \<Rightarrow> Some v)"
  by (induction xs) auto

lemma find_map_invariant:
  "(\<And>x. x \<in> set xs \<Longrightarrow> P (f x) = P x) \<Longrightarrow> find P (map f xs) = map_option f (find P xs)"
  by (induction xs) auto

section \<open>At most one row per key\<close>

text \<open>
  A unique index holds for a table when the list of its keys has no duplicates; the reader's
  form of the same fact is that at most one row carries a given key.
\<close>

lemma distinct_map_filter_count:
  "distinct (List.map_filter f xs) \<longleftrightarrow> (\<forall>k. length (filter (\<lambda>x. f x = Some k) xs) \<le> 1)"
proof (induction xs)
  case Nil
  then show ?case by (simp add: List.map_filter_simps)
next
  case (Cons x xs)
  have mem: "k \<in> set (List.map_filter f xs) \<longleftrightarrow> length (filter (\<lambda>x. f x = Some k) xs) \<noteq> 0" for k
    by (auto simp: List.map_filter_def filter_empty_conv image_iff)
  show ?case
  proof (cases "f x")
    case None
    then show ?thesis using Cons.IH by (simp add: List.map_filter_simps)
  next
    case (Some k)
    have "(\<forall>k'. length (filter (\<lambda>y. f y = Some k') (x # xs)) \<le> 1) \<longleftrightarrow>
        length (filter (\<lambda>y. f y = Some k) xs) = 0 \<and> (\<forall>k'. length (filter (\<lambda>y. f y = Some k') xs) \<le> 1)"
      using Some by (auto simp: le_Suc_eq split: if_splits)
    then show ?thesis using Some Cons.IH mem [of k] by (auto simp: List.map_filter_simps)
  qed
qed

lemma map_filter_append: "List.map_filter f (xs @ ys) = List.map_filter f xs @ List.map_filter f ys"
  by (simp add: List.map_filter_def)

lemma set_map_filter_iff: "k \<in> set (List.map_filter f xs) \<longleftrightarrow> (\<exists>x\<in>set xs. f x = Some k)"
  by (force simp: List.map_filter_def)

lemma distinct_map_filter_subset_filter:
  "distinct (List.map_filter f xs) \<Longrightarrow> distinct (List.map_filter f (filter P xs))"
  by (induction xs) (auto simp: List.map_filter_simps set_map_filter_iff split: option.splits)

lemma length_filter_mono:
  "(\<And>x. x \<in> set xs \<Longrightarrow> P x \<Longrightarrow> Q x) \<Longrightarrow> length (filter P xs) \<le> length (filter Q xs)"
  by (induction xs) auto

lemma list_all2_in_right:
  "list_all2 P xs ys \<Longrightarrow> y \<in> set ys \<Longrightarrow> \<exists>x\<in>set xs. P x y"
  by (induction rule: list_all2_induct) auto

lemma list_all2_in_left:
  "list_all2 P xs ys \<Longrightarrow> x \<in> set xs \<Longrightarrow> \<exists>y\<in>set ys. P x y"
  by (induction rule: list_all2_induct) auto

lemma list_all2_map_eq:
  "list_all2 P xs ys \<Longrightarrow> (\<And>x y. P x y \<Longrightarrow> f y = f x) \<Longrightarrow> map f ys = map f xs"
  by (induction rule: list_all2_induct) auto

lemma same_set_same_length: "distinct xs \<Longrightarrow> distinct ys \<Longrightarrow> set xs = set ys \<Longrightarrow> length xs = length ys"
  by (metis distinct_card)

lemma length_filter_all2:
  assumes "list_all2 R xs ys" "\<And>x y. R x y \<Longrightarrow> P y \<longleftrightarrow> P x \<or> Q x" "\<And>x y. R x y \<Longrightarrow> \<not> (P x \<and> Q x)"
  shows "length (filter P ys) = length (filter P xs) + length (filter Q xs)"
  using assms(1) by (induction rule: list_all2_induct) (use assms(2,3) in auto)

lemma all2_filter_all2:
  "list_all2 (\<lambda>x y. f x = Inr y) (filter p xs) ys \<Longrightarrow>
   list_all2 (\<lambda>x z. if p x then f x = Inr z else z = x) xs zs \<Longrightarrow> ys = map snd (filter (p \<circ> fst) (zip xs zs))"
proof (induction xs arbitrary: ys zs)
  case Nil
  then show ?case by simp
next
  case (Cons x xs)
  then obtain z zs' where zs: "zs = z # zs'" by (cases zs) auto
  show ?case
  proof (cases "p x")
    case True
    with Cons.prems obtain y ys' where "ys = y # ys'" by (cases ys) auto
    with Cons zs True show ?thesis by auto
  next
    case False
    with Cons zs show ?thesis by auto
  qed
qed

end
