(* ===== verification/Pg_Engine.thy ===== *)
theory Pg_Engine
  imports Prelude
begin

text \<open>
  What the SQL and Python sources use of the language around them: decimal numerals
  (\<^verbatim>\<open>str(int)\<close> and the \<^verbatim>\<open>::int\<close> cast), JSON values with PostgreSQL's \<^verbatim>\<open>->>\<close> accessor and the
  casts applied to it, \<^verbatim>\<open>int4\<close> range checks, and the errors a statement can end with.

  What only the database server decides is the record \<open>pg\<close>: the transaction's clock, the draws
  of \<^verbatim>\<open>random()\<close> and \<^verbatim>\<open>gen_random_uuid()\<close>, which rows other transactions hold locked, and the
  server's parsers of uuid, timestamp, interval and json text. Every statement takes it as an
  argument. Instants are microseconds since the epoch, the resolution of a PostgreSQL timestamp.
\<close>

section \<open>Errors\<close>

datatype uindex = Job_i1 | Job_i2 | Job_i3 | Job_i4 | Job_i6 | Job_i8

datatype db_error =
    UniqueViolation uindex
  | PrimaryKeyViolation
  | ForeignKeyViolation
  | CheckViolation
  | NotNullViolation
  | NumericValueOutOfRange
  | InvalidTextRepresentation
  | DivisionByZero
  | InvalidRowCountInLimit
  | DuplicateObject
  | UndefinedObject
  | InFailedSqlTransaction

section \<open>Decimal numerals\<close>

definition digits :: string where
  "digits = ''0123456789''"

definition digit :: "nat \<Rightarrow> char" where
  "digit d = digits ! d"

definition digit_val :: "char \<Rightarrow> nat option" where
  "digit_val c = map_of (zip digits [0..<10]) c"

fun str_of_nat :: "nat \<Rightarrow> string" where
  "str_of_nat n = (if n < 10 then [digit n] else str_of_nat (n div 10) @ [digit (n mod 10)])"

declare str_of_nat.simps [simp del]

fun nat_in :: "nat \<Rightarrow> string \<Rightarrow> nat option" where
  "nat_in acc [] = Some acc"
| "nat_in acc (c # cs) =
     (case digit_val c of None \<Rightarrow> None | Some d \<Rightarrow> nat_in (10 * acc + d) cs)"

definition str_of_int :: "int \<Rightarrow> string" where
  "str_of_int i = (if i < 0 then CHR ''-'' # str_of_nat (nat (- i)) else str_of_nat (nat i))"

definition int_in :: "string \<Rightarrow> int option" where
  "int_in s =
     (case s of
        [] \<Rightarrow> None
      | c # cs \<Rightarrow>
          if c = CHR ''-'' then (if cs = [] then None else map_option (\<lambda>n. - int n) (nat_in 0 cs))
          else if c = CHR ''+'' then (if cs = [] then None else map_option int (nat_in 0 cs))
          else map_option int (nat_in 0 s))"

lemma less_10_cases:
  "(d::nat) < 10 \<Longrightarrow> d = 0 \<or> d = 1 \<or> d = 2 \<or> d = 3 \<or> d = 4 \<or> d = 5 \<or> d = 6 \<or> d = 7 \<or> d = 8 \<or> d = 9"
  by presburger

lemma digit_in_digits: "d < 10 \<Longrightarrow> digit d \<in> set digits"
  by (drule less_10_cases) (auto simp: digit_def digits_def)

lemma digit_val_digit [simp]: "d < 10 \<Longrightarrow> digit_val (digit d) = Some d"
  by (drule less_10_cases) (auto simp: digit_val_def digit_def digits_def upt_rec)

lemma nat_in_append:
  "nat_in acc (xs @ ys) = (case nat_in acc xs of None \<Rightarrow> None | Some a \<Rightarrow> nat_in a ys)"
  by (induction xs arbitrary: acc) (auto split: option.splits)

lemma nat_in_str_of_nat [simp]: "nat_in 0 (str_of_nat n) = Some n"
proof (induction n rule: str_of_nat.induct)
  case (1 n)
  show ?case
  proof (cases "n < 10")
    case True
    then show ?thesis by (simp add: str_of_nat.simps [of n])
  next
    case False
    with 1 have "nat_in 0 (str_of_nat (n div 10)) = Some (n div 10)" by simp
    with False show ?thesis by (simp add: str_of_nat.simps [of n] nat_in_append)
  qed
qed

lemma set_str_of_nat: "set (str_of_nat n) \<subseteq> set digits"
proof (induction n rule: str_of_nat.induct)
  case (1 n)
  show ?case
    by (cases "n < 10") (use 1 in \<open>auto simp: str_of_nat.simps [of n] digit_in_digits\<close>)
qed

lemma str_of_nat_nonempty [simp]: "str_of_nat n \<noteq> []"
  by (subst str_of_nat.simps) simp

lemma hd_str_of_nat: "str_of_nat n = c # cs \<Longrightarrow> c \<noteq> CHR ''-'' \<and> c \<noteq> CHR ''+''"
  using set_str_of_nat [of n] by (auto simp: digits_def)

lemma int_in_str_of_int [simp]: "int_in (str_of_int i) = Some i"
proof (cases "i < 0")
  case True
  then show ?thesis by (simp add: str_of_int_def int_in_def)
next
  case False
  obtain c cs where c: "str_of_nat (nat i) = c # cs"
    by (cases "str_of_nat (nat i)") auto
  from c nat_in_str_of_nat [of "nat i"] have "nat_in 0 (c # cs) = Some (nat i)" by simp
  with False c hd_str_of_nat [OF c] show ?thesis
    by (simp add: str_of_int_def int_in_def del: nat_in.simps)
qed

lemma last_str_of_int: "last (str_of_int i) \<in> set digits"
proof -
  have "last (str_of_nat n) \<in> set digits" for n
    using set_str_of_nat last_in_set [OF str_of_nat_nonempty] by blast
  then show ?thesis by (simp add: str_of_int_def)
qed

section \<open>JSON values and the server\<close>

datatype json =
    JNull
  | JBool bool
  | JNum int
  | JStr string
  | JArr "json list"
  | JObj "(string \<times> json) list"

text \<open>A job id is a uuid: 128 bits compared bytewise, which is the order of the number.\<close>

type_synonym uuid = nat

record pg =
  pg_now :: int
  pg_random :: "string \<times> uuid \<Rightarrow> rat"
  pg_gen_uuid :: "nat \<Rightarrow> uuid"
  pg_skip_locked :: "string \<times> uuid \<Rightarrow> bool"
  pg_uuid_in :: "string \<Rightarrow> uuid option"
  pg_uuid_out :: "uuid \<Rightarrow> string"
  pg_timestamptz_in :: "string \<Rightarrow> int option"
  pg_add_interval :: "int \<Rightarrow> string \<Rightarrow> int option"
  pg_jsonb_in :: "string \<Rightarrow> json option"
  pg_jsonb_out :: "json \<Rightarrow> string"

definition second :: int where
  "second = 1000000"

definition int4 :: "int \<Rightarrow> db_error + int" where
  "int4 v = (if - (2 ^ 31) \<le> v \<and> v < 2 ^ 31 then Inr v else Inl NumericValueOutOfRange)"

lemma int4_eq_Inr [simp]: "int4 v = Inr w \<longleftrightarrow> w = v \<and> - (2 ^ 31) \<le> v \<and> v < 2 ^ 31"
  by (auto simp: int4_def)

text \<open>The range of \<^verbatim>\<open>integer\<close>.\<close>

definition int4_ok :: "int \<Rightarrow> bool" where
  "int4_ok v \<longleftrightarrow> - (2 ^ 31) \<le> v \<and> v < 2 ^ 31"

lemma int4_int4_ok: "int4_ok v \<Longrightarrow> int4 v = Inr v"
  by (simp add: int4_ok_def)

definition int4_opt_ok :: "int option \<Rightarrow> bool" where
  "int4_opt_ok v \<longleftrightarrow> (case v of None \<Rightarrow> True | Some n \<Rightarrow> int4_ok n)"

text \<open>\<^verbatim>\<open>x->'k'\<close>, \<^verbatim>\<open>x->>'k'\<close> and the casts of its text; SQL NULL is \<open>None\<close>.\<close>

definition arrow :: "json \<Rightarrow> string \<Rightarrow> json option" where
  "arrow x k = (case x of JObj kvs \<Rightarrow> map_of kvs k | _ \<Rightarrow> None)"

definition json_text :: "pg \<Rightarrow> json \<Rightarrow> string option" where
  "json_text s v =
     (case v of
        JNull \<Rightarrow> None
      | JBool b \<Rightarrow> Some (if b then ''true'' else ''false'')
      | JNum n \<Rightarrow> Some (str_of_int n)
      | JStr t \<Rightarrow> Some t
      | JArr vs \<Rightarrow> Some (pg_jsonb_out s v)
      | JObj kvs \<Rightarrow> Some (pg_jsonb_out s v))"

definition arrow_text :: "pg \<Rightarrow> json \<Rightarrow> string \<Rightarrow> string option" where
  "arrow_text s x k = (case arrow x k of None \<Rightarrow> None | Some v \<Rightarrow> json_text s v)"

definition cast_int4 :: "string option \<Rightarrow> db_error + int option" where
  "cast_int4 t =
     (case t of
        None \<Rightarrow> Inr None
      | Some u \<Rightarrow>
          (case int_in u of
             None \<Rightarrow> Inl InvalidTextRepresentation
           | Some i \<Rightarrow> bindr (int4 i) (\<lambda>v. Inr (Some v))))"

definition cast_bool :: "string option \<Rightarrow> db_error + bool option" where
  "cast_bool t =
     (case t of
        None \<Rightarrow> Inr None
      | Some u \<Rightarrow>
          if u = ''true'' then Inr (Some True)
          else if u = ''false'' then Inr (Some False)
          else Inl InvalidTextRepresentation)"

definition cast_uuid :: "pg \<Rightarrow> string option \<Rightarrow> db_error + uuid option" where
  "cast_uuid s t =
     (case t of
        None \<Rightarrow> Inr None
      | Some u \<Rightarrow> bindr (of_option InvalidTextRepresentation (pg_uuid_in s u)) (\<lambda>v. Inr (Some v)))"

text \<open>
  \<^verbatim>\<open>(x->>'data')::jsonb\<close>: the text of a jsonb value other than a string parses back to that value;
  a JSON string yields its own characters, which are parsed afresh.
\<close>

definition arrow_jsonb :: "pg \<Rightarrow> json \<Rightarrow> string \<Rightarrow> db_error + json option" where
  "arrow_jsonb s x k =
     (case arrow x k of
        None \<Rightarrow> Inr None
      | Some JNull \<Rightarrow> Inr None
      | Some (JStr t) \<Rightarrow>
          bindr (of_option InvalidTextRepresentation (pg_jsonb_in s t)) (\<lambda>v. Inr (Some v))
      | Some v \<Rightarrow> Inr (Some v))"

text \<open>\<^verbatim>\<open>id IN (SELECT e::uuid FROM jsonb_array_elements_text($2::text::jsonb) AS e)\<close>.\<close>

definition cast_ids :: "pg \<Rightarrow> string list \<Rightarrow> db_error + uuid list" where
  "cast_ids s ids = traverse (\<lambda>e. of_option InvalidTextRepresentation (pg_uuid_in s e)) ids"

text \<open>
  Documented behaviour of the server the properties rely on, as named hypotheses: printing an id
  and casting it back is the identity, and \<^verbatim>\<open>gen_random_uuid()\<close> does not repeat itself.
\<close>

definition uuid_text_ok :: "pg \<Rightarrow> bool" where
  "uuid_text_ok s \<longleftrightarrow> (\<forall>u. pg_uuid_in s (pg_uuid_out s u) = Some u)"

definition gen_uuid_distinct :: "pg \<Rightarrow> bool" where
  "gen_uuid_distinct s \<longleftrightarrow> inj (pg_gen_uuid s)"

text \<open>Documented behaviour of the server: a plain number read as an interval is a number of seconds.\<close>

definition interval_in_ok :: "pg \<Rightarrow> bool" where
  "interval_in_ok s \<longleftrightarrow> (\<forall>t i. pg_add_interval s t (str_of_int i) = Some (t + i * second))"

lemma cast_ids_uuid_out:
  "uuid_text_ok s \<Longrightarrow> cast_ids s (map (pg_uuid_out s) us) = Inr us"
  unfolding cast_ids_def
  by (induction us) (auto simp: uuid_text_ok_def)

lemma cast_int4_num [simp]:
  "cast_int4 (Some (str_of_int i)) = bindr (int4 i) (\<lambda>v. Inr (Some v))"
  by (simp add: cast_int4_def)

lemma cast_null [simp]:
  "cast_int4 None = Inr None" "cast_bool None = Inr None" "cast_uuid s None = Inr None"
  by (simp_all add: cast_int4_def cast_bool_def cast_uuid_def)

lemma cast_bool_text [simp]:
  "cast_bool (Some (if b then ''true'' else ''false'')) = Inr (Some b)"
  by (simp add: cast_bool_def)

lemma json_text_simps [simp]:
  "json_text s JNull = None" "json_text s (JNum n) = Some (str_of_int n)"
  "json_text s (JStr t) = Some t" "json_text s (JBool b) = Some (if b then ''true'' else ''false'')"
  by (simp_all add: json_text_def)

lemma arrow_text_JObj [entry_simps]:
  "arrow_text s (JObj kvs) k = (case map_of kvs k of None \<Rightarrow> None | Some v \<Rightarrow> json_text s v)"
  by (simp add: arrow_text_def arrow_def)

end
