(* ===== verification/Job_Types.thy ===== *)
theory Job_Types
  imports Pg_Engine
begin

text \<open>
  The public types of \<^verbatim>\<open>underboss/types.py\<close> and the exceptions of \<^verbatim>\<open>underboss/errors.py\<close>: job
  states with the significant order of the database enum, queue policies with their stored text,
  and the option objects as records, their defaults included. A datetime is an aware instant in
  microseconds since the epoch; a seconds setting that Python keeps as a float is a rational.
\<close>

section \<open>Errors\<close>

text \<open>
  A database error as it reaches the caller, the program's own exceptions (two of them, \<^verbatim>\<open>NotInstalledError\<close>
  and \<^verbatim>\<open>JobNotFoundError\<close>, no code raises) and the built-in ones.
\<close>

datatype error =
    Db db_error
  | NotStartedError
  | NotInstalledError
  | MigrationRequiredError int
  | QueueNotFoundError string
  | JobNotFoundError
  | RuntimeError string
  | ValueError string
  | KeyError string
  | TypeError
  | DataError
  | CancelledError

section \<open>Job states\<close>

datatype JobState = CREATED | RETRY | ACTIVE | COMPLETED | CANCELLED | FAILED

definition JOB_STATES :: "JobState list" where
  "JOB_STATES = [CREATED, RETRY, ACTIVE, COMPLETED, CANCELLED, FAILED]"

fun JobState_value :: "JobState \<Rightarrow> string" where
  "JobState_value CREATED = ''created''"
| "JobState_value RETRY = ''retry''"
| "JobState_value ACTIVE = ''active''"
| "JobState_value COMPLETED = ''completed''"
| "JobState_value CANCELLED = ''cancelled''"
| "JobState_value FAILED = ''failed''"

text \<open>\<^verbatim>\<open>JobState(text)\<close> looks a member up by its value and raises \<^verbatim>\<open>ValueError\<close> otherwise.\<close>

definition JobState_of :: "string \<Rightarrow> error + JobState" where
  "JobState_of v =
     (case find (\<lambda>s. JobState_value s = v) JOB_STATES of
        None \<Rightarrow> Inl (ValueError v)
      | Some s \<Rightarrow> Inr s)"

fun state_rank :: "JobState \<Rightarrow> nat" where
  "state_rank CREATED = 0"
| "state_rank RETRY = 1"
| "state_rank ACTIVE = 2"
| "state_rank COMPLETED = 3"
| "state_rank CANCELLED = 4"
| "state_rank FAILED = 5"

lemma state_rank_inj: "state_rank a = state_rank b \<Longrightarrow> a = b"
  by (cases a; cases b) auto

instantiation JobState :: linorder
begin

definition less_eq_JobState :: "JobState \<Rightarrow> JobState \<Rightarrow> bool" where
  "less_eq_JobState a b \<longleftrightarrow> state_rank a \<le> state_rank b"

definition less_JobState :: "JobState \<Rightarrow> JobState \<Rightarrow> bool" where
  "less_JobState a b \<longleftrightarrow> state_rank a < state_rank b"

instance
  by standard (auto simp: less_eq_JobState_def less_JobState_def state_rank_inj)

end

text \<open>The comparisons the SQL layer makes: queued, queued or active, not finished.\<close>

lemma less_ACTIVE_iff [simp]: "s < ACTIVE \<longleftrightarrow> s = CREATED \<or> s = RETRY"
  by (cases s) (auto simp: less_JobState_def)

lemma le_ACTIVE_iff [simp]: "s \<le> ACTIVE \<longleftrightarrow> s = CREATED \<or> s = RETRY \<or> s = ACTIVE"
  by (cases s) (auto simp: less_eq_JobState_def)

lemma less_COMPLETED_iff [simp]: "s < COMPLETED \<longleftrightarrow> s = CREATED \<or> s = RETRY \<or> s = ACTIVE"
  by (cases s) (auto simp: less_JobState_def)

lemma JobState_roundtrip: "JobState_of (JobState_value s) = Inr s"
  by (cases s) (simp_all add: JobState_of_def JOB_STATES_def)

section \<open>Queue policies\<close>

datatype QueuePolicy = STANDARD | SHORT | SINGLETON | STATELY | EXCLUSIVE | KEY_STRICT_FIFO

definition QUEUE_POLICIES :: "QueuePolicy list" where
  "QUEUE_POLICIES = [STANDARD, SHORT, SINGLETON, STATELY, EXCLUSIVE, KEY_STRICT_FIFO]"

fun QueuePolicy_value :: "QueuePolicy \<Rightarrow> string" where
  "QueuePolicy_value STANDARD = ''standard''"
| "QueuePolicy_value SHORT = ''short''"
| "QueuePolicy_value SINGLETON = ''singleton''"
| "QueuePolicy_value STATELY = ''stately''"
| "QueuePolicy_value EXCLUSIVE = ''exclusive''"
| "QueuePolicy_value KEY_STRICT_FIFO = ''key_strict_fifo''"

definition QueuePolicy_of :: "string \<Rightarrow> error + QueuePolicy" where
  "QueuePolicy_of v =
     (case find (\<lambda>p. QueuePolicy_value p = v) QUEUE_POLICIES of
        None \<Rightarrow> Inl (ValueError v)
      | Some p \<Rightarrow> Inr p)"

lemma QueuePolicy_roundtrip [simp]: "QueuePolicy_of (QueuePolicy_value p) = Inr p"
  by (cases p) (simp_all add: QueuePolicy_of_def QUEUE_POLICIES_def)

section \<open>Option objects\<close>

datatype start_after = SA_datetime int | SA_int int | SA_str string

record QueueOptions =
  qo_policy :: QueuePolicy
  qo_retry_limit :: int
  qo_retry_delay :: int
  qo_retry_backoff :: bool
  qo_retry_delay_max :: "int option"
  qo_expire_in_seconds :: int
  qo_retention_seconds :: int
  qo_delete_after_seconds :: int
  qo_dead_letter :: "string option"
  qo_warning_queue_size :: int
  qo_heartbeat_seconds :: "int option"

definition QueueOptions_default :: QueueOptions where
  "QueueOptions_default =
     \<lparr>qo_policy = STANDARD, qo_retry_limit = 2, qo_retry_delay = 0, qo_retry_backoff = False,
      qo_retry_delay_max = None, qo_expire_in_seconds = 15 * 60,
      qo_retention_seconds = 14 * 24 * 60 * 60, qo_delete_after_seconds = 7 * 24 * 60 * 60,
      qo_dead_letter = None, qo_warning_queue_size = 0, qo_heartbeat_seconds = None\<rparr>"

record Queue =
  queue_name :: string
  queue_options :: QueueOptions

record GroupOptions =
  group_id :: string
  group_tier :: "string option"

record SendOptions =
  so_priority :: int
  so_start_after :: "start_after option"
  so_singleton_key :: "string option"
  so_singleton_seconds :: "int option"
  so_singleton_next_slot :: bool
  so_keep_until :: "start_after option"
  so_dead_letter :: "string option"
  so_group :: "GroupOptions option"
  so_retry_limit :: "int option"
  so_retry_delay :: "int option"
  so_retry_backoff :: "bool option"
  so_expire_in_seconds :: "int option"

definition SendOptions_default :: SendOptions where
  "SendOptions_default =
     \<lparr>so_priority = 0, so_start_after = None, so_singleton_key = None,
      so_singleton_seconds = None, so_singleton_next_slot = False, so_keep_until = None,
      so_dead_letter = None, so_group = None, so_retry_limit = None, so_retry_delay = None,
      so_retry_backoff = None, so_expire_in_seconds = None\<rparr>"

record JobInsert =
  ji_data :: "(string \<times> json) list option"
  ji_id :: "string option"
  ji_priority :: int
  ji_retry_limit :: "int option"
  ji_retry_delay :: "int option"
  ji_retry_backoff :: "bool option"
  ji_start_after :: "start_after option"
  ji_singleton_key :: "string option"
  ji_expire_in_seconds :: "int option"
  ji_keep_until :: "start_after option"
  ji_dead_letter :: "string option"
  ji_group :: "GroupOptions option"

record WorkOptions =
  wo_batch_size :: int
  wo_poll_interval_seconds :: rat
  wo_include_metadata :: bool
  wo_priority :: bool
  wo_local_concurrency :: int
  wo_group_concurrency :: "int option"

definition WorkOptions_default :: WorkOptions where
  "WorkOptions_default =
     \<lparr>wo_batch_size = 1, wo_poll_interval_seconds = 2, wo_include_metadata = False,
      wo_priority = True, wo_local_concurrency = 1, wo_group_concurrency = None\<rparr>"

text \<open>A cron schedule attached to a queue. No function of the package takes or returns one.\<close>

record Schedule =
  sched_name :: string
  sched_cron :: string
  sched_key :: string
  sched_timezone :: "string option"
  sched_data :: "(string \<times> json) list option"

text \<open>A job handed to a work handler; the last six fields are its optional metadata.\<close>

record Job =
  job_id :: string
  job_name :: string
  job_data :: "json option"
  job_expire_in_seconds :: int
  job_group_id :: "string option"
  job_group_tier :: "string option"
  job_state :: "JobState option"
  job_priority :: "int option"
  job_retry_limit :: "int option"
  job_retry_count :: "int option"
  job_started_on :: "int option"
  job_created_on :: "int option"

end
