(* ===== verification/Job_Schema.thy ===== *)
theory Job_Schema
  imports Job_Types
begin

text \<open>
  The tables of \<^verbatim>\<open>underboss/schema.py\<close> as data: the columns of \<^verbatim>\<open>queue\<close>, \<^verbatim>\<open>job\<close>, \<^verbatim>\<open>schedule\<close> and
  \<^verbatim>\<open>version\<close> as records, the partial unique indexes that enforce the queue policies as keys a row
  may or may not have, the CHECK and FOREIGN KEY constraints as predicates, and the two ways a
  statement changes the \<^verbatim>\<open>job\<close> table: an UPDATE, checked against every unique index at its end, and
  an INSERT. A table is the list of its rows; no statement depends on their order.

  Columns no statement of the program reads or writes (\<^verbatim>\<open>deferred_count\<close>, \<^verbatim>\<open>queued_count\<close>,
  \<^verbatim>\<open>active_count\<close>, \<^verbatim>\<open>total_count\<close>, \<^verbatim>\<open>singletons_active\<close>, \<^verbatim>\<open>monitor_on\<close>, \<^verbatim>\<open>maintain_on\<close>, \<^verbatim>\<open>bam_on\<close>) and the
  tables \<^verbatim>\<open>subscription\<close>, \<^verbatim>\<open>bam\<close> and \<^verbatim>\<open>warning\<close>, which no statement touches, are left out here;
  the theory on provisioning has every object of the schema.
\<close>

section \<open>Rows\<close>

record queue_row =
  q_name :: string
  q_policy :: string
  q_retry_limit :: int
  q_retry_delay :: int
  q_retry_backoff :: bool
  q_retry_delay_max :: "int option"
  q_expire_seconds :: int
  q_retention_seconds :: int
  q_deletion_seconds :: int
  q_dead_letter :: "string option"
  q_partition :: bool
  q_table_name :: string
  q_warning_queued :: int
  q_heartbeat_seconds :: "int option"
  q_created_on :: int
  q_updated_on :: int

record job_row =
  j_id :: uuid
  j_name :: string
  j_priority :: int
  j_data :: "json option"
  j_state :: JobState
  j_retry_limit :: int
  j_retry_count :: int
  j_retry_delay :: int
  j_retry_backoff :: bool
  j_retry_delay_max :: "int option"
  j_expire_seconds :: int
  j_deletion_seconds :: int
  j_singleton_key :: "string option"
  j_singleton_on :: "int option"
  j_group_id :: "string option"
  j_group_tier :: "string option"
  j_start_after :: int
  j_created_on :: int
  j_started_on :: "int option"
  j_completed_on :: "int option"
  j_keep_until :: int
  j_output :: "json option"
  j_dead_letter :: "string option"
  j_policy :: "string option"
  j_heartbeat_on :: "int option"
  j_heartbeat_seconds :: "int option"

record schedule_row =
  sch_name :: string
  sch_key :: string
  sch_cron :: string
  sch_timezone :: "string option"
  sch_data :: "json option"
  sch_options :: "json option"
  sch_created_on :: int
  sch_updated_on :: int

record version_row =
  v_version :: int
  v_cron_on :: "int option"

record db =
  queues :: "queue_row list"
  jobs :: "job_row list"
  schedules :: "schedule_row list"
  versions :: "version_row list"

definition job_defaults :: "pg \<Rightarrow> uuid \<Rightarrow> string \<Rightarrow> job_row" where
  "job_defaults s i n =
     \<lparr>j_id = i, j_name = n, j_priority = 0, j_data = None, j_state = CREATED,
      j_retry_limit = 2, j_retry_count = 0, j_retry_delay = 0, j_retry_backoff = False,
      j_retry_delay_max = None, j_expire_seconds = 900, j_deletion_seconds = 604800,
      j_singleton_key = None, j_singleton_on = None, j_group_id = None, j_group_tier = None,
      j_start_after = pg_now s, j_created_on = pg_now s, j_started_on = None,
      j_completed_on = None, j_keep_until = pg_now s + 1209600 * second, j_output = None,
      j_dead_letter = None, j_policy = None, j_heartbeat_on = None, j_heartbeat_seconds = None\<rparr>"

section \<open>Unique indexes\<close>

text \<open>
  The key a row has in a partial unique index, or \<open>None\<close> when the index's WHERE clause leaves the
  row out or a key column is NULL (NULLs are never equal). A key lists the queue name, the state
  and \<^verbatim>\<open>singleton_on\<close> where the index has them, and the singleton key.
\<close>

type_synonym ikey = "string \<times> JobState option \<times> int option \<times> string"

definition index_job_policy_short :: "job_row \<Rightarrow> ikey option" where
  "index_job_policy_short j =
     (if j_state j = CREATED \<and> j_policy j = Some ''short''
      then Some (j_name j, None, None, coalesce (j_singleton_key j) '''') else None)"

definition index_job_policy_singleton :: "job_row \<Rightarrow> ikey option" where
  "index_job_policy_singleton j =
     (if j_state j = ACTIVE \<and> j_policy j = Some ''singleton''
      then Some (j_name j, None, None, coalesce (j_singleton_key j) '''') else None)"

definition index_job_policy_stately :: "job_row \<Rightarrow> ikey option" where
  "index_job_policy_stately j =
     (if j_state j \<le> ACTIVE \<and> j_policy j = Some ''stately''
      then Some (j_name j, Some (j_state j), None, coalesce (j_singleton_key j) '''') else None)"

definition index_job_policy_exclusive :: "job_row \<Rightarrow> ikey option" where
  "index_job_policy_exclusive j =
     (if j_state j \<le> ACTIVE \<and> j_policy j = Some ''exclusive''
      then Some (j_name j, None, None, coalesce (j_singleton_key j) '''') else None)"

definition index_job_policy_key_strict_fifo :: "job_row \<Rightarrow> ikey option" where
  "index_job_policy_key_strict_fifo j =
     (if j_state j \<in> {ACTIVE, RETRY, FAILED} \<and> j_policy j = Some ''key_strict_fifo''
      then map_option (\<lambda>k. (j_name j, None, None, k)) (j_singleton_key j) else None)"

definition index_job_throttle :: "job_row \<Rightarrow> ikey option" where
  "index_job_throttle j =
     (if j_state j \<noteq> CANCELLED
      then map_option (\<lambda>t. (j_name j, None, Some t, coalesce (j_singleton_key j) ''''))
             (j_singleton_on j)
      else None)"

fun index_key :: "uindex \<Rightarrow> job_row \<Rightarrow> ikey option" where
  "index_key Job_i1 j = index_job_policy_short j"
| "index_key Job_i2 j = index_job_policy_singleton j"
| "index_key Job_i3 j = index_job_policy_stately j"
| "index_key Job_i6 j = index_job_policy_exclusive j"
| "index_key Job_i8 j = index_job_policy_key_strict_fifo j"
| "index_key Job_i4 j = index_job_throttle j"

definition all_indexes :: "uindex list" where
  "all_indexes = [Job_i1, Job_i2, Job_i3, Job_i6, Job_i8, Job_i4]"

lemma set_all_indexes [simp]: "set all_indexes = UNIV"
proof -
  have "i \<in> set all_indexes" for i
    by (cases i) (simp_all add: all_indexes_def)
  then show ?thesis by blast
qed

instantiation uindex :: enum
begin

definition enum_uindex :: "uindex list" where
  "enum_uindex = all_indexes"

definition enum_all_uindex :: "(uindex \<Rightarrow> bool) \<Rightarrow> bool" where
  "enum_all_uindex P = list_all P all_indexes"

definition enum_ex_uindex :: "(uindex \<Rightarrow> bool) \<Rightarrow> bool" where
  "enum_ex_uindex P = list_ex P all_indexes"

instance
  by standard
     (simp_all add: enum_uindex_def enum_all_uindex_def enum_ex_uindex_def list_all_iff list_ex_iff,
      simp add: all_indexes_def)

end

lemmas index_defs =
  index_job_policy_short_def index_job_policy_singleton_def index_job_policy_stately_def
  index_job_policy_exclusive_def index_job_policy_key_strict_fifo_def index_job_throttle_def

definition unique_index :: "uindex \<Rightarrow> job_row list \<Rightarrow> bool" where
  "unique_index i rows \<longleftrightarrow> distinct (List.map_filter (index_key i) rows)"

lemma unique_index_inj:
  assumes "unique_index i rows" "x \<in> set rows" "y \<in> set rows" "index_key i x = Some k"
    "index_key i y = Some k"
  shows "x = y"
  using assms unfolding unique_index_def
  by (induction rows) (auto simp: List.map_filter_simps set_map_filter_iff split: option.splits)

section \<open>Constraints\<close>

definition job_pk :: "job_row \<Rightarrow> string \<times> uuid" where
  "job_pk j = (j_name j, j_id j)"

text \<open>\<^verbatim>\<open>NOT (policy = 'key_strict_fifo' AND singleton_key IS NULL)\<close>; a NULL policy passes.\<close>

definition job_check :: "job_row \<Rightarrow> bool" where
  "job_check j \<longleftrightarrow> \<not> (j_policy j = Some ''key_strict_fifo'' \<and> j_singleton_key j = None)"

definition queue_exists :: "string \<Rightarrow> db \<Rightarrow> bool" where
  "queue_exists n d \<longleftrightarrow> (\<exists>q\<in>set (queues d). q_name q = n)"

definition find_queue :: "string \<Rightarrow> db \<Rightarrow> queue_row option" where
  "find_queue n d = find (\<lambda>q. q_name q = n) (queues d)"

definition fk_ok :: "string option \<Rightarrow> db \<Rightarrow> bool" where
  "fk_ok r d \<longleftrightarrow> (case r of None \<Rightarrow> True | Some n \<Rightarrow> queue_exists n d)"

definition job_row_ok :: "db \<Rightarrow> job_row \<Rightarrow> bool" where
  "job_row_ok d j \<longleftrightarrow> job_check j \<and> queue_exists (j_name j) d \<and> fk_ok (j_dead_letter j) d"

definition jobs_ok :: "db \<Rightarrow> bool" where
  "jobs_ok d \<longleftrightarrow>
     distinct (map job_pk (jobs d)) \<and> (\<forall>i. unique_index i (jobs d)) \<and>
     (\<forall>j\<in>set (jobs d). job_row_ok d j)"

definition queue_row_ok :: "db \<Rightarrow> queue_row \<Rightarrow> bool" where
  "queue_row_ok d q \<longleftrightarrow> q_dead_letter q \<noteq> Some (q_name q) \<and> fk_ok (q_dead_letter q) d"

definition queues_ok :: "db \<Rightarrow> bool" where
  "queues_ok d \<longleftrightarrow> distinct (map q_name (queues d)) \<and> (\<forall>q\<in>set (queues d). queue_row_ok d q)"

definition schedules_ok :: "db \<Rightarrow> bool" where
  "schedules_ok d \<longleftrightarrow>
     distinct (map (\<lambda>r. (sch_name r, sch_key r)) (schedules d)) \<and>
     (\<forall>r\<in>set (schedules d). queue_exists (sch_name r) d)"

text \<open>Every constraint the schema declares, on the tables the program uses.\<close>

definition db_ok :: "db \<Rightarrow> bool" where
  "db_ok d \<longleftrightarrow> queues_ok d \<and> jobs_ok d \<and> schedules_ok d \<and> distinct (map v_version (versions d))"

lemma find_queue_Some: "find_queue n d = Some q \<Longrightarrow> q \<in> set (queues d) \<and> q_name q = n"
  by (auto simp: find_queue_def find_Some_iff)

lemma find_queue_None: "find_queue n d = None \<longleftrightarrow> \<not> queue_exists n d"
  by (auto simp: find_queue_def find_None_iff queue_exists_def)

lemma queue_exists_cong [simp]: "queue_exists n (d\<lparr>jobs := js\<rparr>) = queue_exists n d"
  "queue_exists n (d\<lparr>schedules := ss\<rparr>) = queue_exists n d"
  "queue_exists n (d\<lparr>versions := vs\<rparr>) = queue_exists n d"
  by (simp_all add: queue_exists_def)

lemma fk_ok_cong [simp]: "fk_ok r (d\<lparr>jobs := js\<rparr>) = fk_ok r d"
  "fk_ok r (d\<lparr>schedules := ss\<rparr>) = fk_ok r d" "fk_ok r (d\<lparr>versions := vs\<rparr>) = fk_ok r d"
  by (simp_all add: fk_ok_def split: option.splits)

lemma row_ok_cong [simp]: "job_row_ok (d\<lparr>jobs := js\<rparr>) j = job_row_ok d j"
  "job_row_ok (d\<lparr>schedules := ss\<rparr>) j = job_row_ok d j"
  "job_row_ok (d\<lparr>versions := vs\<rparr>) j = job_row_ok d j"
  "queue_row_ok (d\<lparr>jobs := js\<rparr>) q = queue_row_ok d q"
  "queue_row_ok (d\<lparr>schedules := ss\<rparr>) q = queue_row_ok d q"
  "queue_row_ok (d\<lparr>versions := vs\<rparr>) q = queue_row_ok d q"
  by (simp_all add: job_row_ok_def queue_row_ok_def)

section \<open>UPDATE of the job table\<close>

text \<open>
  \<^verbatim>\<open>UPDATE job SET f WHERE p RETURNING *\<close>: each row \<open>p\<close> selects is replaced by \<open>f\<close> of it, an error in
  one row fails the statement, and the unique indexes must hold afterwards. No statement of the
  program moves one row out of an index key and another row into it, so checking at the end
  raises exactly when the server's row-by-row check does.
\<close>

definition check_unique :: "job_row list \<Rightarrow> db_error + unit" where
  "check_unique rows =
     (case find (\<lambda>i. \<not> unique_index i rows) all_indexes of
        None \<Rightarrow> Inr ()
      | Some i \<Rightarrow> Inl (UniqueViolation i))"

lemma check_unique_Inr [simp]: "check_unique rows = Inr u \<longleftrightarrow> (\<forall>i. unique_index i rows)"
  by (auto simp: check_unique_def find_None_iff find_Some_iff split: option.splits)

definition update_rows ::
  "(job_row \<Rightarrow> bool) \<Rightarrow> (job_row \<Rightarrow> db_error + job_row) \<Rightarrow> job_row list \<Rightarrow> db_error + job_row list"
  where
  "update_rows p f rows = traverse (\<lambda>j. if p j then f j else Inr j) rows"

definition update_jobs ::
  "(job_row \<Rightarrow> bool) \<Rightarrow> (job_row \<Rightarrow> db_error + job_row) \<Rightarrow> db \<Rightarrow> db_error + db \<times> job_row list"
  where
  "update_jobs p f d =
     bindr (update_rows p f (jobs d)) (\<lambda>rows.
     bindr (traverse f (filter p (jobs d))) (\<lambda>returning.
     bindr (check_unique rows) (\<lambda>_.
     Inr (d\<lparr>jobs := rows\<rparr>, returning))))"

text \<open>\<^verbatim>\<open>DELETE FROM job WHERE p\<close>.\<close>

definition delete_rows :: "(job_row \<Rightarrow> bool) \<Rightarrow> db \<Rightarrow> db" where
  "delete_rows p d = d\<lparr>jobs := filter (\<lambda>j. \<not> p j) (jobs d)\<rparr>"

end
