(* ===== verification/Job_Updates.thy ===== *)
theory Job_Updates
  imports Job_Schema
begin

text \<open>
  The contract every UPDATE of the \<^verbatim>\<open>job\<close> table keeps. The lifecycle of a job is the step relation
  \<open>may_move\<close> on its states; \<open>frame_of\<close> blanks the eight columns the program ever updates. The
  locale \<open>job_update\<close> fixes a statement's WHERE and SET clauses, assumes that SET leaves the other
  columns alone and moves the state along the lifecycle, and proves once what every such
  statement then guarantees: the schema's constraints survive, rows it does not select are
  untouched and no row appears or disappears. The theories on single statements interpret it.
\<close>

section \<open>The job lifecycle\<close>

inductive may_move :: "JobState \<Rightarrow> JobState \<Rightarrow> bool" where
  claim: "s < ACTIVE \<Longrightarrow> may_move s ACTIVE"
| complete: "may_move ACTIVE COMPLETED"
| retry: "may_move ACTIVE RETRY"
| exhaust: "may_move ACTIVE FAILED"
| cancel: "s < COMPLETED \<Longrightarrow> may_move s CANCELLED"
| resume: "may_move CANCELLED CREATED"
| requeue: "may_move FAILED RETRY"

lemma may_move_simps [simp]:
  "may_move CREATED ACTIVE" "may_move RETRY ACTIVE" "may_move ACTIVE COMPLETED"
  "may_move ACTIVE RETRY" "may_move ACTIVE FAILED" "may_move CREATED CANCELLED"
  "may_move RETRY CANCELLED" "may_move ACTIVE CANCELLED" "may_move CANCELLED CREATED"
  "may_move FAILED RETRY"
  by (simp_all add: may_move.intros)

inductive_simps may_move_from_COMPLETED [simp]: "may_move COMPLETED t"
inductive_simps may_move_from_ACTIVE: "may_move ACTIVE t"
inductive_simps may_move_to_ACTIVE: "may_move s ACTIVE"
inductive_cases may_moveE: "may_move s t"

definition frame_of :: "job_row \<Rightarrow> job_row" where
  "frame_of j = j\<lparr>j_state := CREATED, j_retry_limit := 0, j_retry_count := 0, j_start_after := 0,
     j_started_on := None, j_completed_on := None, j_output := None, j_heartbeat_on := None\<rparr>"

lemma frame_of_sel [simp]:
  "j_id (frame_of j) = j_id j" "j_name (frame_of j) = j_name j"
  "j_priority (frame_of j) = j_priority j" "j_data (frame_of j) = j_data j"
  "j_policy (frame_of j) = j_policy j" "j_dead_letter (frame_of j) = j_dead_letter j"
  "j_singleton_key (frame_of j) = j_singleton_key j"
  "j_singleton_on (frame_of j) = j_singleton_on j" "j_group_id (frame_of j) = j_group_id j"
  "j_group_tier (frame_of j) = j_group_tier j" "j_created_on (frame_of j) = j_created_on j"
  "j_keep_until (frame_of j) = j_keep_until j"
  "j_deletion_seconds (frame_of j) = j_deletion_seconds j"
  "j_expire_seconds (frame_of j) = j_expire_seconds j"
  "j_retry_delay (frame_of j) = j_retry_delay j"
  "j_retry_backoff (frame_of j) = j_retry_backoff j"
  "j_retry_delay_max (frame_of j) = j_retry_delay_max j"
  by (simp_all add: frame_of_def)

text \<open>Two rows with one frame agree on every column the frame keeps.\<close>

lemma same_frame:
  assumes "frame_of j' = frame_of j"
  shows "j_id j' = j_id j" "j_name j' = j_name j" "j_priority j' = j_priority j"
    "j_data j' = j_data j" "j_policy j' = j_policy j" "j_dead_letter j' = j_dead_letter j"
    "j_singleton_key j' = j_singleton_key j" "j_singleton_on j' = j_singleton_on j"
    "j_group_id j' = j_group_id j" "j_keep_until j' = j_keep_until j"
    "j_deletion_seconds j' = j_deletion_seconds j" "j_created_on j' = j_created_on j"
  by (metis assms frame_of_sel)+

lemma job_pk_frame: "frame_of j' = frame_of j \<Longrightarrow> job_pk j' = job_pk j"
  by (simp add: job_pk_def same_frame [of j' j])

lemma job_row_ok_frame:
  assumes "frame_of j' = frame_of j"
  shows "job_row_ok d j' = job_row_ok d j"
  using same_frame [OF assms] by (simp add: job_row_ok_def job_check_def)

section \<open>What any UPDATE guarantees\<close>

definition updated :: "(job_row \<Rightarrow> bool) \<Rightarrow> (job_row \<Rightarrow> db_error + job_row) \<Rightarrow> job_row \<Rightarrow> job_row \<Rightarrow> bool"
  where
  "updated sel upd j j' \<longleftrightarrow> (if sel j then upd j = Inr j' else j' = j)"

lemma update_rows_iff: "update_rows sel upd rows = Inr rows' \<longleftrightarrow> list_all2 (updated sel upd) rows rows'"
proof -
  have "((if sel x then upd x else Inr x) = Inr y) = updated sel upd x y" for x y
    by (auto simp: updated_def)
  then show ?thesis by (simp add: update_rows_def traverse_Inr_iff)
qed

lemma update_jobsE:
  assumes "update_jobs sel upd d = Inr (d', ret)"
  obtains rows where "d' = d\<lparr>jobs := rows\<rparr>" "list_all2 (updated sel upd) (jobs d) rows"
    "\<forall>i. unique_index i rows" "traverse upd (filter sel (jobs d)) = Inr ret"
  using assms by (auto simp: update_jobs_def update_rows_iff)

lemma update_jobs_rows:
  "update_jobs sel upd d = Inr (d', ret) \<Longrightarrow> list_all2 (updated sel upd) (jobs d) (jobs d')"
  by (erule update_jobsE) simp

lemma update_jobs_only_jobs:
  assumes "update_jobs sel upd d = Inr (d', ret)"
  shows "queues d' = queues d" "schedules d' = schedules d" "versions d' = versions d"
  using assms by (auto elim: update_jobsE)

lemma update_jobs_returned:
  assumes "update_jobs sel upd d = Inr (d', ret)" "r \<in> set ret"
  shows "r \<in> set (jobs d')" "\<exists>j\<in>set (jobs d). sel j \<and> upd j = Inr r"
proof -
  from assms(1) have "traverse upd (filter sel (jobs d)) = Inr ret" by (auto elim: update_jobsE)
  then have "list_all2 (\<lambda>j r. upd j = Inr r) (filter sel (jobs d)) ret" by (simp add: traverse_Inr_iff)
  from list_all2_in_right [OF this assms(2)] obtain j
    where j: "j \<in> set (jobs d)" "sel j" "upd j = Inr r" by auto
  then show "\<exists>j\<in>set (jobs d). sel j \<and> upd j = Inr r" by blast
  from list_all2_in_left [OF update_jobs_rows [OF assms(1)] j(1)] j(2,3) show "r \<in> set (jobs d')"
    by (auto simp: updated_def)
qed

lemma traverse_cong: "(\<And>x. x \<in> set xs \<Longrightarrow> f x = g x) \<Longrightarrow> traverse f xs = traverse g xs"
  by (induction xs) auto

lemma update_jobs_cong:
  assumes "\<And>j. j \<in> set (jobs d) \<Longrightarrow> sel j = sel' j"
  shows "update_jobs sel upd d = update_jobs sel' upd d"
proof -
  have "update_rows sel upd (jobs d) = update_rows sel' upd (jobs d)"
    unfolding update_rows_def by (rule traverse_cong) (simp add: assms)
  moreover have "filter sel (jobs d) = filter sel' (jobs d)"
    by (rule filter_cong) (simp_all add: assms)
  ultimately show ?thesis by (simp add: update_jobs_def)
qed

text \<open>A statement with a total SET succeeds exactly when the new table has unique keys.\<close>

definition set_where :: "(job_row \<Rightarrow> bool) \<Rightarrow> (job_row \<Rightarrow> job_row) \<Rightarrow> job_row list \<Rightarrow> job_row list" where
  "set_where sel g rows = map (\<lambda>j. if sel j then g j else j) rows"

lemma update_jobs_total:
  "update_jobs sel (\<lambda>j. Inr (g j)) d =
     (let rows = set_where sel g (jobs d)
      in bindr (check_unique rows) (\<lambda>_. Inr (d\<lparr>jobs := rows\<rparr>, map g (filter sel (jobs d)))))"
proof -
  have "update_rows sel (\<lambda>j. Inr (g j)) (jobs d) = Inr (set_where sel g (jobs d))"
    unfolding update_rows_def set_where_def by (rule traverse_eq_map) simp
  moreover have "traverse (\<lambda>j. Inr (g j) :: db_error + job_row) (filter sel (jobs d)) =
      Inr (map g (filter sel (jobs d)))"
    by (rule traverse_eq_map) simp
  ultimately show ?thesis by (simp add: update_jobs_def Let_def)
qed

text \<open>
  A statement that only takes rows out of indexes, or keeps each selected row's keys, cannot
  violate one.
\<close>

lemma unique_index_shrink:
  assumes "unique_index i rows" "\<And>j. j \<in> set rows \<Longrightarrow> sel j \<Longrightarrow> index_key i (g j) \<in> {None, index_key i j}"
  shows "unique_index i (set_where sel g rows)"
  using assms
proof (induction rows)
  case Nil
  then show ?case by (simp add: set_where_def)
next
  case (Cons j rows)
  let ?j = "if sel j then g j else j"
  have j: "index_key i ?j \<in> {None, index_key i j}"
    using Cons.prems(2) [of j] by auto
  have IH: "unique_index i (set_where sel g rows)"
    using Cons by (auto simp: unique_index_def List.map_filter_simps split: option.splits)
  have sub: "k \<in> set (List.map_filter (index_key i) (set_where sel g rows)) \<Longrightarrow>
      k \<in> set (List.map_filter (index_key i) rows)" for k
    using Cons.prems(2) by (fastforce simp: set_map_filter_iff set_where_def split: if_splits)
  show ?case
    using j IH sub Cons.prems(1)
    by (auto simp: unique_index_def set_where_def List.map_filter_simps split: option.splits)
qed

locale job_update =
  fixes sel :: "job_row \<Rightarrow> bool" and upd :: "job_row \<Rightarrow> db_error + job_row"
  assumes upd_frame: "sel j \<Longrightarrow> upd j = Inr j' \<Longrightarrow> frame_of j' = frame_of j"
    and upd_moves: "sel j \<Longrightarrow> upd j = Inr j' \<Longrightarrow> may_move (j_state j) (j_state j')"
begin

lemma updated_frame: "updated sel upd j j' \<Longrightarrow> frame_of j' = frame_of j"
  by (auto simp: updated_def upd_frame split: if_splits)

lemma updated_moves: "updated sel upd j j' \<Longrightarrow> j' = j \<or> may_move (j_state j) (j_state j')"
  by (auto simp: updated_def upd_moves split: if_splits)

lemma keeps_pks: "update_jobs sel upd d = Inr (d', ret) \<Longrightarrow> map job_pk (jobs d') = map job_pk (jobs d)"
  by (rule list_all2_map_eq [OF update_jobs_rows]) (auto dest: updated_frame job_pk_frame)

lemma keeps_jobs_ok:
  assumes "jobs_ok d" "update_jobs sel upd d = Inr (d', ret)"
  shows "jobs_ok d'"
proof -
  from assms(2) obtain rows where d': "d' = d\<lparr>jobs := rows\<rparr>"
    and rows: "list_all2 (updated sel upd) (jobs d) rows" and uniq: "\<forall>i. unique_index i rows"
    by (rule update_jobsE)
  have "job_row_ok d j'" if j': "j' \<in> set rows" for j'
  proof -
    from list_all2_in_right [OF rows j'] obtain j where "j \<in> set (jobs d)" "updated sel upd j j'"
      by blast
    with assms(1) show ?thesis
      by (auto simp: jobs_ok_def dest!: updated_frame job_row_ok_frame [of _ _ d])
  qed
  with d' uniq assms(1) keeps_pks [OF assms(2)] show ?thesis by (simp add: jobs_ok_def)
qed

lemma keeps_db_ok:
  assumes "db_ok d" "update_jobs sel upd d = Inr (d', ret)"
  shows "db_ok d'"
proof -
  from assms(2) obtain rows where d': "d' = d\<lparr>jobs := rows\<rparr>" by (rule update_jobsE)
  from assms(1) have "jobs_ok d" by (simp add: db_ok_def)
  from keeps_jobs_ok [OF this assms(2)] have "jobs_ok d'" .
  with d' assms(1) show ?thesis by (simp add: db_ok_def queues_ok_def schedules_ok_def)
qed

lemma follows_lifecycle:
  "update_jobs sel upd d = Inr (d', ret) \<Longrightarrow>
   list_all2 (\<lambda>j j'. j' = j \<or> frame_of j' = frame_of j \<and> may_move (j_state j) (j_state j')) (jobs d) (jobs d')"
  by (rule list_all2_mono [OF update_jobs_rows]) (use updated_frame updated_moves in blast)+

end

section \<open>What a DELETE guarantees\<close>

lemma delete_rows_jobs_ok: "jobs_ok d \<Longrightarrow> jobs_ok (delete_rows p d)"
  by (auto simp: jobs_ok_def delete_rows_def unique_index_def distinct_map_filter_subset_filter
      intro: distinct_map_filter)

lemma delete_rows_db_ok: "db_ok d \<Longrightarrow> db_ok (delete_rows p d)"
  using delete_rows_jobs_ok [of d p]
  by (auto simp: db_ok_def queues_ok_def schedules_ok_def delete_rows_def)

end
