(* ===== verification/Queue_Sql.thy ===== *)
theory Queue_Sql
  imports Job_Updates "HOL-Library.List_Lexorder" "HOL-Library.Char_ord"
begin

text \<open>
  The statements of \<^verbatim>\<open>underboss/sql.py\<close> on the \<^verbatim>\<open>queue\<close> table: the insert of a queue from its JSON
  options, the delete with its jobs, and the two look-ups. The bodies of the two SQL functions
  that \<^verbatim>\<open>underboss/schema.py\<close> installs are the same statements. Names sort in the C collation.
\<close>

section \<open>Creating a queue\<close>

text \<open>The columns are computed before any of them is checked, so a cast fails before a missing policy does.\<close>

definition queue_row_of :: "pg \<Rightarrow> string \<Rightarrow> json \<Rightarrow> db_error + queue_row" where
  "queue_row_of s name o' =
     bindr (cast_int4 (arrow_text s o' ''retryLimit'')) (\<lambda>retry_limit.
     bindr (cast_int4 (arrow_text s o' ''retryDelay'')) (\<lambda>retry_delay.
     bindr (cast_bool (arrow_text s o' ''retryBackoff'')) (\<lambda>retry_backoff.
     bindr (cast_int4 (arrow_text s o' ''retryDelayMax'')) (\<lambda>retry_delay_max.
     bindr (cast_int4 (arrow_text s o' ''expireInSeconds'')) (\<lambda>expire_seconds.
     bindr (cast_int4 (arrow_text s o' ''retentionSeconds'')) (\<lambda>retention_seconds.
     bindr (cast_int4 (arrow_text s o' ''deleteAfterSeconds'')) (\<lambda>deletion_seconds.
     bindr (cast_int4 (arrow_text s o' ''warningQueueSize'')) (\<lambda>warning_queued.
     bindr (cast_int4 (arrow_text s o' ''heartbeatSeconds'')) (\<lambda>heartbeat_seconds.
     bindr (of_option NotNullViolation (arrow_text s o' ''policy'')) (\<lambda>policy.
       Inr \<lparr>q_name = name, q_policy = policy,
            q_retry_limit = coalesce retry_limit 2,
            q_retry_delay = coalesce retry_delay 0,
            q_retry_backoff = coalesce retry_backoff False,
            q_retry_delay_max = retry_delay_max,
            q_expire_seconds = coalesce expire_seconds 900,
            q_retention_seconds = coalesce retention_seconds 1209600,
            q_deletion_seconds = coalesce deletion_seconds 604800,
            q_dead_letter = arrow_text s o' ''deadLetter'',
            q_partition = False, q_table_name = ''job'',
            q_warning_queued = coalesce warning_queued 0,
            q_heartbeat_seconds = heartbeat_seconds,
            q_created_on = pg_now s, q_updated_on = pg_now s\<rparr>))))))))))"

definition create_queue :: "pg \<Rightarrow> string \<Rightarrow> json \<Rightarrow> db \<Rightarrow> db_error + db" where
  "create_queue s name o' d =
     bindr (queue_row_of s name o') (\<lambda>q.
       if q_dead_letter q = Some (q_name q) then Inl CheckViolation
       else if queue_exists name d then Inr d
       else if \<not> fk_ok (q_dead_letter q) d then Inl ForeignKeyViolation
       else Inr (d\<lparr>queues := queues d @ [q]\<rparr>))"

section \<open>Deleting a queue\<close>

text \<open>
  Jobs and queue row go in one statement; the foreign keys that point at the queue are checked
  when it ends: a job of another queue or a queue that names it as its dead letter refuses the
  delete, its schedules go with it.
\<close>

definition referenced :: "string \<Rightarrow> db \<Rightarrow> bool" where
  "referenced name d \<longleftrightarrow>
     (\<exists>j\<in>set (jobs d). j_name j \<noteq> name \<and> j_dead_letter j = Some name) \<or>
     (\<exists>q\<in>set (queues d). q_name q \<noteq> name \<and> q_dead_letter q = Some name)"

definition delete_queue :: "string \<Rightarrow> db \<Rightarrow> db_error + db" where
  "delete_queue name d =
     (let d' = delete_rows (\<lambda>j. j_name j = name) d
      in if queue_exists name d then
           if referenced name d then Inl ForeignKeyViolation
           else Inr (d'\<lparr>queues := filter (\<lambda>q. q_name q \<noteq> name) (queues d'),
                        schedules := filter (\<lambda>r. sch_name r \<noteq> name) (schedules d')\<rparr>)
         else Inr d')"

section \<open>Looking queues up\<close>

definition get_queue :: "string \<Rightarrow> db \<Rightarrow> queue_row option" where
  "get_queue name d = find_queue name d"

definition get_queues :: "db \<Rightarrow> queue_row list" where
  "get_queues d = sort_key q_name (queues d)"

section \<open>The constraints survive\<close>

lemma queue_exists_mono: "queue_exists n d \<Longrightarrow> queue_exists n (d\<lparr>queues := queues d @ qs\<rparr>)"
  by (auto simp: queue_exists_def)

lemma fk_ok_mono: "fk_ok r d \<Longrightarrow> fk_ok r (d\<lparr>queues := queues d @ qs\<rparr>)"
  by (auto simp: fk_ok_def queue_exists_mono split: option.splits)

lemma create_queue_db_ok:
  assumes "db_ok d" "create_queue s name o' d = Inr d'"
  shows "db_ok d'"
proof -
  from assms(2) obtain q where q: "queue_row_of s name o' = Inr q" by (auto simp: create_queue_def)
  then have n: "q_name q = name" by (auto simp: queue_row_of_def)
  consider "d' = d"
    | "d' = d\<lparr>queues := queues d @ [q]\<rparr>" "q_dead_letter q \<noteq> Some (q_name q)" "fk_ok (q_dead_letter q) d"
      "\<not> queue_exists name d"
    using assms(2) q by (auto simp: create_queue_def split: if_splits)
  then show ?thesis
  proof cases
    case 2
    have qo: "queue_row_ok d x \<Longrightarrow> queue_row_ok d' x" for x
      using 2(1) fk_ok_mono by (auto simp: queue_row_ok_def)
    have jo: "job_row_ok d j \<Longrightarrow> job_row_ok d' j" for j
      using 2(1) fk_ok_mono queue_exists_mono by (auto simp: job_row_ok_def)
    have new: "queue_row_ok d q" using 2 by (simp add: queue_row_ok_def)
    have "queues_ok d'" "jobs_ok d'" "schedules_ok d'"
      using assms(1) 2 n qo jo new queue_exists_mono
      by (auto simp: db_ok_def queues_ok_def jobs_ok_def schedules_ok_def queue_exists_def)
    with assms(1) 2(1) show ?thesis by (simp add: db_ok_def)
  qed (use assms(1) in simp)
qed

lemma delete_queue_db_ok:
  assumes "db_ok d" "delete_queue name d = Inr d'"
  shows "db_ok d'"
proof (cases "queue_exists name d")
  case False
  with assms show ?thesis by (auto simp: delete_queue_def Let_def delete_rows_db_ok)
next
  case True
  let ?d = "delete_rows (\<lambda>j. j_name j = name) d"
  from True assms(2) have unref: "\<not> referenced name d"
    and d': "d' = ?d\<lparr>queues := filter (\<lambda>q. q_name q \<noteq> name) (queues ?d),
                    schedules := filter (\<lambda>r. sch_name r \<noteq> name) (schedules ?d)\<rparr>"
    by (auto simp: delete_queue_def Let_def split: if_splits)
  have exists: "queue_exists n d' \<longleftrightarrow> n \<noteq> name \<and> queue_exists n d" for n
    using d' by (auto simp: queue_exists_def delete_rows_def)
  have fk: "r \<noteq> Some name \<Longrightarrow> fk_ok r d \<Longrightarrow> fk_ok r d'" for r
    using exists by (auto simp: fk_ok_def split: option.splits)
  have "jobs_ok ?d" using assms(1) by (simp add: db_ok_def delete_rows_jobs_ok)
  then have "jobs_ok d'"
    using d' unref fk exists assms(1)
    by (auto simp: jobs_ok_def job_row_ok_def referenced_def delete_rows_def)
  moreover have "queues_ok d'"
    using d' unref fk assms(1)
    by (auto simp: db_ok_def queues_ok_def queue_row_ok_def referenced_def delete_rows_def
        intro: distinct_map_filter)
  moreover have "schedules_ok d'"
    using d' exists assms(1)
    by (auto simp: db_ok_def schedules_ok_def delete_rows_def intro: distinct_map_filter)
  ultimately show ?thesis using d' assms(1) by (simp add: db_ok_def delete_rows_def)
qed

end
