(* ===== verification/Sample_Tables.thy ===== *)
theory Sample_Tables
  imports Job_Schema
begin

text \<open>
  A server and a few tables with concrete values, on which the properties of the other theories are
  applied. They model no code: the server's clock reads 1000 seconds, its ids count up from 1000
  and print as decimal numerals.
\<close>

definition sample_pg :: pg where
  "sample_pg =
     \<lparr>pg_now = 1000000000, pg_random = (\<lambda>_. 1 / 2), pg_gen_uuid = (\<lambda>k. 1000 + k),
      pg_skip_locked = (\<lambda>_. False), pg_uuid_in = nat_in 0, pg_uuid_out = str_of_nat,
      pg_timestamptz_in = (\<lambda>_. Some 0),
      pg_add_interval = (\<lambda>t u. map_option (\<lambda>i. t + i * second) (int_in u)),
      pg_jsonb_in = (\<lambda>_. None), pg_jsonb_out = (\<lambda>_. [])\<rparr>"

lemma sample_uuid_text_ok [simp]: "uuid_text_ok sample_pg"
  by (simp add: uuid_text_ok_def sample_pg_def)

lemma sample_gen_uuid_distinct [simp]: "gen_uuid_distinct sample_pg"
  by (simp add: gen_uuid_distinct_def sample_pg_def inj_def)

definition sample_queue :: "string \<Rightarrow> string \<Rightarrow> queue_row" where
  "sample_queue n p =
     \<lparr>q_name = n, q_policy = p, q_retry_limit = 2, q_retry_delay = 0, q_retry_backoff = False,
      q_retry_delay_max = None, q_expire_seconds = 900, q_retention_seconds = 1209600,
      q_deletion_seconds = 604800, q_dead_letter = None, q_partition = False,
      q_table_name = ''job'', q_warning_queued = 0, q_heartbeat_seconds = None,
      q_created_on = 0, q_updated_on = 0\<rparr>"

definition sample_job :: "string \<Rightarrow> string \<Rightarrow> uuid \<Rightarrow> JobState \<Rightarrow> job_row" where
  "sample_job n p i st =
     (job_defaults (sample_pg\<lparr>pg_now := 0\<rparr>) i n)
       \<lparr>j_state := st, j_policy := Some p,
        j_started_on := (if st = CREATED then None else Some 0)\<rparr>"

definition sample_db :: "queue_row list \<Rightarrow> job_row list \<Rightarrow> db" where
  "sample_db qs js = \<lparr>queues = qs, jobs = js, schedules = [], versions = [\<lparr>v_version = 30, v_cron_on = None\<rparr>]\<rparr>"

end
