(* ===== verification/Fetch_Sql.thy ===== *)
theory Fetch_Sql
  imports Job_Updates Sample_Tables "HOL-Library.Product_Lexorder"
begin

text \<open>
  \<^verbatim>\<open>fetch_next_job\<close> of \<^verbatim>\<open>underboss/sql.py\<close>: the statement that claims jobs. The common table
  expressions that choose the ids are \<open>fetch_plan\<close> and \<open>fetch_group_plan\<close>, the UPDATE that makes
  them active is \<open>claim_jobs\<close>. The plan reads the statement's snapshot and, for each row it is about
  to lock, the row's current version, which is what \<^verbatim>\<open>FOR UPDATE ... SKIP LOCKED\<close> re-checks under
  READ COMMITTED; for a statement that runs alone snapshot and current table are the same.
\<close>

section \<open>Choosing the rows\<close>

definition fetch_where :: "pg \<Rightarrow> string \<Rightarrow> job_row \<Rightarrow> bool" where
  "fetch_where s name j \<longleftrightarrow> j_name j = name \<and> j_state j < ACTIVE \<and> j_start_after j \<le> pg_now s"

text \<open>\<^verbatim>\<open>ORDER BY j.priority DESC, j.created_on, j.id\<close>.\<close>

definition fetch_order :: "job_row \<Rightarrow> int \<times> int \<times> uuid" where
  "fetch_order j = (- j_priority j, j_created_on j, j_id j)"

text \<open>The rows of \<open>rows\<close> whose current version in \<open>cur\<close> is unlocked and still satisfies \<open>p\<close>.\<close>

definition lockable :: "pg \<Rightarrow> (job_row \<Rightarrow> bool) \<Rightarrow> job_row list \<Rightarrow> job_row \<Rightarrow> bool" where
  "lockable s p cur j \<longleftrightarrow>
     \<not> pg_skip_locked s (job_pk j) \<and> (\<exists>c\<in>set cur. job_pk c = job_pk j \<and> p c)"

definition limit :: "int \<Rightarrow> 'a list \<Rightarrow> db_error + 'a list" where
  "limit n xs = (if n < 0 then Inl InvalidRowCountInLimit else Inr (take (nat n) xs))"

definition select_next ::
  "pg \<Rightarrow> (job_row \<Rightarrow> bool) \<Rightarrow> int \<Rightarrow> job_row list \<Rightarrow> job_row list \<Rightarrow> db_error + job_row list" where
  "select_next s p n snap cur =
     limit n (filter (lockable s p cur) (sort_key fetch_order (filter p snap)))"

definition fetch_plan ::
  "pg \<Rightarrow> string \<Rightarrow> int \<Rightarrow> job_row list \<Rightarrow> job_row list \<Rightarrow> db_error + uuid list" where
  "fetch_plan s name n snap cur =
     bindr (select_next s (fetch_where s name) n snap cur) (\<lambda>next. Inr (map j_id next))"

section \<open>The group-concurrency path\<close>

text \<open>\<^verbatim>\<open>active_group_counts\<close>: the active jobs of a group, \<open>None\<close> where the LEFT JOIN finds no group.\<close>

definition active_in_group :: "string \<Rightarrow> string \<Rightarrow> job_row list \<Rightarrow> int" where
  "active_in_group name g rows =
     int (length (filter (\<lambda>j. j_name j = name \<and> j_state j = ACTIVE \<and> j_group_id j = Some g) rows))"

definition active_group_counts :: "string \<Rightarrow> job_row list \<Rightarrow> string \<Rightarrow> int option" where
  "active_group_counts name rows g =
     (if active_in_group name g rows = 0 then None else Some (active_in_group name g rows))"

definition group_where :: "pg \<Rightarrow> string \<Rightarrow> int \<Rightarrow> job_row list \<Rightarrow> job_row \<Rightarrow> bool" where
  "group_where s name cap snap j \<longleftrightarrow>
     fetch_where s name j \<and>
     (case j_group_id j of
        None \<Rightarrow> True
      | Some g \<Rightarrow>
          (case active_group_counts name snap g of None \<Rightarrow> True | Some c \<Rightarrow> c < cap))"

text \<open>\<^verbatim>\<open>ROW_NUMBER() OVER (PARTITION BY t.group_id ORDER BY t.id)\<close>; ids are unique in a queue.\<close>

definition group_rn :: "job_row list \<Rightarrow> job_row \<Rightarrow> int" where
  "group_rn nxt t =
     int (length (filter (\<lambda>u. j_group_id u = j_group_id t \<and> j_id u \<le> j_id t) nxt))"

definition group_filtered :: "string \<Rightarrow> int \<Rightarrow> job_row list \<Rightarrow> job_row list \<Rightarrow> job_row list" where
  "group_filtered name cap snap nxt =
     filter (\<lambda>t.
       case j_group_id t of
         None \<Rightarrow> True
       | Some g \<Rightarrow> coalesce (active_group_counts name snap g) 0 + group_rn nxt t \<le> cap) nxt"

definition fetch_group_plan ::
  "pg \<Rightarrow> string \<Rightarrow> int \<Rightarrow> int \<Rightarrow> job_row list \<Rightarrow> job_row list \<Rightarrow> db_error + uuid list" where
  "fetch_group_plan s name n cap snap cur =
     bindr (select_next s (group_where s name cap snap) n snap cur) (\<lambda>nxt.
       Inr (map j_id (group_filtered name cap snap nxt)))"

section \<open>Claiming them\<close>

definition claim_where :: "string \<Rightarrow> uuid list \<Rightarrow> job_row \<Rightarrow> bool" where
  "claim_where name us j \<longleftrightarrow> j_name j = name \<and> j_id j \<in> set us"

definition claim_set :: "pg \<Rightarrow> job_row \<Rightarrow> db_error + job_row" where
  "claim_set s j =
     bindr (if j_started_on j \<noteq> None then int4 (j_retry_count j + 1) else Inr (j_retry_count j)) (\<lambda>n.
       Inr (j\<lparr>j_state := ACTIVE, j_started_on := Some (pg_now s),
              j_heartbeat_on := Some (pg_now s), j_retry_count := n\<rparr>))"

definition claim_jobs :: "pg \<Rightarrow> string \<Rightarrow> uuid list \<Rightarrow> db \<Rightarrow> db_error + db \<times> job_row list" where
  "claim_jobs s name us d = update_jobs (claim_where name us) (claim_set s) d"

text \<open>
  The statement on a table \<open>d\<close> with a snapshot \<open>snap\<close> of it, and the statement run alone. Its rows
  come back in no order the program may rely on.
\<close>

definition fetch_next_job_at ::
  "pg \<Rightarrow> string \<Rightarrow> int \<Rightarrow> int option \<Rightarrow> db \<Rightarrow> db \<Rightarrow> db_error + db \<times> job_row list" where
  "fetch_next_job_at s name n group_concurrency snap d =
     bindr (case group_concurrency of
              None \<Rightarrow> fetch_plan s name n (jobs snap) (jobs d)
            | Some cap \<Rightarrow> fetch_group_plan s name n cap (jobs snap) (jobs d)) (\<lambda>us.
       claim_jobs s name us d)"

definition fetch_next_job ::
  "pg \<Rightarrow> string \<Rightarrow> int \<Rightarrow> int option \<Rightarrow> db \<Rightarrow> db_error + db \<times> job_row list" where
  "fetch_next_job s name n group_concurrency d = fetch_next_job_at s name n group_concurrency d d"

section \<open>What a plan holds\<close>

lemma limit_Inr [simp]: "limit n xs = Inr ys \<longleftrightarrow> 0 \<le> n \<and> ys = take (nat n) xs"
  by (auto simp: limit_def)

lemma lockable_current:
  assumes "lockable s p cur j"
  shows "\<exists>c\<in>set cur. job_pk c = job_pk j \<and> p c" "\<not> pg_skip_locked s (job_pk j)"
  using assms by (auto simp: lockable_def)

lemma select_next_sound:
  assumes "select_next s p n snap cur = Inr nxt" "t \<in> set nxt"
  shows "t \<in> set snap" "p t" "lockable s p cur t"
  using assms by (auto simp: select_next_def dest!: in_set_takeD)

lemma select_next_length: "select_next s p n snap cur = Inr nxt \<Longrightarrow> int (length nxt) \<le> n"
  by (auto simp: select_next_def)

lemma group_where_fetch: "group_where s name cap snap j \<Longrightarrow> fetch_where s name j"
  by (simp add: group_where_def)

text \<open>Whatever the path, each chosen id is that of an unlocked, due, queued row of the queue.\<close>

definition plan_of ::
  "pg \<Rightarrow> string \<Rightarrow> int \<Rightarrow> int option \<Rightarrow> db \<Rightarrow> db \<Rightarrow> db_error + uuid list" where
  "plan_of s name n gc snap d =
     (case gc of
        None \<Rightarrow> fetch_plan s name n (jobs snap) (jobs d)
      | Some cap \<Rightarrow> fetch_group_plan s name n cap (jobs snap) (jobs d))"

lemma fetch_next_job_at_plan:
  "fetch_next_job_at s name n gc snap d = bindr (plan_of s name n gc snap d) (\<lambda>us. claim_jobs s name us d)"
  by (simp add: fetch_next_job_at_def plan_of_def)

definition claimable :: "pg \<Rightarrow> string \<Rightarrow> job_row \<Rightarrow> bool" where
  "claimable s name j \<longleftrightarrow> fetch_where s name j \<and> \<not> pg_skip_locked s (job_pk j)"

lemma plan_shape:
  assumes "plan_of s name n gc snap d = Inr us"
  obtains p nxt ts where "\<forall>j. p j \<longrightarrow> fetch_where s name j"
    "select_next s p n (jobs snap) (jobs d) = Inr nxt" "us = map j_id ts" "set ts \<subseteq> set nxt"
    "length ts \<le> length nxt"
proof (cases gc)
  case None
  with assms obtain nxt where "select_next s (fetch_where s name) n (jobs snap) (jobs d) = Inr nxt"
    "us = map j_id nxt"
    by (auto simp: plan_of_def fetch_plan_def)
  then show ?thesis by (intro that [of "fetch_where s name" nxt nxt]) auto
next
  case (Some cap)
  with assms obtain nxt
    where "select_next s (group_where s name cap (jobs snap)) n (jobs snap) (jobs d) = Inr nxt"
      "us = map j_id (group_filtered name cap (jobs snap) nxt)"
    by (auto simp: plan_of_def fetch_group_plan_def)
  then show ?thesis
    by (intro that [of "group_where s name cap (jobs snap)" nxt "group_filtered name cap (jobs snap) nxt"])
       (auto simp: group_filtered_def group_where_fetch)
qed

lemma plan_sound:
  assumes "plan_of s name n gc snap d = Inr us" "u \<in> set us"
  shows "\<exists>c\<in>set (jobs d). job_pk c = (name, u) \<and> claimable s name c"
proof -
  from assms(1) obtain p nxt ts where p: "\<forall>j. p j \<longrightarrow> fetch_where s name j"
    and nxt: "select_next s p n (jobs snap) (jobs d) = Inr nxt"
    and ts: "us = map j_id ts" "set ts \<subseteq> set nxt" "length ts \<le> length nxt"
    by (rule plan_shape)
  from assms(2) ts obtain t where t: "t \<in> set nxt" "j_id t = u" by auto
  from select_next_sound [OF nxt t(1)] have pt: "p t" and l: "lockable s p (jobs d) t" by auto
  from lockable_current [OF l] obtain c where c: "c \<in> set (jobs d)" "job_pk c = job_pk t" "p c"
    "\<not> pg_skip_locked s (job_pk t)" by auto
  from p pt t(2) have "job_pk t = (name, u)" by (simp add: fetch_where_def job_pk_def)
  with c p show ?thesis by (auto simp: claimable_def)
qed

lemma plan_length:
  assumes "plan_of s name n gc snap d = Inr us"
  shows "int (length us) \<le> n"
proof -
  from assms obtain p nxt ts where p: "\<forall>j. p j \<longrightarrow> fetch_where s name j"
    and nxt: "select_next s p n (jobs snap) (jobs d) = Inr nxt"
    and ts: "us = map j_id ts" "set ts \<subseteq> set nxt" "length ts \<le> length nxt"
    by (rule plan_shape)
  from select_next_length [OF nxt] ts show ?thesis by simp
qed

section \<open>The claim keeps the contract\<close>

interpretation claim: job_update "\<lambda>j. claim_where name us j \<and> j_state j < ACTIVE" "claim_set s"
  for name us s
  by unfold_locales (auto simp: claim_set_def frame_of_def split: if_splits)

lemma pk_inj:
  "distinct (map job_pk js) \<Longrightarrow> a \<in> set js \<Longrightarrow> b \<in> set js \<Longrightarrow> job_pk a = job_pk b \<Longrightarrow> a = b"
  by (auto simp: distinct_map dest: inj_onD)

lemma claimed_rows:
  assumes "distinct (map job_pk (jobs d))" "plan_of s name n gc snap d = Inr us"
    "j \<in> set (jobs d)" "claim_where name us j"
  shows "claimable s name j"
proof -
  from assms(4) have j: "job_pk j = (name, j_id j)" "j_id j \<in> set us"
    by (auto simp: claim_where_def job_pk_def)
  from plan_sound [OF assms(2) j(2)] obtain c
    where c: "c \<in> set (jobs d)" "job_pk c = (name, j_id j)" "claimable s name c" by blast
  with pk_inj [OF assms(1) assms(3) c(1)] j show ?thesis by simp
qed

lemma claim_of_plan:
  assumes "distinct (map job_pk (jobs d))" "plan_of s name n gc snap d = Inr us"
  shows "claim_jobs s name us d =
    update_jobs (\<lambda>j. claim_where name us j \<and> j_state j < ACTIVE) (claim_set s) d"
  unfolding claim_jobs_def
  by (rule update_jobs_cong)
     (use claimed_rows [OF assms] in \<open>auto simp: claimable_def fetch_where_def\<close>)

section \<open>A statement that runs alone\<close>

text \<open>The claimable rows in the order they are handed out.\<close>

definition claim_queue :: "pg \<Rightarrow> string \<Rightarrow> job_row list \<Rightarrow> job_row list" where
  "claim_queue s name rows = sort_key fetch_order (filter (claimable s name) rows)"

lemma lockable_alone:
  "j \<in> set rows \<Longrightarrow> p j \<Longrightarrow> lockable s p rows j \<longleftrightarrow> \<not> pg_skip_locked s (job_pk j)"
  by (auto simp: lockable_def)

lemma select_next_alone:
  "select_next s p n rows rows =
    limit n (sort_key fetch_order (filter (\<lambda>j. p j \<and> \<not> pg_skip_locked s (job_pk j)) rows))"
proof -
  have "filter (lockable s p rows) (filter p rows) =
      filter (\<lambda>j. p j \<and> \<not> pg_skip_locked s (job_pk j)) rows"
    unfolding filter_filter by (rule filter_cong) (auto simp: lockable_alone)
  then show ?thesis by (simp add: select_next_def filter_sort)
qed

lemma plan_alone:
  assumes "plan_of s name n None d d = Inr us"
  shows "0 \<le> n" "us = map j_id (take (nat n) (claim_queue s name (jobs d)))"
  using assms
  by (auto simp: plan_of_def fetch_plan_def select_next_alone claim_queue_def claimable_def [abs_def])

lemma claim_queue_set [simp]: "set (claim_queue s name rows) = {j \<in> set rows. claimable s name j}"
  by (auto simp: claim_queue_def)

lemma distinct_jobs: "distinct (map job_pk (jobs d)) \<Longrightarrow> distinct (jobs d)"
  by (simp add: distinct_map)

lemma claim_queue_distinct: "distinct rows \<Longrightarrow> distinct (claim_queue s name rows)"
  by (simp add: claim_queue_def)

text \<open>The rows an id list selects, when the ids come from rows of the table.\<close>

lemma claim_where_of_rows:
  assumes "distinct (map job_pk (jobs d))" "set ts \<subseteq> set (jobs d)" "\<forall>t\<in>set ts. j_name t = name"
    "j \<in> set (jobs d)"
  shows "claim_where name (map j_id ts) j \<longleftrightarrow> j \<in> set ts"
proof
  assume "claim_where name (map j_id ts) j"
  then obtain t where t: "t \<in> set ts" "j_id t = j_id j" and n: "j_name j = name"
    by (auto simp: claim_where_def)
  with assms(3) have "job_pk t = job_pk j" by (simp add: job_pk_def)
  with pk_inj [OF assms(1) _ assms(4)] t(1) assms(2) show "j \<in> set ts" by blast
next
  assume "j \<in> set ts"
  with assms(3) show "claim_where name (map j_id ts) j" by (auto simp: claim_where_def)
qed

text \<open>What a successful claim leaves behind, row by row.\<close>

definition claimed_to :: "pg \<Rightarrow> job_row \<Rightarrow> job_row \<Rightarrow> bool" where
  "claimed_to s j j' \<longleftrightarrow>
     frame_of j' = frame_of j \<and> j_state j' = ACTIVE \<and> j_started_on j' = Some (pg_now s) \<and>
     j_start_after j' = j_start_after j \<and> j_completed_on j' = j_completed_on j \<and>
     j_retry_limit j' = j_retry_limit j \<and> j_output j' = j_output j \<and>
     j_retry_count j' = (if j_started_on j = None then j_retry_count j else j_retry_count j + 1)"

lemma claim_set_Inr: "claim_set s j = Inr j' \<Longrightarrow> claimed_to s j j'"
  by (auto simp: claim_set_def claimed_to_def frame_of_def split: if_splits)

lemma claim_jobs_rows:
  assumes "claim_jobs s name us d = Inr (d', rows)"
  shows "list_all2 (updated (claim_where name us) (claim_set s)) (jobs d) (jobs d')"
    "list_all2 (\<lambda>j r. claim_set s j = Inr r) (filter (claim_where name us) (jobs d)) rows"
  using assms unfolding claim_jobs_def
  by (auto elim!: update_jobsE simp: traverse_Inr_iff)

lemma returned_rows:
  assumes "claim_jobs s name us d = Inr (d', rows)" "r \<in> set rows"
  shows "r \<in> set (jobs d')" "\<exists>j\<in>set (jobs d). claim_where name us j \<and> claimed_to s j r"
  using update_jobs_returned [OF assms(1) [unfolded claim_jobs_def] assms(2)] claim_set_Inr by blast+

lemma claim_jobs_length:
  assumes "claim_jobs s name us d = Inr (d', rows)"
  shows "length rows = length (filter (claim_where name us) (jobs d))"
  using list_all2_lengthD [OF claim_jobs_rows(2) [OF assms]] by simp

lemma claim_where_length:
  assumes "distinct (map job_pk (jobs d))"
  shows "length (filter (claim_where name us) (jobs d)) \<le> length us"
proof -
  let ?f = "filter (claim_where name us) (jobs d)"
  have "inj_on j_id (set ?f)"
    using pk_inj [OF assms] by (auto simp: inj_on_def claim_where_def job_pk_def)
  with distinct_jobs [OF assms] have "distinct (map j_id ?f)" by (simp add: distinct_map)
  then have "length ?f = card (set (map j_id ?f))" by (metis distinct_card length_map)
  also have "\<dots> \<le> card (set us)"
    by (rule card_mono) (auto simp: claim_where_def)
  also have "\<dots> \<le> length us" by (rule card_length)
  finally show ?thesis .
qed

lemma alone_claims:
  assumes "distinct (map job_pk (jobs d))" "plan_of s name n None d d = Inr us" "j \<in> set (jobs d)"
  shows "claim_where name us j \<longleftrightarrow> j \<in> set (take (nat n) (claim_queue s name (jobs d)))"
proof -
  let ?ts = "take (nat n) (claim_queue s name (jobs d))"
  have "set ?ts \<subseteq> set (jobs d)" "\<forall>t\<in>set ?ts. j_name t = name"
    by (auto simp: claimable_def fetch_where_def dest!: in_set_takeD)
  from claim_where_of_rows [OF assms(1) this assms(3)] plan_alone(2) [OF assms(2)]
  show ?thesis by simp
qed

lemma claim_queue_order:
  assumes "i < j" "j < length (claim_queue s name rows)"
  shows "fetch_order (claim_queue s name rows ! i) \<le> fetch_order (claim_queue s name rows ! j)"
  using assms sorted_sort_key [of fetch_order "filter (claimable s name) rows"]
  by (auto simp: claim_queue_def sorted_iff_nth_mono dest: spec)

text \<open>Distinct claimable rows of one queue never tie: the id breaks it.\<close>

lemma fetch_order_strict:
  assumes "distinct (map job_pk rows)" "i \<in> set rows" "j \<in> set rows" "i \<noteq> j" "j_name i = j_name j"
  shows "fetch_order i \<noteq> fetch_order j"
  using pk_inj [OF assms(1-3)] assms(4,5) by (auto simp: fetch_order_def job_pk_def)

section \<open>The group path, alone\<close>

lemma group_plan_alone:
  assumes "plan_of s name n (Some cap) d d = Inr us"
  obtains nxt where "us = map j_id (group_filtered name cap (jobs d) nxt)"
    "set nxt \<subseteq> {j \<in> set (jobs d). claimable s name j}" "distinct (jobs d) \<longrightarrow> distinct nxt"
proof -
  let ?p = "group_where s name cap (jobs d)"
  from assms obtain nxt where nxt: "select_next s ?p n (jobs d) (jobs d) = Inr nxt"
    "us = map j_id (group_filtered name cap (jobs d) nxt)"
    by (auto simp: plan_of_def fetch_group_plan_def)
  from nxt(1) have "nxt = take (nat n) (sort_key fetch_order
      (filter (\<lambda>j. ?p j \<and> \<not> pg_skip_locked s (job_pk j)) (jobs d)))"
    by (simp add: select_next_alone)
  then show ?thesis using nxt(2)
    by (intro that [of nxt])
       (auto simp: claimable_def dest!: in_set_takeD dest: group_where_fetch)
qed

text \<open>The row of a group with the largest id among those let through carries their number as its rank.\<close>

lemma group_filtered_cap:
  assumes "t \<in> set (group_filtered name cap rows nxt)" "j_group_id t = Some g"
  shows "active_in_group name g rows +
    int (length (filter (\<lambda>u. j_group_id u = Some g) (group_filtered name cap rows nxt))) \<le> cap"
proof -
  let ?G = "filter (\<lambda>u. j_group_id u = Some g) (group_filtered name cap rows nxt)"
  have ne: "set ?G \<noteq> {}" using assms by auto
  define m where "m = Max (j_id ` set ?G)"
  have "m \<in> j_id ` set ?G" unfolding m_def using ne by (intro Max_in) auto
  then obtain u where u: "u \<in> set ?G" "j_id u = m" by blast
  have top: "j_id v \<le> j_id u" if "v \<in> set ?G" for v
    unfolding u(2) m_def using that by (intro Max_ge) auto
  let ?ok = "\<lambda>t. case j_group_id t of None \<Rightarrow> True
    | Some g \<Rightarrow> coalesce (active_group_counts name rows g) 0 + group_rn nxt t \<le> cap"
  have "length ?G = length (filter (\<lambda>v. ?ok v \<and> j_group_id v = Some g) nxt)"
    by (simp add: group_filtered_def conj_commute)
  also have "\<dots> \<le> length (filter (\<lambda>v. j_group_id v = j_group_id u \<and> j_id v \<le> j_id u) nxt)"
    using top u(1) by (intro length_filter_mono) (auto simp: group_filtered_def)
  finally have "int (length ?G) \<le> group_rn nxt u" by (simp add: group_rn_def)
  moreover have "coalesce (active_group_counts name rows g) 0 + group_rn nxt u \<le> cap"
    using u(1) by (auto simp: group_filtered_def)
  moreover have "coalesce (active_group_counts name rows g) 0 = active_in_group name g rows"
    by (simp add: active_group_counts_def)
  ultimately show ?thesis by simp
qed

text \<open>A claim raises a group's active count by the rows of the group it claims.\<close>

lemma claim_counts:
  assumes "distinct (map job_pk (jobs d))" "plan_of s name n gc snap d = Inr us"
    "claim_jobs s name us d = Inr (d', rows)"
  shows "active_in_group name g (jobs d') = active_in_group name g (jobs d) +
    int (length (filter (\<lambda>j. claim_where name us j \<and> j_group_id j = Some g) (jobs d)))"
proof -
  let ?R = "\<lambda>j j'. \<not> claim_where name us j \<and> j' = j \<or>
    claim_where name us j \<and> claimable s name j \<and> claimed_to s j j'"
  have "list_all2 ?R (jobs d) (jobs d')"
    by (rule list.rel_mono_strong [OF claim_jobs_rows(1) [OF assms(3)]])
       (auto simp: updated_def intro: claimed_rows [OF assms(1,2)] claim_set_Inr split: if_splits)
  then have "length (filter (\<lambda>j. j_name j = name \<and> j_state j = ACTIVE \<and> j_group_id j = Some g) (jobs d')) =
      length (filter (\<lambda>j. j_name j = name \<and> j_state j = ACTIVE \<and> j_group_id j = Some g) (jobs d)) +
      length (filter (\<lambda>j. claim_where name us j \<and> j_group_id j = Some g) (jobs d))"
    by (rule length_filter_all2)
       (auto simp: claimed_to_def claimable_def fetch_where_def dest: same_frame)
  then show ?thesis by (simp add: active_in_group_def)
qed

section \<open>Properties\<close>

text \<open>C1. A successful \<open>fetch_next_job\<close>, on either path and with any snapshot, returns at most
  \<^verbatim>\<open>batch_size\<close> jobs; each is now active in the table, started at this instant, and was a queued,
  due and unlocked job of that queue just before; every other row is exactly as it was.\<close>
theorem fetch_claims:
  assumes "db_ok d" "fetch_next_job_at s name n gc snap d = Inr (d', rows)"
  shows "int (length rows) \<le> n \<and> set rows \<subseteq> set (jobs d') \<and>
    list_all2 (\<lambda>j j'. j' = j \<and> job_pk j \<notin> job_pk ` set rows \<or>
      claimable s name j \<and> claimed_to s j j' \<and> j' \<in> set rows) (jobs d) (jobs d')"
proof -
  from assms(2) obtain us where plan: "plan_of s name n gc snap d = Inr us"
    and claim: "claim_jobs s name us d = Inr (d', rows)"
    by (auto simp: fetch_next_job_at_plan)
  have pks: "distinct (map job_pk (jobs d))" using assms(1) by (simp add: db_ok_def jobs_ok_def)
  have "int (length rows) \<le> n"
    using claim_jobs_length [OF claim] claim_where_length [OF pks, of name us] plan_length [OF plan]
    by simp
  moreover have "set rows \<subseteq> set (jobs d')" using returned_rows(1) [OF claim] by blast
  moreover have "list_all2 (\<lambda>j j'. j' = j \<and> job_pk j \<notin> job_pk ` set rows \<or>
      claimable s name j \<and> claimed_to s j j' \<and> j' \<in> set rows) (jobs d) (jobs d')"
  proof (rule list.rel_mono_strong [OF claim_jobs_rows(1) [OF claim]])
    fix j j' assume j: "j \<in> set (jobs d)"
      and step: "updated (claim_where name us) (claim_set s) j j'"
    show "j' = j \<and> job_pk j \<notin> job_pk ` set rows \<or>
        claimable s name j \<and> claimed_to s j j' \<and> j' \<in> set rows"
    proof (cases "claim_where name us j")
      case True
      with j have "j \<in> set (filter (claim_where name us) (jobs d))" by simp
      from list_all2_in_left [OF claim_jobs_rows(2) [OF claim] this] obtain r
        where "r \<in> set rows" "claim_set s j = Inr r" by blast
      with True step claimed_rows [OF pks plan j True] show ?thesis
        by (auto simp: updated_def intro: claim_set_Inr)
    next
      case False
      have "job_pk j \<noteq> job_pk r" if r: "r \<in> set rows" for r
      proof
        assume eq: "job_pk j = job_pk r"
        from returned_rows(2) [OF claim r] obtain i where i: "i \<in> set (jobs d)"
          "claim_where name us i" "claimed_to s i r" by blast
        then have "job_pk i = job_pk j" using eq by (auto simp: claimed_to_def dest: job_pk_frame)
        with pk_inj [OF pks i(1) j] i(2) False show False by simp
      qed
      with False step show ?thesis by (auto simp: updated_def)
    qed
  qed
  ultimately show ?thesis by simp
qed

definition fetch_sample :: db where
  "fetch_sample = sample_db [sample_queue ''q'' ''standard'']
     [sample_job ''q'' ''standard'' 1 CREATED, sample_job ''q'' ''standard'' 2 RETRY,
      sample_job ''q'' ''standard'' 3 COMPLETED]"

lemma fetch_sample_ok: "db_ok fetch_sample" "ok (fetch_next_job sample_pg ''q'' 1 None fetch_sample)"
  by code_simp+

theorem fetch_claims_witness:
  "\<exists>d' rows. fetch_next_job_at sample_pg ''q'' 1 None fetch_sample fetch_sample = Inr (d', rows) \<and>
     int (length rows) \<le> 1 \<and> set rows \<subseteq> set (jobs d')"
proof -
  from ok_pair [OF fetch_sample_ok(2)] obtain d' rows
    where f: "fetch_next_job_at sample_pg ''q'' 1 None fetch_sample fetch_sample = Inr (d', rows)"
    by (auto simp: fetch_next_job_def)
  from fetch_claims [OF fetch_sample_ok(1) f] f show ?thesis by blast
qed

lemma claimed_row_returned:
  assumes "claim_jobs s name us d = Inr (d', rows)" "j \<in> set (jobs d)" "claim_where name us j"
  shows "job_pk j \<in> job_pk ` set rows"
proof -
  from assms(2,3) have "j \<in> set (filter (claim_where name us) (jobs d))" by simp
  from list_all2_in_left [OF claim_jobs_rows(2) [OF assms(1)] this] obtain r
    where "r \<in> set rows" "claim_set s j = Inr r" by blast
  moreover from this(2) have "job_pk r = job_pk j" by (auto simp: claimed_to_def dest!: claim_set_Inr job_pk_frame)
  ultimately show ?thesis by (metis imageI)
qed

text \<open>C8. Priority order: when a plain \<open>fetch_next_job\<close> runs alone and leaves a claimable job behind,
  its batch is full, and every job it did claim comes strictly before that one in the order
  priority descending, creation time, id.\<close>
theorem fetch_in_priority_order:
  assumes "db_ok d" "fetch_next_job s name n None d = Inr (d', rows)"
    "j \<in> set (jobs d)" "claimable s name j" "job_pk j \<notin> job_pk ` set rows"
  shows "int (length rows) = n \<and> (\<forall>r\<in>set rows. fetch_order r < fetch_order j)"
proof -
  let ?q = "claim_queue s name (jobs d)"
  from assms(2) obtain us where plan: "plan_of s name n None d d = Inr us"
    and claim: "claim_jobs s name us d = Inr (d', rows)"
    by (auto simp: fetch_next_job_def fetch_next_job_at_plan)
  have pks: "distinct (map job_pk (jobs d))" using assms(1) by (simp add: db_ok_def jobs_ok_def)
  note alone = alone_claims [OF pks plan]
  have jq: "j \<in> set ?q" using assms(3,4) by simp
  have unclaimed: "\<not> claim_where name us j"
    using claimed_row_returned [OF claim assms(3)] assms(5) by blast
  have left: "j \<notin> set (take (nat n) ?q)" using alone [OF assms(3)] unclaimed by simp
  then obtain m where m: "nat n \<le> m" "m < length ?q" "?q ! m = j"
    using jq by (metis in_set_conv_nth in_set_takeD linorder_not_less nth_take length_take min_less_iff_conj)
  have sub: "set (take (nat n) ?q) \<subseteq> set (jobs d)" by (auto dest!: in_set_takeD)
  with alone have "set (filter (claim_where name us) (jobs d)) = set (take (nat n) ?q)"
    unfolding set_filter by blast
  moreover have "distinct (filter (claim_where name us) (jobs d))" "distinct (take (nat n) ?q)"
    using distinct_jobs [OF pks] by (simp_all add: claim_queue_distinct)
  ultimately have "length (filter (claim_where name us) (jobs d)) = length (take (nat n) ?q)"
    by (rule same_set_same_length [rotated 2])
  with claim_jobs_length [OF claim] have "length rows = length (take (nat n) ?q)" by simp
  then have full: "int (length rows) = n" using m plan_alone(1) [OF plan] by simp
  have "fetch_order r < fetch_order j" if r: "r \<in> set rows" for r
  proof -
    from returned_rows(2) [OF claim r] obtain i where i: "i \<in> set (jobs d)"
      "claim_where name us i" "claimed_to s i r" by blast
    with alone have "i \<in> set (take (nat n) ?q)" by blast
    then obtain l where l: "l < nat n" "l < length ?q" "?q ! l = i" by (auto simp: in_set_conv_nth)
    with claim_queue_order [of l m s name "jobs d"] m have le: "fetch_order i \<le> fetch_order j" by simp
    have "i \<noteq> j" using i(2) unclaimed by blast
    moreover have "j_name i = j_name j"
      using i(2) assms(4) by (simp add: claim_where_def claimable_def fetch_where_def)
    ultimately have "fetch_order i \<noteq> fetch_order j" by (rule fetch_order_strict [OF pks i(1) assms(3)])
    moreover have "fetch_order r = fetch_order i"
      using i(3) by (auto simp: claimed_to_def fetch_order_def dest: same_frame)
    ultimately show ?thesis using le by simp
  qed
  with full show ?thesis by blast
qed

definition second_job :: job_row where
  "second_job = sample_job ''q'' ''standard'' 2 RETRY"

theorem fetch_in_priority_order_witness:
  "\<exists>d' rows. fetch_next_job sample_pg ''q'' 1 None fetch_sample = Inr (d', rows) \<and>
     length rows = 1 \<and> (\<exists>r\<in>set rows. fetch_order r < fetch_order second_job)"
proof -
  from ok_pair [OF fetch_sample_ok(2)] obtain d' rows
    where f: "fetch_next_job sample_pg ''q'' 1 None fetch_sample = Inr (d', rows)" by blast
  have "case fetch_next_job sample_pg ''q'' 1 None fetch_sample of
      Inl e \<Rightarrow> False | Inr (d', rows) \<Rightarrow> map j_id rows = [1] \<and> job_pk second_job \<notin> job_pk ` set rows"
    by code_simp
  with f have rows: "map j_id rows = [1]" "job_pk second_job \<notin> job_pk ` set rows" by simp_all
  have "second_job \<in> set (jobs fetch_sample)" "claimable sample_pg ''q'' second_job" by code_simp+
  from fetch_in_priority_order [OF fetch_sample_ok(1) f this rows(2)] rows(1) f
  show ?thesis by (cases rows) auto
qed

text \<open>C9. Group concurrency: a \<open>fetch_next_job\<close> with a cap that runs alone never leaves more active
  jobs in any group of the queue than the cap, or than the group already had.\<close>
theorem group_cap_respected:
  assumes "db_ok d" "fetch_next_job s name n (Some cap) d = Inr (d', rows)"
  shows "active_in_group name g (jobs d') \<le> max cap (active_in_group name g (jobs d))"
proof -
  from assms(2) obtain us where plan: "plan_of s name n (Some cap) d d = Inr us"
    and claim: "claim_jobs s name us d = Inr (d', rows)"
    by (auto simp: fetch_next_job_def fetch_next_job_at_plan)
  have pks: "distinct (map job_pk (jobs d))" using assms(1) by (simp add: db_ok_def jobs_ok_def)
  from plan obtain nxt where us: "us = map j_id (group_filtered name cap (jobs d) nxt)"
    and sub: "set nxt \<subseteq> {j \<in> set (jobs d). claimable s name j}"
    and dist: "distinct (jobs d) \<longrightarrow> distinct nxt"
    by (rule group_plan_alone)
  let ?gf = "group_filtered name cap (jobs d) nxt"
  have gf: "set ?gf \<subseteq> set (jobs d)" "\<forall>t\<in>set ?gf. j_name t = name"
    using sub by (auto simp: group_filtered_def claimable_def fetch_where_def)
  have "set (filter (\<lambda>j. claim_where name us j \<and> j_group_id j = Some g) (jobs d)) =
      set (filter (\<lambda>u. j_group_id u = Some g) ?gf)"
    using claim_where_of_rows [OF pks gf] gf(1) us by auto
  moreover have "distinct ?gf" using dist distinct_jobs [OF pks] by (simp add: group_filtered_def)
  ultimately have count: "length (filter (\<lambda>j. claim_where name us j \<and> j_group_id j = Some g) (jobs d)) =
      length (filter (\<lambda>u. j_group_id u = Some g) ?gf)"
    using distinct_jobs [OF pks] by (intro same_set_same_length) simp_all
  show ?thesis
  proof (cases "\<exists>t\<in>set ?gf. j_group_id t = Some g")
    case True
    then obtain t where "t \<in> set ?gf" "j_group_id t = Some g" by blast
    from group_filtered_cap [OF this] claim_counts [OF pks plan claim, of g] count
    show ?thesis by simp
  next
    case False
    then have "filter (\<lambda>u. j_group_id u = Some g) ?gf = []" by (auto simp: filter_empty_conv)
    with claim_counts [OF pks plan claim, of g] count show ?thesis by simp
  qed
qed

definition group_sample :: db where
  "group_sample = sample_db [sample_queue ''q'' ''standard'']
     (map (\<lambda>i. (sample_job ''q'' ''standard'' i CREATED)\<lparr>j_group_id := Some ''g''\<rparr>) [1, 2, 3])"

theorem group_cap_respected_witness:
  "\<exists>d' rows. fetch_next_job sample_pg ''q'' 10 (Some 2) group_sample = Inr (d', rows) \<and>
     length rows = 2 \<and> active_in_group ''q'' ''g'' (jobs d') \<le> 2"
proof -
  have "db_ok group_sample" by code_simp
  have "case fetch_next_job sample_pg ''q'' 10 (Some 2) group_sample of
      Inl e \<Rightarrow> False | Inr (d', rows) \<Rightarrow> length rows = 2" by code_simp
  then obtain d' rows where f: "fetch_next_job sample_pg ''q'' 10 (Some 2) group_sample = Inr (d', rows)"
    and l: "length rows = 2"
    by (cases "fetch_next_job sample_pg ''q'' 10 (Some 2) group_sample") auto
  have "active_in_group ''q'' ''g'' (jobs group_sample) = 0" by code_simp
  with group_cap_respected [OF \<open>db_ok group_sample\<close> f, of "''g''"] f l show ?thesis by auto
qed

text \<open>The cap is not kept by overlapping fetches: two fetches with cap 1 that read the same snapshot
  of a correct table, the second locking its rows after the first has committed, leave two jobs
  of one group active.\<close>
theorem group_cap_race:
  "\<exists>d d1 d2 r1 r2. db_ok d \<and>
     fetch_next_job_at sample_pg ''q'' 10 (Some 1) d d = Inr (d1, r1) \<and>
     fetch_next_job_at sample_pg ''q'' 10 (Some 1) d d1 = Inr (d2, r2) \<and>
     active_in_group ''q'' ''g'' (jobs d) = 0 \<and> active_in_group ''q'' ''g'' (jobs d2) = 2"
proof -
  let ?f = "fetch_next_job_at sample_pg ''q'' 10 (Some 1) group_sample"
  have "case ?f group_sample of Inl e \<Rightarrow> False
    | Inr (d1, r1) \<Rightarrow>
        (case ?f d1 of Inl e \<Rightarrow> False
         | Inr (d2, r2) \<Rightarrow> active_in_group ''q'' ''g'' (jobs d2) = 2)" by code_simp
  then obtain d1 r1 d2 r2 where "?f group_sample = Inr (d1, r1)" "?f d1 = Inr (d2, r2)"
    "active_in_group ''q'' ''g'' (jobs d2) = 2"
    by (auto split: sum.splits)
  moreover have "db_ok group_sample" "active_in_group ''q'' ''g'' (jobs group_sample) = 0" by code_simp+
  ultimately show ?thesis by blast
qed

section \<open>No job is handed out twice\<close>

lemma fetched_rows_active:
  assumes "distinct (map job_pk (jobs d))" "fetch_next_job_at s name n gc snap d = Inr (d', rows)"
  shows "distinct (map job_pk (jobs d'))" "r \<in> set rows \<Longrightarrow> r \<in> set (jobs d') \<and> j_state r = ACTIVE"
    "r \<in> set rows \<Longrightarrow> \<exists>j\<in>set (jobs d). claimable s name j \<and> job_pk j = job_pk r"
proof -
  from assms(2) obtain us where plan: "plan_of s name n gc snap d = Inr us"
    and claim: "claim_jobs s name us d = Inr (d', rows)"
    by (auto simp: fetch_next_job_at_plan)
  from claim.keeps_pks claim [unfolded claim_of_plan [OF assms(1) plan]]
  have "map job_pk (jobs d') = map job_pk (jobs d)" by blast
  with assms(1) show "distinct (map job_pk (jobs d'))" by simp
  show "r \<in> set (jobs d') \<and> j_state r = ACTIVE" if "r \<in> set rows"
    using returned_rows [OF claim that] by (auto simp: claimed_to_def)
  show "\<exists>j\<in>set (jobs d). claimable s name j \<and> job_pk j = job_pk r" if "r \<in> set rows"
    using returned_rows(2) [OF claim that] claimed_rows [OF assms(1) plan]
    by (metis claimed_to_def job_pk_frame)
qed

text \<open>C2. No job is handed out twice: of two fetches of any nodes, one after the other, on whatever paths
  and with whatever snapshots, also when the second began before the first had committed, the
  batches have no job in common.\<close>
theorem no_double_claim:
  assumes "db_ok d" "fetch_next_job_at s name n gc snap d = Inr (d1, rows1)"
    "fetch_next_job_at s' name' n' gc' snap' d1 = Inr (d2, rows2)"
  shows "job_pk ` set rows1 \<inter> job_pk ` set rows2 = {}"
proof -
  have pks: "distinct (map job_pk (jobs d))" using assms(1) by (simp add: db_ok_def jobs_ok_def)
  note first = fetched_rows_active [OF pks assms(2)]
  have False if r: "r1 \<in> set rows1" "r2 \<in> set rows2" "job_pk r1 = job_pk r2" for r1 r2
  proof -
    from fetched_rows_active(3) [OF first(1) assms(3) r(2)] obtain j
      where j: "j \<in> set (jobs d1)" "claimable s' name' j" "job_pk j = job_pk r2" by blast
    with pk_inj [OF first(1) j(1), of r1] first(2) [OF r(1)] r(3) have "j_state j = ACTIVE" by auto
    with j(2) show False by (simp add: claimable_def fetch_where_def)
  qed
  then show ?thesis by (auto simp: image_iff) metis
qed

theorem no_double_claim_witness:
  "\<exists>d1 rows1 d2 rows2. fetch_next_job_at sample_pg ''q'' 1 None fetch_sample fetch_sample = Inr (d1, rows1) \<and>
     fetch_next_job_at sample_pg ''q'' 1 None fetch_sample d1 = Inr (d2, rows2) \<and> rows1 \<noteq> [] \<and>
     job_pk ` set rows1 \<inter> job_pk ` set rows2 = {}"
proof -
  let ?f = "fetch_next_job_at sample_pg ''q'' 1 None fetch_sample"
  have "case ?f fetch_sample of Inl e \<Rightarrow> False | Inr (d1, rows1) \<Rightarrow> rows1 \<noteq> [] \<and> ok (?f d1)" by code_simp
  then obtain d1 rows1 where 1: "?f fetch_sample = Inr (d1, rows1)" "rows1 \<noteq> []" "ok (?f d1)"
    by (auto split: sum.splits)
  from ok_pair [OF 1(3)] obtain d2 rows2 where 2: "?f d1 = Inr (d2, rows2)" by blast
  from no_double_claim [OF fetch_sample_ok(1) 1(1) 2] 1 2 show ?thesis by blast
qed

lemma traverse_ok: "(\<And>x. x \<in> set xs \<Longrightarrow> \<exists>y. f x = Inr y) \<Longrightarrow> \<exists>ys. traverse f xs = Inr ys"
  by (induction xs) fastforce+

end
