(* ===== verification/Schema_Functions.thy ===== *)
theory Schema_Functions
  imports Queue_Sql Fetch_Sql
begin

text \<open>
  What \<^verbatim>\<open>underboss/schema.py\<close> installs beside tables and unique indexes: the two SQL functions
  \<^verbatim>\<open>create_queue\<close> and \<^verbatim>\<open>delete_queue\<close>, whose bodies \<^verbatim>\<open>underboss/sql.py\<close> inlines as client statements, and the
  two partial indexes \<^verbatim>\<open>job_i5\<close> and \<^verbatim>\<open>job_i7\<close>, through which the fetch statement may read the table. The
  inlined statements are proved equal to the functions, the indexed reads to the full ones.
\<close>

section \<open>The functions\<close>

text \<open>The VALUES list, as a row; \<^verbatim>\<open>$1\<close> and \<^verbatim>\<open>$2\<close> are the function's arguments.\<close>

definition udf_queue_values :: "pg \<Rightarrow> string \<Rightarrow> json \<Rightarrow> db_error + string option \<times> queue_row" where
  "udf_queue_values s qname options =
     (let policy = arrow_text s options ''policy'' in
      bindr (cast_int4 (arrow_text s options ''retryLimit'')) (\<lambda>retry_limit.
      bindr (cast_int4 (arrow_text s options ''retryDelay'')) (\<lambda>retry_delay.
      bindr (cast_bool (arrow_text s options ''retryBackoff'')) (\<lambda>retry_backoff.
      bindr (cast_int4 (arrow_text s options ''retryDelayMax'')) (\<lambda>retry_delay_max.
      bindr (cast_int4 (arrow_text s options ''expireInSeconds'')) (\<lambda>expire_seconds.
      bindr (cast_int4 (arrow_text s options ''retentionSeconds'')) (\<lambda>retention_seconds.
      bindr (cast_int4 (arrow_text s options ''deleteAfterSeconds'')) (\<lambda>deletion_seconds.
      bindr (cast_int4 (arrow_text s options ''warningQueueSize'')) (\<lambda>warning_queued.
      bindr (cast_int4 (arrow_text s options ''heartbeatSeconds'')) (\<lambda>heartbeat_seconds.
        Inr (policy, \<lparr>q_name = qname, q_policy = coalesce policy [],
             q_retry_limit = coalesce retry_limit 2, q_retry_delay = coalesce retry_delay 0,
             q_retry_backoff = coalesce retry_backoff False, q_retry_delay_max = retry_delay_max,
             q_expire_seconds = coalesce expire_seconds 900,
             q_retention_seconds = coalesce retention_seconds 1209600,
             q_deletion_seconds = coalesce deletion_seconds 604800,
             q_dead_letter = arrow_text s options ''deadLetter'', q_partition = False,
             q_table_name = ''job'', q_warning_queued = coalesce warning_queued 0,
             q_heartbeat_seconds = heartbeat_seconds,
             q_created_on = pg_now s, q_updated_on = pg_now s\<rparr>)))))))))))"

text \<open>
  An INSERT of one queue row with ON CONFLICT DO NOTHING: the NOT NULL and CHECK constraints come
  first, then the conflict, then the foreign key of the row that went in.
\<close>

definition insert_queue_row :: "string option \<times> queue_row \<Rightarrow> db \<Rightarrow> db_error + db" where
  "insert_queue_row v d =
     (case v of (policy, q) \<Rightarrow>
        if policy = None then Inl NotNullViolation
        else if q_dead_letter q = Some (q_name q) then Inl CheckViolation
        else if queue_exists (q_name q) d then Inr d
        else if \<not> fk_ok (q_dead_letter q) d then Inl ForeignKeyViolation
        else Inr (d\<lparr>queues := queues d @ [q]\<rparr>))"

definition udf_create_queue :: "pg \<Rightarrow> string \<Rightarrow> json \<Rightarrow> db \<Rightarrow> db_error + db" where
  "udf_create_queue s qname options d =
     bindr (udf_queue_values s qname options) (\<lambda>v. insert_queue_row v d)"

text \<open>
  \<^verbatim>\<open>DELETE FROM queue WHERE name = ...\<close> as a statement of its own: any row that still points at the
  queue refuses it, also a job of the queue itself; schedules go with the queue.
\<close>

definition delete_queue_row :: "string \<Rightarrow> db \<Rightarrow> db_error + db" where
  "delete_queue_row name d =
     (if queue_exists name d \<and>
         (\<exists>j\<in>set (jobs d). j_name j = name \<or> j_dead_letter j = Some name) then Inl ForeignKeyViolation
      else if queue_exists name d \<and>
         (\<exists>q\<in>set (queues d). q_name q \<noteq> name \<and> q_dead_letter q = Some name) then Inl ForeignKeyViolation
      else Inr (d\<lparr>queues := filter (\<lambda>q. q_name q \<noteq> name) (queues d),
                  schedules := (if queue_exists name d
                    then filter (\<lambda>r. sch_name r \<noteq> name) (schedules d) else schedules d)\<rparr>))"

text \<open>The two statements of the function's body, in order.\<close>

definition udf_delete_queue :: "string \<Rightarrow> db \<Rightarrow> db_error + db" where
  "udf_delete_queue qname d =
     (let d1 = delete_rows (\<lambda>j. j_name j = qname) d in delete_queue_row qname d1)"

lemma queues_delete_rows [simp]:
  "queues (delete_rows p d) = queues d" "schedules (delete_rows p d) = schedules d"
  "queue_exists n (delete_rows p d) = queue_exists n d"
  by (simp_all add: delete_rows_def queue_exists_def)

text \<open>C33. The client statements are the functions: for every name, options, server and tables \<^verbatim>\<open>create_queue\<close>
  of the client gives what the installed function gives, errors included, and the single
  statement that deletes a queue with its jobs gives what the function's two statements do one
  after the other.\<close>
theorem functions_inlined:
  "create_queue s name o' d = udf_create_queue s name o' d \<and> delete_queue name d = udf_delete_queue name d"
proof
  show "create_queue s name o' d = udf_create_queue s name o' d"
    unfolding create_queue_def udf_create_queue_def queue_row_of_def udf_queue_values_def Let_def bindr_assoc
    by (intro bindr_cong refl) (cases "arrow_text s o' ''policy''"; simp add: insert_queue_row_def)
  have "(\<exists>j\<in>set (jobs (delete_rows (\<lambda>j. j_name j = name) d)). j_name j = name \<or> j_dead_letter j = Some name) \<longleftrightarrow>
      (\<exists>j\<in>set (jobs d). j_name j \<noteq> name \<and> j_dead_letter j = Some name)"
    by (auto simp: delete_rows_def)
  moreover have "\<not> queue_exists name d \<Longrightarrow> filter (\<lambda>q. q_name q \<noteq> name) (queues d) = queues d"
    by (auto simp: queue_exists_def filter_id_conv)
  moreover have "d\<lparr>jobs := js, queues := queues d\<rparr> = d\<lparr>jobs := js\<rparr>" for js by (cases d) simp
  ultimately show "delete_queue name d = udf_delete_queue name d"
    by (cases "queue_exists name d")
       (auto simp: delete_queue_def udf_delete_queue_def delete_queue_row_def referenced_def Let_def delete_rows_def)
qed

section \<open>The partial indexes\<close>

text \<open>The rows each index holds, and the key it sorts them by.\<close>

definition index_job_fetch :: "job_row \<Rightarrow> (string \<times> int) option" where
  "index_job_fetch j = (if j_state j < ACTIVE then Some (j_name j, j_start_after j) else None)"

definition index_job_group_concurrency :: "job_row \<Rightarrow> (string \<times> string) option" where
  "index_job_group_concurrency j =
     (case j_group_id j of
        None \<Rightarrow> None
      | Some g \<Rightarrow> if j_state j = ACTIVE then Some (j_name j, g) else None)"

text \<open>An index scan: the rows with a key in the range.\<close>

definition scan :: "(job_row \<Rightarrow> 'k option) \<Rightarrow> ('k \<Rightarrow> bool) \<Rightarrow> job_row list \<Rightarrow> job_row list" where
  "scan idx inside rows = filter (\<lambda>j. case idx j of None \<Rightarrow> False | Some k \<Rightarrow> inside k) rows"

lemma scan_filter:
  assumes "\<And>j. p j \<Longrightarrow> fetch_where s name j"
  shows "filter p (scan index_job_fetch (\<lambda>(q, t). q = name \<and> t \<le> pg_now s) rows) = filter p rows"
  unfolding scan_def filter_filter
  by (rule filter_cong) (use assms in \<open>auto simp: index_job_fetch_def fetch_where_def\<close>)

text \<open>The partial indexes are complete for the fetch statement: reading the candidate rows of either
  path by a scan of \<^verbatim>\<open>job_i5\<close> up to the present instant selects the same rows as reading the whole
  table, and a scan of \<^verbatim>\<open>job_i7\<close> finds exactly the active jobs of a group.\<close>
theorem index_scans_complete:
  "select_next s (fetch_where s name) n (scan index_job_fetch (\<lambda>(q, t). q = name \<and> t \<le> pg_now s) rows) cur =
     select_next s (fetch_where s name) n rows cur \<and>
   select_next s (group_where s name cap rows) n (scan index_job_fetch (\<lambda>(q, t). q = name \<and> t \<le> pg_now s) rows) cur =
     select_next s (group_where s name cap rows) n rows cur \<and>
   active_in_group name g rows = int (length (scan index_job_group_concurrency (\<lambda>k. k = (name, g)) rows))"
proof -
  have "scan index_job_group_concurrency (\<lambda>k. k = (name, g)) rows =
      filter (\<lambda>j. j_name j = name \<and> j_state j = ACTIVE \<and> j_group_id j = Some g) rows"
    unfolding scan_def by (rule filter_cong) (auto simp: index_job_group_concurrency_def split: option.split)
  then show ?thesis
    unfolding select_next_def active_in_group_def
    by (simp add: scan_filter group_where_fetch)
qed

end
