(* ===== verification/Schema_Ddl.thy ===== *)
theory Schema_Ddl
  imports Job_Schema
begin

text \<open>
  The DDL of \<^verbatim>\<open>underboss/schema.py\<close> as data: column types, NOT NULL, defaults, keys, foreign keys,
  CHECK constraints and indexes, with the SQL expressions they contain and their three-valued
  meaning. \<open>build_schema\<close> lists the statements in the order of the code. The record types and
  predicates of the theory on the tables are then proved to be what this DDL declares: \<open>db_ok\<close>
  holds exactly when every key, reference, check and unique index of the statements does, and
  \<open>job_defaults\<close> is the row the DEFAULT clauses fill in.
\<close>

section \<open>Values and expressions\<close>

datatype sql_type =
    Int_t | Text_t | Bool_t | Jsonb_t | Uuid_t | Timestamptz_t | Timestamp_t | Text_array_t
  | Enum_t string

datatype sql_value =
    VNull
  | VInt int
  | VText string
  | VBool bool
  | VJson json
  | VUuid uuid
  | VTime int
  | VStamp int
  | VState JobState

type_synonym sql_row = "(string \<times> sql_value) list"

definition cell :: "sql_row \<Rightarrow> string \<Rightarrow> sql_value" where
  "cell r c = (case map_of r c of None \<Rightarrow> VNull | Some v \<Rightarrow> v)"

datatype sql_expr =
    Column string
  | Lit sql_value
  | Coalesce sql_expr sql_expr
  | Equals sql_expr sql_expr
  | NotEquals sql_expr sql_expr
  | Less sql_expr sql_expr
  | LessEq sql_expr sql_expr
  | InList sql_expr "sql_value list"
  | IsNull sql_expr
  | IsDistinct sql_expr sql_expr
  | Conj sql_expr sql_expr
  | Negate sql_expr

text \<open>A comparison with NULL is NULL; AND and NOT are Kleene's.\<close>

definition compare3 :: "(sql_value \<Rightarrow> sql_value \<Rightarrow> bool) \<Rightarrow> sql_value \<Rightarrow> sql_value \<Rightarrow> sql_value" where
  "compare3 p a b = (if a = VNull \<or> b = VNull then VNull else VBool (p a b))"

definition and3 :: "sql_value \<Rightarrow> sql_value \<Rightarrow> sql_value" where
  "and3 a b =
     (if a = VBool False \<or> b = VBool False then VBool False
      else if a = VBool True \<and> b = VBool True then VBool True else VNull)"

definition not3 :: "sql_value \<Rightarrow> sql_value" where
  "not3 a = (if a = VBool True then VBool False else if a = VBool False then VBool True else VNull)"

lemma kleene_simps [simp]:
  "and3 (VBool x) (VBool y) = VBool (x \<and> y)" "and3 VNull (VBool y) = (if y then VNull else VBool False)"
  "and3 (VBool x) VNull = (if x then VNull else VBool False)" "and3 VNull VNull = VNull"
  "not3 (VBool x) = VBool (\<not> x)" "not3 VNull = VNull"
  by (simp_all add: and3_def not3_def)

text \<open>The only order the schema's expressions use is that of the enum.\<close>

definition less_value :: "sql_value \<Rightarrow> sql_value \<Rightarrow> bool" where
  "less_value a b = (case a of VState x \<Rightarrow> (case b of VState y \<Rightarrow> x < y | _ \<Rightarrow> False) | _ \<Rightarrow> False)"

lemma less_value_VState [simp]: "less_value (VState x) (VState y) = (x < y)"
  by (simp add: less_value_def)

fun eval_sql :: "sql_row \<Rightarrow> sql_expr \<Rightarrow> sql_value" where
  "eval_sql r (Column c) = cell r c"
| "eval_sql r (Lit v) = v"
| "eval_sql r (Coalesce a b) = (if eval_sql r a = VNull then eval_sql r b else eval_sql r a)"
| "eval_sql r (Equals a b) = compare3 (=) (eval_sql r a) (eval_sql r b)"
| "eval_sql r (NotEquals a b) = compare3 (\<noteq>) (eval_sql r a) (eval_sql r b)"
| "eval_sql r (Less a b) = compare3 less_value (eval_sql r a) (eval_sql r b)"
| "eval_sql r (LessEq a b) =
     compare3 (\<lambda>x y. x = y \<or> less_value x y) (eval_sql r a) (eval_sql r b)"
| "eval_sql r (InList a vs) =
     (if eval_sql r a = VNull then VNull else VBool (eval_sql r a \<in> set vs))"
| "eval_sql r (IsNull a) = VBool (eval_sql r a = VNull)"
| "eval_sql r (IsDistinct a b) = VBool (eval_sql r a \<noteq> eval_sql r b)"
| "eval_sql r (Conj a b) = and3 (eval_sql r a) (eval_sql r b)"
| "eval_sql r (Negate a) = not3 (eval_sql r a)"

fun columns_of :: "sql_expr \<Rightarrow> string list" where
  "columns_of (Column c) = [c]"
| "columns_of (Lit v) = []"
| "columns_of (Coalesce a b) = columns_of a @ columns_of b"
| "columns_of (Equals a b) = columns_of a @ columns_of b"
| "columns_of (NotEquals a b) = columns_of a @ columns_of b"
| "columns_of (Less a b) = columns_of a @ columns_of b"
| "columns_of (LessEq a b) = columns_of a @ columns_of b"
| "columns_of (InList a vs) = columns_of a"
| "columns_of (IsNull a) = columns_of a"
| "columns_of (IsDistinct a b) = columns_of a @ columns_of b"
| "columns_of (Conj a b) = columns_of a @ columns_of b"
| "columns_of (Negate a) = columns_of a"

section \<open>Statements\<close>

datatype sql_default =
    Default_value sql_value
  | Default_now
  | Default_now_plus string
  | Default_uuid

record column =
  col_name :: string
  col_type :: sql_type
  col_not_null :: bool
  col_default :: "sql_default option"

datatype on_delete = NO_ACTION | RESTRICT | CASCADE

text \<open>A foreign key without a column list (\<open>[]\<close>) points at the primary key of its table.\<close>

datatype table_constraint =
    PRIMARY_KEY "string list"
  | FOREIGN_KEY "string list" string "string list" on_delete
  | CHECK sql_expr

definition key_columns :: "table_constraint list \<Rightarrow> string list" where
  "key_columns cons = concat (map (\<lambda>c. case c of PRIMARY_KEY ks \<Rightarrow> ks | _ \<Rightarrow> []) cons)"

datatype index_part = Ascending sql_expr | Descending sql_expr

fun part_expr :: "index_part \<Rightarrow> sql_expr" where
  "part_expr (Ascending e) = e"
| "part_expr (Descending e) = e"

text \<open>What a SQL function's body does to which table, by the columns it names.\<close>

datatype fn_stmt =
    INSERT_INTO string "string list"
  | DELETE_FROM string "string list"
  | SELECT_EXPRESSION

datatype ddl =
    CREATE_SCHEMA
  | CREATE_TYPE string "JobState list"
  | CREATE_TABLE string "column list" "table_constraint list"
  | CREATE_FUNCTION string "(string \<times> sql_type) list" "fn_stmt list"
  | CREATE_INDEX bool string string "index_part list" "string list" "sql_expr option"
  | INSERT_VERSION int

fun object_name :: "ddl \<Rightarrow> string option" where
  "object_name (CREATE_TYPE n vs) = Some n"
| "object_name (CREATE_TABLE n cols cons) = Some n"
| "object_name (CREATE_FUNCTION n args body) = Some n"
| "object_name (CREATE_INDEX u n t parts incl p) = Some n"
| "object_name _ = None"

text \<open>Column declarations in short.\<close>

definition nullable :: "string \<Rightarrow> sql_type \<Rightarrow> column" where
  "nullable n t = \<lparr>col_name = n, col_type = t, col_not_null = False, col_default = None\<rparr>"

definition not_null :: "string \<Rightarrow> sql_type \<Rightarrow> column" where
  "not_null n t = \<lparr>col_name = n, col_type = t, col_not_null = True, col_default = None\<rparr>"

definition defaulting :: "string \<Rightarrow> sql_type \<Rightarrow> sql_default \<Rightarrow> column" where
  "defaulting n t v = \<lparr>col_name = n, col_type = t, col_not_null = True, col_default = Some v\<rparr>"

section \<open>The objects of the schema\<close>

definition SCHEMA_VERSION :: int where
  "SCHEMA_VERSION = 30"

definition DEFAULT_SCHEMA :: string where
  "DEFAULT_SCHEMA = ''underboss''"

definition create_enum_job_state :: ddl where
  "create_enum_job_state = CREATE_TYPE ''job_state'' JOB_STATES"

definition create_table_version :: ddl where
  "create_table_version = CREATE_TABLE ''version''
     [nullable ''version'' Int_t, nullable ''cron_on'' Timestamptz_t, nullable ''bam_on'' Timestamptz_t]
     [PRIMARY_KEY [''version'']]"

definition create_table_queue :: ddl where
  "create_table_queue = CREATE_TABLE ''queue''
     [not_null ''name'' Text_t,
      not_null ''policy'' Text_t,
      not_null ''retry_limit'' Int_t,
      not_null ''retry_delay'' Int_t,
      not_null ''retry_backoff'' Bool_t,
      nullable ''retry_delay_max'' Int_t,
      not_null ''expire_seconds'' Int_t,
      not_null ''retention_seconds'' Int_t,
      not_null ''deletion_seconds'' Int_t,
      nullable ''dead_letter'' Text_t,
      not_null ''partition'' Bool_t,
      not_null ''table_name'' Text_t,
      defaulting ''deferred_count'' Int_t (Default_value (VInt 0)),
      defaulting ''queued_count'' Int_t (Default_value (VInt 0)),
      defaulting ''warning_queued'' Int_t (Default_value (VInt 0)),
      defaulting ''active_count'' Int_t (Default_value (VInt 0)),
      defaulting ''total_count'' Int_t (Default_value (VInt 0)),
      nullable ''heartbeat_seconds'' Int_t,
      nullable ''singletons_active'' Text_array_t,
      nullable ''monitor_on'' Timestamptz_t,
      nullable ''maintain_on'' Timestamptz_t,
      defaulting ''created_on'' Timestamptz_t Default_now,
      defaulting ''updated_on'' Timestamptz_t Default_now]
     [FOREIGN_KEY [''dead_letter''] ''queue'' [''name''] NO_ACTION,
      CHECK (IsDistinct (Column ''dead_letter'') (Column ''name'')),
      PRIMARY_KEY [''name'']]"

definition create_table_schedule :: ddl where
  "create_table_schedule = CREATE_TABLE ''schedule''
     [nullable ''name'' Text_t,
      defaulting ''key'' Text_t (Default_value (VText [])),
      not_null ''cron'' Text_t,
      nullable ''timezone'' Text_t,
      nullable ''data'' Jsonb_t,
      nullable ''options'' Jsonb_t,
      defaulting ''created_on'' Timestamptz_t Default_now,
      defaulting ''updated_on'' Timestamptz_t Default_now]
     [FOREIGN_KEY [''name''] ''queue'' [] CASCADE,
      PRIMARY_KEY [''name'', ''key'']]"

definition create_table_subscription :: ddl where
  "create_table_subscription = CREATE_TABLE ''subscription''
     [not_null ''event'' Text_t,
      not_null ''name'' Text_t,
      defaulting ''created_on'' Timestamptz_t Default_now,
      defaulting ''updated_on'' Timestamptz_t Default_now]
     [FOREIGN_KEY [''name''] ''queue'' [] CASCADE,
      PRIMARY_KEY [''event'', ''name'']]"

definition create_table_bam :: ddl where
  "create_table_bam = CREATE_TABLE ''bam''
     [\<lparr>col_name = ''id'', col_type = Uuid_t, col_not_null = False, col_default = Some Default_uuid\<rparr>,
      not_null ''name'' Text_t,
      not_null ''version'' Int_t,
      defaulting ''status'' Text_t (Default_value (VText ''pending'')),
      nullable ''queue'' Text_t,
      not_null ''table_name'' Text_t,
      not_null ''command'' Text_t,
      nullable ''error'' Text_t,
      defaulting ''created_on'' Timestamptz_t Default_now,
      nullable ''started_on'' Timestamptz_t,
      nullable ''completed_on'' Timestamptz_t]
     [PRIMARY_KEY [''id'']]"

definition job_table_format_function :: ddl where
  "job_table_format_function = CREATE_FUNCTION ''job_table_format''
     [(''command'', Text_t), (''table_name'', Text_t)] [SELECT_EXPRESSION]"

definition job_table_run_async_function :: ddl where
  "job_table_run_async_function = CREATE_FUNCTION ''job_table_run_async''
     [(''command_name'', Text_t), (''version'', Int_t), (''command'', Text_t),
      (''tbl_name'', Text_t), (''queue_name'', Text_t)]
     [INSERT_INTO ''bam'' [''name'', ''version'', ''status'', ''queue'', ''table_name'', ''command'']]"

definition create_table_job :: ddl where
  "create_table_job = CREATE_TABLE ''job''
     [defaulting ''id'' Uuid_t Default_uuid,
      not_null ''name'' Text_t,
      defaulting ''priority'' Int_t (Default_value (VInt 0)),
      nullable ''data'' Jsonb_t,
      defaulting ''state'' (Enum_t ''job_state'') (Default_value (VState CREATED)),
      defaulting ''retry_limit'' Int_t (Default_value (VInt 2)),
      defaulting ''retry_count'' Int_t (Default_value (VInt 0)),
      defaulting ''retry_delay'' Int_t (Default_value (VInt 0)),
      defaulting ''retry_backoff'' Bool_t (Default_value (VBool False)),
      nullable ''retry_delay_max'' Int_t,
      defaulting ''expire_seconds'' Int_t (Default_value (VInt 900)),
      defaulting ''deletion_seconds'' Int_t (Default_value (VInt 604800)),
      nullable ''singleton_key'' Text_t,
      nullable ''singleton_on'' Timestamp_t,
      nullable ''group_id'' Text_t,
      nullable ''group_tier'' Text_t,
      defaulting ''start_after'' Timestamptz_t Default_now,
      defaulting ''created_on'' Timestamptz_t Default_now,
      nullable ''started_on'' Timestamptz_t,
      nullable ''completed_on'' Timestamptz_t,
      defaulting ''keep_until'' Timestamptz_t (Default_now_plus ''1209600''),
      nullable ''output'' Jsonb_t,
      nullable ''dead_letter'' Text_t,
      nullable ''policy'' Text_t,
      nullable ''heartbeat_on'' Timestamptz_t,
      nullable ''heartbeat_seconds'' Int_t]
     [FOREIGN_KEY [''name''] ''queue'' [''name''] RESTRICT,
      FOREIGN_KEY [''dead_letter''] ''queue'' [''name''] RESTRICT,
      CHECK (Negate (Conj (Equals (Column ''policy'') (Lit (VText ''key_strict_fifo'')))
                          (IsNull (Column ''singleton_key'')))),
      PRIMARY_KEY [''name'', ''id'']]"

text \<open>\<^verbatim>\<open>COALESCE(singleton_key, '')\<close> and \<^verbatim>\<open>policy = '...'\<close>.\<close>

definition singleton_part :: index_part where
  "singleton_part = Ascending (Coalesce (Column ''singleton_key'') (Lit (VText [])))"

definition policy_is :: "string \<Rightarrow> sql_expr" where
  "policy_is p = Equals (Column ''policy'') (Lit (VText p))"

definition create_job_i1 :: ddl where
  "create_job_i1 = CREATE_INDEX True ''job_i1'' ''job'' [Ascending (Column ''name''), singleton_part] []
     (Some (Conj (Equals (Column ''state'') (Lit (VState CREATED))) (policy_is ''short'')))"

definition create_job_i2 :: ddl where
  "create_job_i2 = CREATE_INDEX True ''job_i2'' ''job'' [Ascending (Column ''name''), singleton_part] []
     (Some (Conj (Equals (Column ''state'') (Lit (VState ACTIVE))) (policy_is ''singleton'')))"

definition create_job_i3 :: ddl where
  "create_job_i3 = CREATE_INDEX True ''job_i3'' ''job''
     [Ascending (Column ''name''), Ascending (Column ''state''), singleton_part] []
     (Some (Conj (LessEq (Column ''state'') (Lit (VState ACTIVE))) (policy_is ''stately'')))"

definition create_job_i6 :: ddl where
  "create_job_i6 = CREATE_INDEX True ''job_i6'' ''job'' [Ascending (Column ''name''), singleton_part] []
     (Some (Conj (LessEq (Column ''state'') (Lit (VState ACTIVE))) (policy_is ''exclusive'')))"

definition create_job_i8 :: ddl where
  "create_job_i8 = CREATE_INDEX True ''job_i8'' ''job''
     [Ascending (Column ''name''), Ascending (Column ''singleton_key'')] []
     (Some (Conj (InList (Column ''state'') [VState ACTIVE, VState RETRY, VState FAILED])
                 (policy_is ''key_strict_fifo'')))"

definition create_job_i4 :: ddl where
  "create_job_i4 = CREATE_INDEX True ''job_i4'' ''job''
     [Ascending (Column ''name''), Ascending (Column ''singleton_on''), singleton_part] []
     (Some (Conj (NotEquals (Column ''state'') (Lit (VState CANCELLED)))
                 (Negate (IsNull (Column ''singleton_on'')))))"

definition create_job_i5 :: ddl where
  "create_job_i5 = CREATE_INDEX False ''job_i5'' ''job''
     [Ascending (Column ''name''), Ascending (Column ''start_after'')] [''priority'', ''created_on'']
     (Some (Less (Column ''state'') (Lit (VState ACTIVE))))"

definition create_job_i7 :: ddl where
  "create_job_i7 = CREATE_INDEX False ''job_i7'' ''job''
     [Ascending (Column ''name''), Ascending (Column ''group_id'')] []
     (Some (Conj (Equals (Column ''state'') (Lit (VState ACTIVE)))
                 (Negate (IsNull (Column ''group_id'')))))"

definition create_table_warning :: ddl where
  "create_table_warning = CREATE_TABLE ''warning''
     [\<lparr>col_name = ''id'', col_type = Uuid_t, col_not_null = False, col_default = Some Default_uuid\<rparr>,
      not_null ''type'' Text_t,
      not_null ''message'' Text_t,
      nullable ''data'' Jsonb_t,
      defaulting ''created_on'' Timestamptz_t Default_now]
     [PRIMARY_KEY [''id'']]"

definition index_warning :: ddl where
  "index_warning = CREATE_INDEX False ''warning_i1'' ''warning'' [Descending (Column ''created_on'')] [] None"

definition create_queue_function :: ddl where
  "create_queue_function = CREATE_FUNCTION ''create_queue''
     [(''queue_name'', Text_t), (''options'', Jsonb_t)]
     [INSERT_INTO ''queue''
        [''name'', ''policy'', ''retry_limit'', ''retry_delay'', ''retry_backoff'', ''retry_delay_max'',
         ''expire_seconds'', ''retention_seconds'', ''deletion_seconds'', ''warning_queued'',
         ''dead_letter'', ''partition'', ''table_name'', ''heartbeat_seconds'']]"

definition delete_queue_function :: ddl where
  "delete_queue_function = CREATE_FUNCTION ''delete_queue'' [(''queue_name'', Text_t)]
     [DELETE_FROM ''job'' [''name''], DELETE_FROM ''queue'' [''name'']]"

definition insert_version :: "int \<Rightarrow> ddl" where
  "insert_version version = INSERT_VERSION version"

definition build_schema :: "int \<Rightarrow> bool \<Rightarrow> ddl list" where
  "build_schema version create_namespace =
     (if create_namespace then [CREATE_SCHEMA] else []) @
     [create_enum_job_state,
      create_table_version,
      create_table_queue,
      create_table_schedule,
      create_table_subscription,
      create_table_bam,
      job_table_format_function,
      job_table_run_async_function,
      create_table_job,
      create_job_i1,
      create_job_i2,
      create_job_i3,
      create_job_i6,
      create_job_i8,
      create_job_i4,
      create_job_i5,
      create_job_i7,
      create_table_warning,
      index_warning,
      create_queue_function,
      delete_queue_function,
      insert_version version]"

lemmas column_defs = nullable_def not_null_def defaulting_def

lemmas table_defs = create_table_version_def create_table_queue_def create_table_schedule_def
  create_table_subscription_def create_table_bam_def create_table_job_def create_table_warning_def

lemmas index_ddl_defs = create_job_i1_def create_job_i2_def create_job_i3_def create_job_i6_def
  create_job_i8_def create_job_i4_def create_job_i5_def create_job_i7_def index_warning_def
  singleton_part_def policy_is_def

lemmas function_ddl_defs = job_table_format_function_def job_table_run_async_function_def
  create_queue_function_def delete_queue_function_def

lemmas ddl_defs = create_enum_job_state_def table_defs index_ddl_defs function_ddl_defs insert_version_def

end
