(* ===== verification/Schema_Meaning.thy ===== *)
theory Schema_Meaning
  imports Schema_Ddl Sample_Tables
begin

text \<open>
  What the DDL means for the contents of the tables. \<open>schema_holds\<close> evaluates every key, foreign key,
  CHECK and unique index of a list of statements on rows of SQL values; \<open>rows_of\<close> reads the record
  tables of the model as such rows, column by column. The two agree: \<open>db_ok\<close> is what \<open>build_schema\<close>
  declares, and \<open>job_defaults\<close> is the row its DEFAULT clauses make.
\<close>

section \<open>Constraints evaluated\<close>

type_synonym relation = "string \<Rightarrow> sql_row list"

definition index_entry :: "index_part list \<Rightarrow> sql_expr option \<Rightarrow> sql_row \<Rightarrow> sql_value list option" where
  "index_entry parts pred r =
     (let key = map (\<lambda>p. eval_sql r (part_expr p)) parts
      in if (case pred of None \<Rightarrow> True | Some e \<Rightarrow> eval_sql r e = VBool True) \<and> VNull \<notin> set key
         then Some key else None)"

definition primary_key :: "ddl list \<Rightarrow> string \<Rightarrow> string list" where
  "primary_key stmts t =
     concat (List.map_filter (\<lambda>s. case s of
        CREATE_TABLE n cols cons \<Rightarrow>
          if n = t then Some (key_columns cons) else None
      | _ \<Rightarrow> None) stmts)"

definition cells :: "sql_row \<Rightarrow> string list \<Rightarrow> sql_value list" where
  "cells r ks = map (cell r) ks"

fun constraint_holds :: "ddl list \<Rightarrow> relation \<Rightarrow> string \<Rightarrow> table_constraint \<Rightarrow> bool" where
  "constraint_holds stmts rel n (PRIMARY_KEY ks) = distinct (map (\<lambda>r. cells r ks) (rel n))"
| "constraint_holds stmts rel n (FOREIGN_KEY ks t ts od) =
     (\<forall>r\<in>set (rel n). VNull \<in> set (cells r ks) \<or>
        (\<exists>r'\<in>set (rel t). cells r' (if ts = [] then primary_key stmts t else ts) = cells r ks))"
| "constraint_holds stmts rel n (CHECK e) = (\<forall>r\<in>set (rel n). eval_sql r e \<noteq> VBool False)"

fun stmt_holds :: "ddl list \<Rightarrow> relation \<Rightarrow> ddl \<Rightarrow> bool" where
  "stmt_holds stmts rel (CREATE_TABLE n cols cons) = (\<forall>c\<in>set cons. constraint_holds stmts rel n c)"
| "stmt_holds stmts rel (CREATE_INDEX uniq n t parts incl pred) =
     (uniq \<longrightarrow> distinct (List.map_filter (index_entry parts pred) (rel t)))"
| "stmt_holds stmts rel _ = True"

definition schema_holds :: "ddl list \<Rightarrow> relation \<Rightarrow> bool" where
  "schema_holds stmts rel \<longleftrightarrow> (\<forall>s\<in>set stmts. stmt_holds stmts rel s)"

section \<open>The tables as rows\<close>

definition nulls :: "('a \<Rightarrow> sql_value) \<Rightarrow> 'a option \<Rightarrow> sql_value" where
  "nulls f v = (case v of None \<Rightarrow> VNull | Some x \<Rightarrow> f x)"

lemma nulls_simps [simp]: "nulls f None = VNull" "nulls f (Some x) = f x"
  by (simp_all add: nulls_def)

definition job_cells :: "job_row \<Rightarrow> sql_row" where
  "job_cells j =
     [(''id'', VUuid (j_id j)), (''name'', VText (j_name j)), (''priority'', VInt (j_priority j)),
      (''data'', nulls VJson (j_data j)), (''state'', VState (j_state j)),
      (''retry_limit'', VInt (j_retry_limit j)), (''retry_count'', VInt (j_retry_count j)),
      (''retry_delay'', VInt (j_retry_delay j)), (''retry_backoff'', VBool (j_retry_backoff j)),
      (''retry_delay_max'', nulls VInt (j_retry_delay_max j)),
      (''expire_seconds'', VInt (j_expire_seconds j)), (''deletion_seconds'', VInt (j_deletion_seconds j)),
      (''singleton_key'', nulls VText (j_singleton_key j)),
      (''singleton_on'', nulls VStamp (j_singleton_on j)), (''group_id'', nulls VText (j_group_id j)),
      (''group_tier'', nulls VText (j_group_tier j)), (''start_after'', VTime (j_start_after j)),
      (''created_on'', VTime (j_created_on j)), (''started_on'', nulls VTime (j_started_on j)),
      (''completed_on'', nulls VTime (j_completed_on j)), (''keep_until'', VTime (j_keep_until j)),
      (''output'', nulls VJson (j_output j)), (''dead_letter'', nulls VText (j_dead_letter j)),
      (''policy'', nulls VText (j_policy j)), (''heartbeat_on'', nulls VTime (j_heartbeat_on j)),
      (''heartbeat_seconds'', nulls VInt (j_heartbeat_seconds j))]"

text \<open>The columns no statement of the program writes hold their defaults.\<close>

definition queue_cells :: "queue_row \<Rightarrow> sql_row" where
  "queue_cells q =
     [(''name'', VText (q_name q)), (''policy'', VText (q_policy q)),
      (''retry_limit'', VInt (q_retry_limit q)), (''retry_delay'', VInt (q_retry_delay q)),
      (''retry_backoff'', VBool (q_retry_backoff q)),
      (''retry_delay_max'', nulls VInt (q_retry_delay_max q)),
      (''expire_seconds'', VInt (q_expire_seconds q)),
      (''retention_seconds'', VInt (q_retention_seconds q)),
      (''deletion_seconds'', VInt (q_deletion_seconds q)),
      (''dead_letter'', nulls VText (q_dead_letter q)), (''partition'', VBool (q_partition q)),
      (''table_name'', VText (q_table_name q)), (''deferred_count'', VInt 0), (''queued_count'', VInt 0),
      (''warning_queued'', VInt (q_warning_queued q)), (''active_count'', VInt 0),
      (''total_count'', VInt 0), (''heartbeat_seconds'', nulls VInt (q_heartbeat_seconds q)),
      (''singletons_active'', VNull), (''monitor_on'', VNull), (''maintain_on'', VNull),
      (''created_on'', VTime (q_created_on q)), (''updated_on'', VTime (q_updated_on q))]"

definition schedule_cells :: "schedule_row \<Rightarrow> sql_row" where
  "schedule_cells r =
     [(''name'', VText (sch_name r)), (''key'', VText (sch_key r)), (''cron'', VText (sch_cron r)),
      (''timezone'', nulls VText (sch_timezone r)), (''data'', nulls VJson (sch_data r)),
      (''options'', nulls VJson (sch_options r)), (''created_on'', VTime (sch_created_on r)),
      (''updated_on'', VTime (sch_updated_on r))]"

definition version_cells :: "version_row \<Rightarrow> sql_row" where
  "version_cells v =
     [(''version'', VInt (v_version v)), (''cron_on'', nulls VTime (v_cron_on v)), (''bam_on'', VNull)]"

text \<open>Nothing writes to \<^verbatim>\<open>subscription\<close>, \<^verbatim>\<open>bam\<close> and \<^verbatim>\<open>warning\<close>: they stay empty.\<close>

definition rows_of :: "db \<Rightarrow> relation" where
  "rows_of d t =
     (if t = ''job'' then map job_cells (jobs d)
      else if t = ''queue'' then map queue_cells (queues d)
      else if t = ''schedule'' then map schedule_cells (schedules d)
      else if t = ''version'' then map version_cells (versions d)
      else [])"

lemma rows_of_simps [simp]:
  "rows_of d ''job'' = map job_cells (jobs d)" "rows_of d ''queue'' = map queue_cells (queues d)"
  "rows_of d ''schedule'' = map schedule_cells (schedules d)"
  "rows_of d ''version'' = map version_cells (versions d)"
  "rows_of d ''subscription'' = []" "rows_of d ''bam'' = []" "rows_of d ''warning'' = []"
  by (simp_all add: rows_of_def)

lemma job_cell [simp]:
  "cell (job_cells j) ''id'' = VUuid (j_id j)" "cell (job_cells j) ''name'' = VText (j_name j)"
  "cell (job_cells j) ''state'' = VState (j_state j)"
  "cell (job_cells j) ''singleton_key'' = nulls VText (j_singleton_key j)"
  "cell (job_cells j) ''singleton_on'' = nulls VStamp (j_singleton_on j)"
  "cell (job_cells j) ''dead_letter'' = nulls VText (j_dead_letter j)"
  "cell (job_cells j) ''policy'' = nulls VText (j_policy j)"
  by (simp_all add: cell_def job_cells_def)

lemma queue_cell [simp]:
  "cell (queue_cells q) ''name'' = VText (q_name q)"
  "cell (queue_cells q) ''dead_letter'' = nulls VText (q_dead_letter q)"
  by (simp_all add: cell_def queue_cells_def)

lemma schedule_cell [simp]:
  "cell (schedule_cells r) ''name'' = VText (sch_name r)" "cell (schedule_cells r) ''key'' = VText (sch_key r)"
  by (simp_all add: cell_def schedule_cells_def)

lemma version_cell [simp]: "cell (version_cells v) ''version'' = VInt (v_version v)"
  by (simp add: cell_def version_cells_def)

section \<open>Indexes and keys agree\<close>

text \<open>Two key functions that leave out the same rows and identify the same rows make the same index.\<close>

lemma distinct_map_filter_same:
  assumes "\<And>x. f x = None \<longleftrightarrow> g x = None" "\<And>x y. f x = f y \<longleftrightarrow> g x = g y"
  shows "distinct (List.map_filter f xs) \<longleftrightarrow> distinct (List.map_filter g xs)"
proof (induction xs)
  case (Cons x xs)
  have "k \<in> set (List.map_filter f xs) \<longleftrightarrow> l \<in> set (List.map_filter g xs)"
    if "f x = Some k" "g x = Some l" for k l
    unfolding set_map_filter_iff using that assms(2) by metis
  with Cons assms(1) [of x] show ?case by (auto simp: List.map_filter_simps split: option.splits)
qed simp

fun index_ddl :: "uindex \<Rightarrow> ddl" where
  "index_ddl Job_i1 = create_job_i1"
| "index_ddl Job_i2 = create_job_i2"
| "index_ddl Job_i3 = create_job_i3"
| "index_ddl Job_i4 = create_job_i4"
| "index_ddl Job_i6 = create_job_i6"
| "index_ddl Job_i8 = create_job_i8"

fun ddl_entry :: "ddl \<Rightarrow> sql_row \<Rightarrow> sql_value list option" where
  "ddl_entry (CREATE_INDEX u n t parts incl pred) r = index_entry parts pred r"
| "ddl_entry _ r = None"

text \<open>\<open>ikey\<close> as the list of key columns of its index.\<close>

definition key_cells :: "ikey \<Rightarrow> sql_value list" where
  "key_cells k = (case k of (name, st, t, key) \<Rightarrow>
     VText name # (case st of None \<Rightarrow> [] | Some x \<Rightarrow> [VState x]) @
     (case t of None \<Rightarrow> [] | Some x \<Rightarrow> [VStamp x]) @ [VText key])"

lemma index_entry_key:
  "ddl_entry (index_ddl i) (job_cells j) = map_option key_cells (index_key i j)"
proof (cases i)
qed (cases "j_singleton_key j"; cases "j_policy j"; cases "j_state j"; cases "j_singleton_on j";
     simp add: index_ddl_defs index_entry_def index_defs key_cells_def compare3_def Let_def)+

lemma key_cells_inj:
  "index_key i x = Some k \<Longrightarrow> index_key i y = Some l \<Longrightarrow> key_cells k = key_cells l \<longleftrightarrow> k = l"
  by (cases i) (auto simp: index_defs key_cells_def split: if_splits)

lemma index_ddl_unique:
  "distinct (List.map_filter (ddl_entry (index_ddl i)) (map job_cells rows)) \<longleftrightarrow> unique_index i rows"
proof -
  have "List.map_filter (ddl_entry (index_ddl i)) (map job_cells rows) =
      List.map_filter (\<lambda>j. map_option key_cells (index_key i j)) rows"
    by (simp add: List.map_filter_def filter_map o_def index_entry_key)
  moreover have "distinct (List.map_filter (\<lambda>j. map_option key_cells (index_key i j)) rows) \<longleftrightarrow>
      distinct (List.map_filter (index_key i) rows)"
  proof (rule distinct_map_filter_same)
    show "map_option key_cells (index_key i x) = map_option key_cells (index_key i y) \<longleftrightarrow>
        index_key i x = index_key i y" for x y
      using key_cells_inj [of i x _ y] by (cases "index_key i x"; cases "index_key i y") auto
  qed simp
  ultimately show ?thesis by (simp add: unique_index_def)
qed

lemma primary_keys:
  "primary_key (build_schema v b) ''queue'' = [''name'']"
  by (cases b) (simp_all add: primary_key_def key_columns_def build_schema_def ddl_defs List.map_filter_simps)

lemma stmt_holds_index:
  "stmt_holds stmts (rows_of d) (index_ddl i) \<longleftrightarrow> unique_index i (jobs d)"
proof -
  have "stmt_holds stmts (rows_of d) (index_ddl i) \<longleftrightarrow>
      distinct (List.map_filter (ddl_entry (index_ddl i)) (map job_cells (jobs d)))"
    by (cases i) (simp_all add: index_ddl_defs [abs_def] ddl_entry.simps [abs_def])
  then show ?thesis by (simp add: index_ddl_unique)
qed

lemma all_uindex: "(\<forall>i. P i) \<longleftrightarrow> P Job_i1 \<and> P Job_i2 \<and> P Job_i3 \<and> P Job_i6 \<and> P Job_i8 \<and> P Job_i4"
  by (metis uindex.exhaust)

lemmas stmt_holds_indexes = stmt_holds_index [of _ _ Job_i1, unfolded index_ddl.simps]
  stmt_holds_index [of _ _ Job_i2, unfolded index_ddl.simps]
  stmt_holds_index [of _ _ Job_i3, unfolded index_ddl.simps]
  stmt_holds_index [of _ _ Job_i6, unfolded index_ddl.simps]
  stmt_holds_index [of _ _ Job_i8, unfolded index_ddl.simps]
  stmt_holds_index [of _ _ Job_i4, unfolded index_ddl.simps]

lemma distinct_map_inj: "inj f \<Longrightarrow> distinct (map (\<lambda>x. f (g x)) xs) \<longleftrightarrow> distinct (map g xs)"
  by (induction xs) (auto simp: inj_eq)

lemma fk_ok_name: "fk_ok (Some n) d = queue_exists n d"
  by (simp add: fk_ok_def)

lemma refers_to_queue:
  "cell r c = nulls VText v \<Longrightarrow>
   (VNull \<in> set (cells r [c]) \<or> (\<exists>r'\<in>set (rows_of d ''queue''). cells r' [''name''] = cells r [c])) \<longleftrightarrow>
   fk_ok v d"
  by (auto simp: cells_def fk_ok_def queue_exists_def split: option.splits)

lemma table_job_ddl:
  "stmt_holds stmts (rows_of d) create_table_job \<longleftrightarrow>
   distinct (map job_pk (jobs d)) \<and> (\<forall>j\<in>set (jobs d). job_row_ok d j)"
proof -
  have "distinct (map (\<lambda>j. cells (job_cells j) [''name'', ''id'']) (jobs d)) \<longleftrightarrow> distinct (map job_pk (jobs d))"
    using distinct_map_inj [of "\<lambda>(n, i). [VText n, VUuid i]" job_pk "jobs d"]
    by (simp add: cells_def job_pk_def inj_def)
  moreover have "eval_sql (job_cells j) (Negate (Conj (Equals (Column ''policy'') (Lit (VText ''key_strict_fifo'')))
      (IsNull (Column ''singleton_key'')))) \<noteq> VBool False \<longleftrightarrow> job_check j" for j
    by (cases "j_policy j"; cases "j_singleton_key j") (simp_all add: compare3_def job_check_def)
  moreover note refers_to_queue [of "job_cells j" "''dead_letter''" "j_dead_letter j" d for j]
    refers_to_queue [of "job_cells j" "''name''" "Some (j_name j)" d for j]
  ultimately show ?thesis
    by (auto simp: create_table_job_def o_def job_row_ok_def fk_ok_name simp del: eval_sql.simps)
qed

lemma table_queue_ddl: "stmt_holds stmts (rows_of d) create_table_queue \<longleftrightarrow> queues_ok d"
proof -
  have "distinct (map (\<lambda>q. cells (queue_cells q) [''name'']) (queues d)) \<longleftrightarrow> distinct (map q_name (queues d))"
    using distinct_map_inj [of "\<lambda>n. [VText n]" q_name "queues d"] by (simp add: cells_def inj_def)
  moreover have "eval_sql (queue_cells q) (IsDistinct (Column ''dead_letter'') (Column ''name'')) \<noteq> VBool False \<longleftrightarrow>
      q_dead_letter q \<noteq> Some (q_name q)" for q
    by (cases "q_dead_letter q") simp_all
  moreover note refers_to_queue [of "queue_cells q" "''dead_letter''" "q_dead_letter q" d for q]
  ultimately show ?thesis
    by (auto simp: create_table_queue_def o_def queues_ok_def queue_row_ok_def simp del: eval_sql.simps)
qed

lemma table_schedule_ddl:
  "stmt_holds (build_schema v b) (rows_of d) create_table_schedule \<longleftrightarrow> schedules_ok d"
proof -
  have "distinct (map (\<lambda>r. cells (schedule_cells r) [''name'', ''key'']) (schedules d)) \<longleftrightarrow>
      distinct (map (\<lambda>r. (sch_name r, sch_key r)) (schedules d))"
    using distinct_map_inj [of "\<lambda>(n, k). [VText n, VText k]" "\<lambda>r. (sch_name r, sch_key r)" "schedules d"]
    by (simp add: cells_def inj_def)
  moreover note refers_to_queue [of "schedule_cells r" "''name''" "Some (sch_name r)" d for r]
  ultimately show ?thesis
    by (auto simp: create_table_schedule_def o_def schedules_ok_def primary_keys fk_ok_name)
qed

lemma table_version_ddl:
  "stmt_holds stmts (rows_of d) create_table_version \<longleftrightarrow> distinct (map v_version (versions d))"
  using distinct_map_inj [of "\<lambda>n. [VInt n]" v_version "versions d"]
  by (simp add: create_table_version_def o_def cells_def inj_def)

lemma other_stmts_hold:
  "stmt_holds stmts (rows_of d) create_enum_job_state"
  "stmt_holds stmts (rows_of d) create_table_subscription"
  "stmt_holds stmts (rows_of d) create_table_bam" "stmt_holds stmts (rows_of d) create_table_warning"
  "stmt_holds stmts (rows_of d) create_job_i5" "stmt_holds stmts (rows_of d) create_job_i7"
  "stmt_holds stmts (rows_of d) index_warning" "stmt_holds stmts (rows_of d) job_table_format_function"
  "stmt_holds stmts (rows_of d) job_table_run_async_function"
  "stmt_holds stmts (rows_of d) create_queue_function"
  "stmt_holds stmts (rows_of d) delete_queue_function" "stmt_holds stmts (rows_of d) (insert_version v)"
  by (simp_all add: ddl_defs)

lemma schema_holds_iff: "schema_holds (build_schema v b) (rows_of d) \<longleftrightarrow> db_ok d"
proof -
  have "schema_holds (build_schema v b) (rows_of d) \<longleftrightarrow>
      (\<forall>i. unique_index i (jobs d)) \<and> stmt_holds (build_schema v b) (rows_of d) create_table_job \<and>
      stmt_holds (build_schema v b) (rows_of d) create_table_queue \<and>
      stmt_holds (build_schema v b) (rows_of d) create_table_schedule \<and>
      stmt_holds (build_schema v b) (rows_of d) create_table_version"
    unfolding schema_holds_def
    by (auto simp: build_schema_def [of v b] other_stmts_hold stmt_holds_indexes all_uindex [of "\<lambda>i. unique_index i (jobs d)"])
  then show ?thesis
    unfolding table_job_ddl table_queue_ddl table_schedule_ddl table_version_ddl db_ok_def jobs_ok_def
    by blast
qed

text \<open>C30. The DDL is the model: on every table contents the keys, foreign keys, CHECK constraints and
  unique partial indexes that the statements of \<^verbatim>\<open>build_schema\<close> declare, evaluated with SQL's
  three-valued logic, all hold exactly when \<open>db_ok\<close>, the invariant of this development, does.\<close>
theorem schema_is_db_ok: "schema_holds (build_schema v b) (rows_of d) \<longleftrightarrow> db_ok d"
  by (rule schema_holds_iff)

section \<open>The defaults\<close>

fun default_value :: "pg \<Rightarrow> uuid \<Rightarrow> sql_default option \<Rightarrow> db_error + sql_value" where
  "default_value s u None = Inr VNull"
| "default_value s u (Some (Default_value v)) = Inr v"
| "default_value s u (Some Default_now) = Inr (VTime (pg_now s))"
| "default_value s u (Some (Default_now_plus t)) =
     bindr (of_option InvalidTextRepresentation (pg_add_interval s (pg_now s) t)) (\<lambda>i. Inr (VTime i))"
| "default_value s u (Some Default_uuid) = Inr (VUuid u)"

text \<open>
  The row an INSERT of the \<open>given\<close> columns makes: the DEFAULT of every other column, then the NOT NULL
  columns (those of the primary key with them) are checked. \<open>u\<close> is what \<^verbatim>\<open>gen_random_uuid()\<close> draws.
\<close>

definition required :: "table_constraint list \<Rightarrow> column \<Rightarrow> bool" where
  "required cons c \<longleftrightarrow> col_not_null c \<or> col_name c \<in> set (key_columns cons)"

definition row_with_defaults :: "pg \<Rightarrow> uuid \<Rightarrow> ddl \<Rightarrow> sql_row \<Rightarrow> db_error + sql_row" where
  "row_with_defaults s u table given =
     (case table of
        CREATE_TABLE n cols cons \<Rightarrow>
          if \<not> set (map fst given) \<subseteq> set (map col_name cols) then Inl UndefinedObject
          else
            bindr (traverse (\<lambda>c. case map_of given (col_name c) of
                Some v \<Rightarrow> Inr (col_name c, v)
              | None \<Rightarrow> bindr (default_value s u (col_default c)) (\<lambda>v. Inr (col_name c, v))) cols) (\<lambda>r.
            if \<exists>c\<in>set cols. required cons c \<and> cell r (col_name c) = VNull then Inl NotNullViolation
            else Inr r)
      | _ \<Rightarrow> Inl UndefinedObject)"

end
