(* ===== verification/Settle_Sql.thy ===== *)
theory Settle_Sql
  imports Job_Updates Sample_Tables
begin

text \<open>
  The statements of \<^verbatim>\<open>underboss/sql.py\<close> that move jobs which are already in the table: complete, fail
  (by id and by expired lease), cancel, resume, retry, the two deletes, and the look-up by id.
  Each has its WHERE clause, its SET clause and the statement built from them. Assignments read
  the old row, as in SQL; a comparison with NULL is not true.
\<close>

definition id_in :: "string \<Rightarrow> uuid list \<Rightarrow> job_row \<Rightarrow> bool" where
  "id_in name us j \<longleftrightarrow> j_name j = name \<and> j_id j \<in> set us"

section \<open>Completing\<close>

definition complete_where :: "string \<Rightarrow> uuid list \<Rightarrow> job_row \<Rightarrow> bool" where
  "complete_where name us j \<longleftrightarrow> id_in name us j \<and> j_state j = ACTIVE"

definition complete_set :: "pg \<Rightarrow> json option \<Rightarrow> job_row \<Rightarrow> job_row" where
  "complete_set s output j =
     j\<lparr>j_completed_on := Some (pg_now s), j_state := COMPLETED, j_output := output\<rparr>"

definition complete_jobs ::
  "pg \<Rightarrow> string \<Rightarrow> string list \<Rightarrow> json option \<Rightarrow> db \<Rightarrow> db_error + db \<times> job_row list" where
  "complete_jobs s name ids output d =
     bindr (cast_ids s ids) (\<lambda>us.
       update_jobs (complete_where name us) (\<lambda>j. Inr (complete_set s output j)) d)"

section \<open>Failing: retry with backoff, or fail\<close>

text \<open>A float8 to int8 cast rounds to the nearest integer, ties to even.\<close>

definition rint :: "rat \<Rightarrow> int" where
  "rint x =
     (let f = \<lfloor>x\<rfloor>; r = x - of_int f
      in if r < 1 / 2 then f else if 1 / 2 < r then f + 1 else if even f then f else f + 1)"

text \<open>
  The exponential backoff in seconds: half of \<^verbatim>\<open>power(2, LEAST(16, retry_count + 1))\<close> plus a random
  part of the other half, times the delay, capped by \<^verbatim>\<open>retry_delay_max\<close> (a NULL cap is infinite).
  Rational arithmetic stands for the server's float8 arithmetic.
\<close>

definition backoff_base :: "job_row \<Rightarrow> rat" where
  "backoff_base j = 2 powi (min 16 (j_retry_count j + 1))"

definition backoff_seconds :: "rat \<Rightarrow> job_row \<Rightarrow> int" where
  "backoff_seconds rnd j =
     (let raw = of_int (j_retry_delay j) * (backoff_base j / 2 + backoff_base j / 2 * rnd)
      in rint (case j_retry_delay_max j of None \<Rightarrow> raw | Some m \<Rightarrow> min (of_int m) raw))"

definition retry_or_fail_set :: "pg \<Rightarrow> json option \<Rightarrow> job_row \<Rightarrow> job_row" where
  "retry_or_fail_set s output j =
     j\<lparr>j_state := (if j_retry_count j < j_retry_limit j then RETRY else FAILED),
       j_start_after :=
         (if j_retry_limit j \<le> j_retry_count j then j_start_after j
          else if \<not> j_retry_backoff j then pg_now s + j_retry_delay j * second
          else pg_now s + backoff_seconds (pg_random s (job_pk j)) j * second),
       j_completed_on :=
         (if j_retry_count j < j_retry_limit j then None else Some (pg_now s)),
       j_output := output,
       j_heartbeat_on := None\<rparr>"

definition fail_where :: "string \<Rightarrow> uuid list \<Rightarrow> job_row \<Rightarrow> bool" where
  "fail_where name us j \<longleftrightarrow> id_in name us j \<and> j_state j = ACTIVE"

definition fail_jobs ::
  "pg \<Rightarrow> string \<Rightarrow> string list \<Rightarrow> json option \<Rightarrow> db \<Rightarrow> db_error + db \<times> job_row list" where
  "fail_jobs s name ids output d =
     bindr (cast_ids s ids) (\<lambda>us.
       update_jobs (fail_where name us) (\<lambda>j. Inr (retry_or_fail_set s output j)) d)"

definition expired_where :: "pg \<Rightarrow> job_row \<Rightarrow> bool" where
  "expired_where s j \<longleftrightarrow>
     j_state j = ACTIVE \<and>
     (case j_started_on j of
        None \<Rightarrow> False
      | Some t \<Rightarrow> t + j_expire_seconds j * second < pg_now s)"

definition timed_out :: json where
  "timed_out = JObj [(''message'', JStr ''job timed out'')]"

definition fail_expired_jobs :: "pg \<Rightarrow> db \<Rightarrow> db_error + db \<times> job_row list" where
  "fail_expired_jobs s d =
     update_jobs (expired_where s) (\<lambda>j. Inr (retry_or_fail_set s (Some timed_out) j)) d"

section \<open>Cancelling, resuming, retrying\<close>

definition cancel_where :: "string \<Rightarrow> uuid list \<Rightarrow> job_row \<Rightarrow> bool" where
  "cancel_where name us j \<longleftrightarrow> id_in name us j \<and> j_state j < COMPLETED"

definition cancel_set :: "pg \<Rightarrow> job_row \<Rightarrow> job_row" where
  "cancel_set s j = j\<lparr>j_completed_on := Some (pg_now s), j_state := CANCELLED\<rparr>"

definition cancel_jobs :: "pg \<Rightarrow> string \<Rightarrow> string list \<Rightarrow> db \<Rightarrow> db_error + db \<times> job_row list" where
  "cancel_jobs s name ids d =
     bindr (cast_ids s ids) (\<lambda>us. update_jobs (cancel_where name us) (\<lambda>j. Inr (cancel_set s j)) d)"

definition resume_where :: "string \<Rightarrow> uuid list \<Rightarrow> job_row \<Rightarrow> bool" where
  "resume_where name us j \<longleftrightarrow> id_in name us j \<and> j_state j = CANCELLED"

definition resume_set :: "job_row \<Rightarrow> job_row" where
  "resume_set j = j\<lparr>j_completed_on := None, j_state := CREATED\<rparr>"

definition resume_jobs :: "pg \<Rightarrow> string \<Rightarrow> string list \<Rightarrow> db \<Rightarrow> db_error + db \<times> job_row list" where
  "resume_jobs s name ids d =
     bindr (cast_ids s ids) (\<lambda>us. update_jobs (resume_where name us) (\<lambda>j. Inr (resume_set j)) d)"

definition retry_where :: "string \<Rightarrow> uuid list \<Rightarrow> job_row \<Rightarrow> bool" where
  "retry_where name us j \<longleftrightarrow> id_in name us j \<and> j_state j = FAILED"

definition retry_set :: "job_row \<Rightarrow> db_error + job_row" where
  "retry_set j =
     bindr (int4 (j_retry_limit j + 1)) (\<lambda>n. Inr (j\<lparr>j_state := RETRY, j_retry_limit := n\<rparr>))"

definition retry_jobs :: "pg \<Rightarrow> string \<Rightarrow> string list \<Rightarrow> db \<Rightarrow> db_error + db \<times> job_row list" where
  "retry_jobs s name ids d =
     bindr (cast_ids s ids) (\<lambda>us. update_jobs (retry_where name us) retry_set d)"

section \<open>Deleting and looking up\<close>

definition delete_jobs :: "pg \<Rightarrow> string \<Rightarrow> string list \<Rightarrow> db \<Rightarrow> db_error + db" where
  "delete_jobs s name ids d = bindr (cast_ids s ids) (\<lambda>us. Inr (delete_rows (id_in name us) d))"

definition past_retention :: "pg \<Rightarrow> job_row \<Rightarrow> bool" where
  "past_retention s j \<longleftrightarrow>
     (0 < j_deletion_seconds j \<and>
      (case j_completed_on j of
         None \<Rightarrow> False
       | Some t \<Rightarrow> t + j_deletion_seconds j * second < pg_now s)) \<or>
     (j_state j < ACTIVE \<and> j_keep_until j < pg_now s)"

definition delete_old_jobs :: "pg \<Rightarrow> db \<Rightarrow> db" where
  "delete_old_jobs s d = delete_rows (past_retention s) d"

definition get_job_by_id :: "pg \<Rightarrow> string \<Rightarrow> string \<Rightarrow> db \<Rightarrow> db_error + job_row option" where
  "get_job_by_id s name i d =
     bindr (of_option InvalidTextRepresentation (pg_uuid_in s i)) (\<lambda>u.
       Inr (find (\<lambda>j. j_name j = name \<and> j_id j = u) (jobs d)))"

section \<open>Each UPDATE keeps the contract\<close>

lemmas set_clauses =
  complete_set_def retry_or_fail_set_def cancel_set_def resume_set_def retry_set_def

lemmas where_clauses =
  complete_where_def fail_where_def expired_where_def cancel_where_def resume_where_def
  retry_where_def id_in_def

lemma set_clause_frame:
  "frame_of (complete_set s out j) = frame_of j"
  "frame_of (retry_or_fail_set s out j) = frame_of j"
  "frame_of (cancel_set s j) = frame_of j"
  "frame_of (resume_set j) = frame_of j"
  by (simp_all add: set_clauses frame_of_def)

lemma set_clause_state [simp]:
  "j_state (complete_set s out j) = COMPLETED"
  "j_state (retry_or_fail_set s out j) = (if j_retry_count j < j_retry_limit j then RETRY else FAILED)"
  "j_state (cancel_set s j) = CANCELLED"
  "j_state (resume_set j) = CREATED"
  by (simp_all add: set_clauses)

lemma retry_set_Inr:
  "retry_set j = Inr j' \<longleftrightarrow>
     - (2 ^ 31) \<le> j_retry_limit j + 1 \<and> j_retry_limit j + 1 < 2 ^ 31 \<and>
     j' = j\<lparr>j_state := RETRY, j_retry_limit := j_retry_limit j + 1\<rparr>"
  by (auto simp: retry_set_def)

interpretation complete: job_update "complete_where name us" "\<lambda>j. Inr (complete_set s out j)"
  for name us s out
  by unfold_locales (auto simp: set_clause_frame where_clauses)

interpretation fail: job_update "fail_where name us" "\<lambda>j. Inr (retry_or_fail_set s out j)"
  for name us s out
  by unfold_locales (auto simp: set_clause_frame where_clauses)

interpretation expire: job_update "expired_where s" "\<lambda>j. Inr (retry_or_fail_set s out j)"
  for s out
  by unfold_locales (auto simp: set_clause_frame where_clauses)

interpretation cancel: job_update "cancel_where name us" "\<lambda>j. Inr (cancel_set s j)"
  for name us s
  by unfold_locales (auto simp: set_clause_frame where_clauses)

interpretation resume: job_update "resume_where name us" "\<lambda>j. Inr (resume_set j)"
  for name us
  by unfold_locales (auto simp: set_clause_frame where_clauses)

interpretation requeue: job_update "retry_where name us" retry_set
  for name us
  by unfold_locales (auto simp: where_clauses retry_set_Inr frame_of_def)

section \<open>Rounding and backoff\<close>

lemma rint_of_int [simp]: "rint (of_int n) = n"
  by (simp add: rint_def)

lemma rint_bounds: "\<lfloor>x\<rfloor> \<le> rint x" "rint x \<le> \<lfloor>x\<rfloor> + 1"
  by (simp_all add: rint_def Let_def)

lemma rint_mono:
  assumes "x \<le> y"
  shows "rint x \<le> rint y"
proof (cases "\<lfloor>x\<rfloor> = \<lfloor>y\<rfloor>")
  case True
  with assms show ?thesis by (auto simp: rint_def Let_def)
next
  case False
  with assms have "\<lfloor>x\<rfloor> < \<lfloor>y\<rfloor>" by (metis floor_mono order_le_less)
  then show ?thesis using rint_bounds [of x] rint_bounds [of y] by linarith
qed

lemma backoff_base_half:
  assumes "0 \<le> j_retry_count j"
  shows "backoff_base j / 2 = of_int (2 ^ nat (min 16 (j_retry_count j + 1) - 1))"
proof -
  define k where "k = nat (min 16 (j_retry_count j + 1) - 1)"
  have "min 16 (j_retry_count j + 1) = int (Suc k)" using assms by (auto simp: k_def)
  then have "backoff_base j = 2 ^ Suc k" by (simp only: backoff_base_def power_int_of_nat)
  then show ?thesis by (simp add: k_def [symmetric])
qed

text \<open>C14. The exponential backoff of a job with \<open>c\<close> retries behind it waits at least
  \<open>delay * 2 ^ min 15 c\<close> seconds and at most twice that, both cut down to \<^verbatim>\<open>retry_delay_max\<close> where
  one is set, whatever \<^verbatim>\<open>random()\<close> draws.\<close>
theorem backoff_bounds:
  assumes "0 \<le> j_retry_count j" "0 \<le> j_retry_delay j" "0 \<le> rnd" "rnd < 1"
  defines "lo \<equiv> j_retry_delay j * 2 ^ nat (min 15 (j_retry_count j))"
  defines "capped \<equiv> \<lambda>t. case j_retry_delay_max j of None \<Rightarrow> t | Some m \<Rightarrow> min m t"
  shows "capped lo \<le> backoff_seconds rnd j \<and> backoff_seconds rnd j \<le> capped (2 * lo)"
proof -
  define h :: int where "h = 2 ^ nat (min 15 (j_retry_count j))"
  have "min 16 (j_retry_count j + 1) - 1 = min 15 (j_retry_count j)" by auto
  with backoff_base_half [OF assms(1)] have half: "backoff_base j / 2 = of_int h" by (simp add: h_def)
  define raw :: rat where "raw = of_int (j_retry_delay j) * (of_int h + of_int h * rnd)"
  have h0: "0 \<le> h" by (simp add: h_def)
  have dh: "(0::rat) \<le> of_int (j_retry_delay j * h)" using assms(2) h0 by simp
  have raw': "raw = of_int (j_retry_delay j * h) * (1 + rnd)"
    by (simp add: raw_def algebra_simps)
  have lower: "of_int lo \<le> raw"
    using mult_left_mono [OF _ dh, of 1 "1 + rnd"] assms(3) by (simp add: raw' lo_def h_def)
  have upper: "raw \<le> of_int (2 * lo)"
    using mult_left_mono [OF _ dh, of "1 + rnd" 2] assms(4) by (simp add: raw' lo_def h_def)
  have eq: "backoff_seconds rnd j = rint (case j_retry_delay_max j of None \<Rightarrow> raw | Some m \<Rightarrow> min (of_int m) raw)"
    by (simp add: backoff_seconds_def half raw_def Let_def split: option.split)
  note mono = rint_mono [of "of_int a" b for a b, unfolded rint_of_int]
    rint_mono [of a "of_int b" for a b, unfolded rint_of_int]
  show ?thesis
  proof (cases "j_retry_delay_max j")
    case None
    with eq mono(1) [OF lower] mono(2) [OF upper] show ?thesis by (simp add: capped_def)
  next
    case (Some m)
    have "min m lo \<le> rint (min (of_int m) raw)"
      using lower by (intro mono(1)) (auto simp: of_int_min min.coboundedI2)
    moreover have "rint (min (of_int m) raw) \<le> min m (2 * lo)"
      using upper by (intro mono(2)) (auto simp: of_int_min min.coboundedI2)
    ultimately show ?thesis using Some eq by (simp add: capped_def)
  qed
qed

theorem backoff_bounds_witness:
  "let j = (sample_job ''q'' ''standard'' 1 ACTIVE)\<lparr>j_retry_count := 3, j_retry_delay := 5\<rparr>
   in 40 \<le> backoff_seconds (1 / 2) j \<and> backoff_seconds (1 / 2) j \<le> 80"
proof -
  let ?j = "(sample_job ''q'' ''standard'' 1 ACTIVE)\<lparr>j_retry_count := 3, j_retry_delay := 5\<rparr>"
  have "0 \<le> j_retry_count ?j" "0 \<le> j_retry_delay ?j" "(0::rat) \<le> 1 / 2" "1 / 2 < (1::rat)" by simp_all
  from backoff_bounds [OF this] show ?thesis by (simp add: sample_job_def job_defaults_def)
qed

section \<open>Settling\<close>

lemma update_jobs_none:
  assumes "\<forall>i. unique_index i (jobs d)" "\<forall>j\<in>set (jobs d). \<not> sel j"
  shows "update_jobs sel upd d = Inr (d, [])"
proof -
  have "update_rows sel upd (jobs d) = Inr (map (\<lambda>j. j) (jobs d))"
    unfolding update_rows_def by (rule traverse_eq_map) (use assms(2) in simp)
  moreover have "filter sel (jobs d) = []" using assms(2) by (simp add: filter_empty_conv)
  moreover have "check_unique (jobs d) = Inr ()" using assms(1) by simp
  ultimately show ?thesis by (simp add: update_jobs_def)
qed

text \<open>A total SET that takes rows out of indexes or keeps their keys never meets an index.\<close>

lemma update_jobs_shrinks:
  assumes "\<forall>i. unique_index i (jobs d)"
    "\<And>i j. sel j \<Longrightarrow> index_key i (g j) \<in> {None, index_key i j}"
  shows "update_jobs sel (\<lambda>j. Inr (g j)) d =
    Inr (d\<lparr>jobs := set_where sel g (jobs d)\<rparr>, map g (filter sel (jobs d)))"
proof -
  have "check_unique (set_where sel g (jobs d)) = Inr ()"
    using assms by (auto intro: unique_index_shrink)
  then show ?thesis by (simp add: update_jobs_total Let_def)
qed

lemma complete_keys: "j_state j = ACTIVE \<Longrightarrow> index_key i (complete_set s out j) \<in> {None, index_key i j}"
  by (cases i) (simp_all add: index_defs complete_set_def)

lemma cancel_keys: "index_key i (cancel_set s j) \<in> {None, index_key i j}"
  by (cases i) (simp_all add: index_defs cancel_set_def)

text \<open>Completing never meets a constraint: with well-formed ids, \<open>complete_jobs\<close> on a correct table
  succeeds, marks exactly the active jobs of that queue among the ids completed, with this
  instant and this output, and leaves every other row alone.\<close>
theorem complete_jobs_total:
  assumes "db_ok d" "cast_ids s ids = Inr us"
  shows "complete_jobs s name ids out d =
    Inr (d\<lparr>jobs := map (\<lambda>j. if j_name j = name \<and> j_id j \<in> set us \<and> j_state j = ACTIVE
                          then j\<lparr>j_completed_on := Some (pg_now s), j_state := COMPLETED, j_output := out\<rparr>
                          else j) (jobs d)\<rparr>,
         map (complete_set s out) (filter (complete_where name us) (jobs d)))"
proof -
  have "\<forall>i. unique_index i (jobs d)" using assms(1) by (simp add: db_ok_def jobs_ok_def)
  then have "update_jobs (complete_where name us) (\<lambda>j. Inr (complete_set s out j)) d =
      Inr (d\<lparr>jobs := set_where (complete_where name us) (complete_set s out) (jobs d)\<rparr>,
           map (complete_set s out) (filter (complete_where name us) (jobs d)))"
    by (rule update_jobs_shrinks) (rule complete_keys, simp add: complete_where_def)
  then show ?thesis using assms(2)
    by (simp add: complete_jobs_def set_where_def complete_where_def id_in_def complete_set_def)
qed

definition settle_sample :: db where
  "settle_sample = sample_db [sample_queue ''q'' ''standard'']
     [sample_job ''q'' ''standard'' 1 ACTIVE, sample_job ''q'' ''standard'' 2 CREATED]"

lemma settle_sample_ok: "db_ok settle_sample" "cast_ids sample_pg [''1''] = Inr [1]"
  by code_simp+

theorem complete_jobs_total_witness:
  "\<exists>d' rows. complete_jobs sample_pg ''q'' [''1''] None settle_sample = Inr (d', rows) \<and>
     map j_state (jobs d') = [COMPLETED, CREATED]"
proof -
  have "map j_state (map (\<lambda>j. if j_name j = ''q'' \<and> j_id j \<in> set [1] \<and> j_state j = ACTIVE
      then j\<lparr>j_completed_on := Some (pg_now sample_pg), j_state := COMPLETED, j_output := None\<rparr>
      else j) (jobs settle_sample)) = [COMPLETED, CREATED]" by code_simp
  then show ?thesis using complete_jobs_total [OF settle_sample_ok, of "''q''" None] by simp
qed

text \<open>A settled job stays settled: once \<open>complete_jobs\<close> has run, a second completion or a failure
  of the same ids, by this worker or a late one, changes nothing.\<close>
theorem complete_settles:
  assumes "complete_jobs s name ids out d = Inr (d', rows)" "cast_ids s' ids = cast_ids s ids"
  shows "complete_jobs s' name ids out' d' = Inr (d', []) \<and> fail_jobs s' name ids out' d' = Inr (d', [])"
proof -
  from assms(1) obtain us where us: "cast_ids s ids = Inr us"
    and upd: "update_jobs (complete_where name us) (\<lambda>j. Inr (complete_set s out j)) d = Inr (d', rows)"
    by (auto simp: complete_jobs_def)
  from upd obtain new where d': "d' = d\<lparr>jobs := new\<rparr>" and uniq: "\<forall>i. unique_index i new"
    and all2: "list_all2 (updated (complete_where name us) (\<lambda>j. Inr (complete_set s out j))) (jobs d) new"
    by (rule update_jobsE)
  have settled: "\<not> (id_in name us j' \<and> j_state j' = ACTIVE)" if "j' \<in> set new" for j'
    using list_all2_in_right [OF all2 that]
    by (auto simp: updated_def complete_where_def split: if_splits)
       (drule arg_cong [where f = j_state], simp)
  have "\<forall>i. unique_index i (jobs d')" using d' uniq by simp
  moreover have "\<forall>j\<in>set (jobs d'). \<not> complete_where name us j" "\<forall>j\<in>set (jobs d'). \<not> fail_where name us j"
    using d' settled by (auto simp: complete_where_def fail_where_def)
  ultimately show ?thesis using us assms(2)
    by (simp add: complete_jobs_def fail_jobs_def update_jobs_none)
qed

theorem complete_settles_witness:
  "\<exists>d' rows. complete_jobs sample_pg ''q'' [''1''] None settle_sample = Inr (d', rows) \<and>
     fail_jobs sample_pg ''q'' [''1''] None d' = Inr (d', [])"
proof -
  have "ok (complete_jobs sample_pg ''q'' [''1''] None settle_sample)" by code_simp
  then obtain d' rows where c: "complete_jobs sample_pg ''q'' [''1''] None settle_sample = Inr (d', rows)"
    using ok_pair by blast
  with complete_settles [OF c refl] show ?thesis by blast
qed

text \<open>Cancel and resume are inverse on jobs that wait untouched: cancelling jobs that are
  \<^verbatim>\<open>created\<close> and resuming them gives back exactly the table before.\<close>
theorem cancel_then_resume:
  assumes "db_ok d" "cast_ids s ids = Inr us" "cast_ids s' ids = Inr us"
    "\<forall>j\<in>set (jobs d). id_in name us j \<longrightarrow> j_state j = CREATED \<and> j_completed_on j = None"
  shows "\<exists>d1 r1 r2. cancel_jobs s name ids d = Inr (d1, r1) \<and> resume_jobs s' name ids d1 = Inr (d, r2)"
proof -
  have uniq: "\<forall>i. unique_index i (jobs d)" using assms(1) by (simp add: db_ok_def jobs_ok_def)
  let ?d1 = "d\<lparr>jobs := set_where (cancel_where name us) (cancel_set s) (jobs d)\<rparr>"
  have "cancel_jobs s name ids d = Inr (?d1, map (cancel_set s) (filter (cancel_where name us) (jobs d)))"
    using assms(2) update_jobs_shrinks [OF uniq cancel_keys] by (simp add: cancel_jobs_def)
  moreover have "resume_set (cancel_set s j) = j" if "j_state j = CREATED" "j_completed_on j = None" for j
    using that by (cases j) (simp add: resume_set_def cancel_set_def)
  then have "(if resume_where name us j' then resume_set j' else j') = j"
    if "j \<in> set (jobs d)" "j' = (if cancel_where name us j then cancel_set s j else j)" for j j'
    using assms(4) that by (auto simp: resume_where_def cancel_where_def id_in_def cancel_set_def)
  then have "set_where (resume_where name us) resume_set (jobs ?d1) = jobs d"
    by (auto simp: set_where_def intro!: map_idI)
  then have "\<exists>r2. resume_jobs s' name ids ?d1 = Inr (d, r2)"
    using assms(3) uniq by (simp add: resume_jobs_def update_jobs_total Let_def)
  ultimately show ?thesis by blast
qed

theorem cancel_then_resume_witness:
  "\<exists>d1 r1 r2. cancel_jobs sample_pg ''q'' [''2''] settle_sample = Inr (d1, r1) \<and>
     resume_jobs sample_pg ''q'' [''2''] d1 = Inr (settle_sample, r2)"
proof -
  have "cast_ids sample_pg [''2''] = Inr [2]" by code_simp
  moreover have "\<forall>j\<in>set (jobs settle_sample). id_in ''q'' [2] j \<longrightarrow> j_state j = CREATED \<and> j_completed_on j = None"
    by code_simp
  ultimately show ?thesis using cancel_then_resume [OF settle_sample_ok(1)] by blast
qed

end
