(* ===== verification/Insert_Sql.thy ===== *)
theory Insert_Sql
  imports Job_Updates
begin

text \<open>
  The two statements of \<^verbatim>\<open>underboss/sql.py\<close> that add jobs. \<open>insert_jobs\<close> reads a JSON array of job
  specs, lets each fall back to the queue's defaults, computes the throttling slot, and inserts
  with \<^verbatim>\<open>ON CONFLICT DO NOTHING\<close>: a row that meets the primary key or a policy index is dropped, any
  other constraint fails the statement. \<open>route_to_dead_letter\<close> copies a failed job into its
  dead-letter queue.
\<close>

section \<open>Reading a job spec\<close>

record job_spec =
  js_id :: "uuid option"
  js_priority :: "int option"
  js_data :: "json option"
  js_retry_limit :: "int option"
  js_retry_delay :: "int option"
  js_retry_delay_max :: "int option"
  js_retry_backoff :: "bool option"
  js_singleton_key :: "string option"
  js_singleton_seconds :: "int option"
  js_singleton_offset :: "int option"
  js_group_id :: "string option"
  js_group_tier :: "string option"
  js_expire_in_seconds :: "int option"
  js_delete_after_seconds :: "int option"
  js_retention_seconds :: "int option"
  js_dead_letter :: "string option"
  js_heartbeat_seconds :: "int option"
  js_start_after :: int

text \<open>
  \<^verbatim>\<open>right(t, 1) = 'Z'\<close> marks an absolute time; anything else, and a missing value as \<^verbatim>\<open>'0'\<close>, is an
  interval from now.
\<close>

definition start_after_of :: "pg \<Rightarrow> string option \<Rightarrow> db_error + int" where
  "start_after_of s t =
     (case t of
        Some u \<Rightarrow>
          if u \<noteq> [] \<and> last u = CHR ''Z''
          then of_option InvalidTextRepresentation (pg_timestamptz_in s u)
          else of_option InvalidTextRepresentation (pg_add_interval s (pg_now s) u)
      | None \<Rightarrow> of_option InvalidTextRepresentation (pg_add_interval s (pg_now s) ''0''))"

definition job_spec_of :: "pg \<Rightarrow> json \<Rightarrow> db_error + job_spec" where
  "job_spec_of s x =
     bindr (cast_uuid s (arrow_text s x ''id'')) (\<lambda>i.
     bindr (cast_int4 (arrow_text s x ''priority'')) (\<lambda>priority.
     bindr (arrow_jsonb s x ''data'') (\<lambda>data.
     bindr (cast_int4 (arrow_text s x ''retryLimit'')) (\<lambda>retry_limit.
     bindr (cast_int4 (arrow_text s x ''retryDelay'')) (\<lambda>retry_delay.
     bindr (cast_int4 (arrow_text s x ''retryDelayMax'')) (\<lambda>retry_delay_max.
     bindr (cast_bool (arrow_text s x ''retryBackoff'')) (\<lambda>retry_backoff.
     bindr (cast_int4 (arrow_text s x ''singletonSeconds'')) (\<lambda>singleton_seconds.
     bindr (cast_int4 (arrow_text s x ''singletonOffset'')) (\<lambda>singleton_offset.
     bindr (cast_int4 (arrow_text s x ''expireInSeconds'')) (\<lambda>expire_in_seconds.
     bindr (cast_int4 (arrow_text s x ''deleteAfterSeconds'')) (\<lambda>delete_after_seconds.
     bindr (cast_int4 (arrow_text s x ''retentionSeconds'')) (\<lambda>retention_seconds.
     bindr (cast_int4 (arrow_text s x ''heartbeatSeconds'')) (\<lambda>heartbeat_seconds.
     bindr (start_after_of s (arrow_text s x ''startAfter'')) (\<lambda>start_after.
       Inr \<lparr>js_id = i, js_priority = priority, js_data = data, js_retry_limit = retry_limit,
            js_retry_delay = retry_delay, js_retry_delay_max = retry_delay_max,
            js_retry_backoff = retry_backoff,
            js_singleton_key = arrow_text s x ''singletonKey'',
            js_singleton_seconds = singleton_seconds, js_singleton_offset = singleton_offset,
            js_group_id = arrow_text s x ''groupId'', js_group_tier = arrow_text s x ''groupTier'',
            js_expire_in_seconds = expire_in_seconds,
            js_delete_after_seconds = delete_after_seconds,
            js_retention_seconds = retention_seconds,
            js_dead_letter = arrow_text s x ''deadLetter'',
            js_heartbeat_seconds = heartbeat_seconds,
            js_start_after = start_after\<rparr>))))))))))))))"

section \<open>The throttling slot\<close>

text \<open>
  \<^verbatim>\<open>'epoch' + n * floor((epoch(now()) + offset) / n) * interval '1 second'\<close>. The server computes in
  float8; for instants of this millennium in whole microseconds the rounding of float8 is smaller
  than the distance to the next multiple, so the floor is that of exact division.
\<close>

definition singleton_on :: "int \<Rightarrow> int \<Rightarrow> int \<Rightarrow> db_error + int" where
  "singleton_on now n offset =
     (if n = 0 then Inl DivisionByZero
      else Inr (n * ((now + offset * second) div (n * second)) * second))"

section \<open>The row of a spec\<close>

definition job_row_of :: "pg \<Rightarrow> queue_row \<Rightarrow> nat \<Rightarrow> job_spec \<Rightarrow> db_error + job_row" where
  "job_row_of s q k x =
     bindr (case js_singleton_seconds x of
              None \<Rightarrow> Inr None
            | Some n \<Rightarrow>
                bindr (singleton_on (pg_now s) n (coalesce (js_singleton_offset x) 0))
                  (\<lambda>t. Inr (Some t))) (\<lambda>slot.
       Inr (job_defaults s (coalesce (js_id x) (pg_gen_uuid s k)) (q_name q)
         \<lparr>j_data := js_data x,
          j_priority := coalesce (js_priority x) 0,
          j_start_after := js_start_after x,
          j_singleton_key := js_singleton_key x,
          j_singleton_on := slot,
          j_group_id := js_group_id x,
          j_group_tier := js_group_tier x,
          j_expire_seconds := coalesce (js_expire_in_seconds x) (q_expire_seconds q),
          j_deletion_seconds := coalesce (js_delete_after_seconds x) (q_deletion_seconds q),
          j_keep_until := js_start_after x
            + coalesce (js_retention_seconds x) (q_retention_seconds q) * second,
          j_retry_limit := coalesce (js_retry_limit x) (q_retry_limit q),
          j_retry_delay := coalesce (js_retry_delay x) (q_retry_delay q),
          j_retry_backoff := coalesce (js_retry_backoff x) (q_retry_backoff q),
          j_retry_delay_max := coalesce2 (js_retry_delay_max x) (q_retry_delay_max q),
          j_policy := Some (q_policy q),
          j_dead_letter := coalesce2 (js_dead_letter x) (q_dead_letter q),
          j_heartbeat_seconds := coalesce2 (js_heartbeat_seconds x) (q_heartbeat_seconds q)\<rparr>))"

text \<open>The rows of a batch; \<open>k\<close> counts the calls of \<^verbatim>\<open>gen_random_uuid()\<close>.\<close>

fun rows_of_specs :: "pg \<Rightarrow> queue_row \<Rightarrow> nat \<Rightarrow> json list \<Rightarrow> db_error + job_row list" where
  "rows_of_specs s q k [] = Inr []"
| "rows_of_specs s q k (x # xs) =
     bindr (job_spec_of s x) (\<lambda>y.
     bindr (job_row_of s q k y) (\<lambda>r.
     bindr (rows_of_specs s q (Suc k) xs) (\<lambda>rs. Inr (r # rs))))"

section \<open>INSERT\<close>

definition conflicts :: "job_row list \<Rightarrow> job_row \<Rightarrow> bool" where
  "conflicts rows j \<longleftrightarrow>
     job_pk j \<in> set (map job_pk rows) \<or>
     (\<exists>i\<in>set all_indexes. index_key i j \<noteq> None \<and> index_key i j \<in> set (map (index_key i) rows))"

fun insert_on_conflict_do_nothing :: "job_row list \<Rightarrow> job_row list \<Rightarrow> job_row list" where
  "insert_on_conflict_do_nothing rows [] = []"
| "insert_on_conflict_do_nothing rows (j # js) =
     (if conflicts rows j then insert_on_conflict_do_nothing rows js
      else j # insert_on_conflict_do_nothing (rows @ [j]) js)"

text \<open>
  \<open>insert_jobs\<close> returns the ids inserted. Without a queue of that name the join is empty and
  nothing is inserted.
\<close>

definition insert_jobs ::
  "pg \<Rightarrow> json list \<Rightarrow> string \<Rightarrow> db \<Rightarrow> db_error + db \<times> uuid list" where
  "insert_jobs s specs name d =
     (case find_queue name d of
        None \<Rightarrow> Inr (d, [])
      | Some q \<Rightarrow>
          bindr (rows_of_specs s q 0 specs) (\<lambda>rows.
            if \<not> list_all job_check rows then Inl CheckViolation
            else
              let new = insert_on_conflict_do_nothing (jobs d) rows
              in if \<not> list_all (\<lambda>j. fk_ok (j_dead_letter j) d) new then Inl ForeignKeyViolation
                 else Inr (d\<lparr>jobs := jobs d @ new\<rparr>, map j_id new)))"

text \<open>
  \<open>route_to_dead_letter\<close> is a plain INSERT, one row for the queue named, none if there is no such
  queue. \<open>k\<close> is the draw of \<^verbatim>\<open>gen_random_uuid()\<close> for the id's default.
\<close>

definition dead_letter_row ::
  "pg \<Rightarrow> nat \<Rightarrow> queue_row \<Rightarrow> json option \<Rightarrow> json option \<Rightarrow> job_row" where
  "dead_letter_row s k q data output =
     job_defaults s (pg_gen_uuid s k) (q_name q)
       \<lparr>j_data := data, j_output := output,
        j_retry_limit := q_retry_limit q, j_retry_delay := q_retry_delay q,
        j_retry_backoff := q_retry_backoff q,
        j_keep_until := pg_now s + q_retention_seconds q * second,
        j_deletion_seconds := q_deletion_seconds q\<rparr>"

definition route_to_dead_letter ::
  "pg \<Rightarrow> nat \<Rightarrow> string \<Rightarrow> json option \<Rightarrow> json option \<Rightarrow> db \<Rightarrow> db_error + db" where
  "route_to_dead_letter s k dlq data output d =
     (case find_queue dlq d of
        None \<Rightarrow> Inr d
      | Some q \<Rightarrow>
          let j = dead_letter_row s k q data output
          in if \<not> job_check j then Inl CheckViolation
             else if job_pk j \<in> set (map job_pk (jobs d)) then Inl PrimaryKeyViolation
             else
               bindr (check_unique (jobs d @ [j])) (\<lambda>_.
                 if fk_ok (j_dead_letter j) d then Inr (d\<lparr>jobs := jobs d @ [j]\<rparr>)
                 else Inl ForeignKeyViolation))"

section \<open>Inserted rows keep the constraints\<close>

lemma unique_index_append:
  assumes "unique_index i rows" "index_key i j = None \<or> index_key i j \<notin> set (map (index_key i) rows)"
  shows "unique_index i (rows @ [j])"
  using assms
  by (cases "index_key i j")
     (auto simp: unique_index_def map_filter_append List.map_filter_simps set_map_filter_iff image_iff)

lemma insert_step:
  assumes "distinct (map job_pk rows)" "\<forall>i. unique_index i rows" "\<not> conflicts rows j"
  shows "distinct (map job_pk (rows @ [j]))" "\<forall>i. unique_index i (rows @ [j])"
proof -
  show "distinct (map job_pk (rows @ [j]))" using assms by (auto simp: conflicts_def)
  have "index_key i j = None \<or> index_key i j \<notin> set (map (index_key i) rows)" for i
    using assms(3) unfolding conflicts_def set_all_indexes by blast
  with assms(2) show "\<forall>i. unique_index i (rows @ [j])" by (blast intro: unique_index_append)
qed

lemma insert_on_conflict_ok:
  assumes "distinct (map job_pk rows)" "\<forall>i. unique_index i rows"
  shows "distinct (map job_pk (rows @ insert_on_conflict_do_nothing rows js))"
    "\<forall>i. unique_index i (rows @ insert_on_conflict_do_nothing rows js)"
proof -
  have "distinct (map job_pk (rows @ insert_on_conflict_do_nothing rows js)) \<and>
    (\<forall>i. unique_index i (rows @ insert_on_conflict_do_nothing rows js))"
    using assms
  proof (induction rows js rule: insert_on_conflict_do_nothing.induct)
    case (2 rows j js)
    show ?case
    proof (cases "conflicts rows j")
      case True
      with 2 show ?thesis by simp
    next
      case False
      from insert_step [OF 2(3,4) False] 2(2) [OF False] False show ?thesis by simp
    qed
  qed simp
  then show "distinct (map job_pk (rows @ insert_on_conflict_do_nothing rows js))"
    "\<forall>i. unique_index i (rows @ insert_on_conflict_do_nothing rows js)" by auto
qed

lemma insert_on_conflict_subset: "set (insert_on_conflict_do_nothing rows js) \<subseteq> set js"
  by (induction rows js rule: insert_on_conflict_do_nothing.induct) auto

lemma job_row_of_frame:
  assumes "job_row_of s q k x = Inr j"
  shows "j_name j = q_name q" "j_state j = CREATED" "j_policy j = Some (q_policy q)"
    "j_id j = coalesce (js_id x) (pg_gen_uuid s k)" "j_started_on j = None" "j_completed_on j = None"
    "j_singleton_key j = js_singleton_key x" "j_data j = js_data x"
    "j_dead_letter j = coalesce2 (js_dead_letter x) (q_dead_letter q)"
  using assms by (auto simp: job_row_of_def job_defaults_def)

lemma rows_of_specs_mem:
  "rows_of_specs s q k xs = Inr rows \<Longrightarrow> j \<in> set rows \<Longrightarrow>
   \<exists>x\<in>set xs. \<exists>y m. job_spec_of s x = Inr y \<and> job_row_of s q m y = Inr j"
  by (induction xs arbitrary: k rows) fastforce+

lemma insert_jobs_cases:
  assumes "insert_jobs s specs name d = Inr (d', ids)"
  obtains (no_queue) "\<not> queue_exists name d" "d' = d" "ids = []"
  | (queue) q rows where "find_queue name d = Some q" "rows_of_specs s q 0 specs = Inr rows"
      "list_all job_check rows"
      "list_all (\<lambda>j. fk_ok (j_dead_letter j) d) (insert_on_conflict_do_nothing (jobs d) rows)"
      "d' = d\<lparr>jobs := jobs d @ insert_on_conflict_do_nothing (jobs d) rows\<rparr>"
      "ids = map j_id (insert_on_conflict_do_nothing (jobs d) rows)"
proof (cases "find_queue name d")
  case None
  with assms show ?thesis by (intro no_queue) (simp_all add: insert_jobs_def find_queue_None [symmetric])
next
  case (Some q)
  with assms obtain rows where "rows_of_specs s q 0 specs = Inr rows"
    by (auto simp: insert_jobs_def)
  with Some assms show ?thesis
    by (intro queue [of q rows]) (simp_all add: insert_jobs_def Let_def split: if_splits)
qed

lemma insert_jobs_db_ok:
  assumes "db_ok d" "insert_jobs s specs name d = Inr (d', ids)"
  shows "db_ok d'"
  using assms(2)
proof (cases rule: insert_jobs_cases)
  case no_queue
  with assms(1) show ?thesis by simp
next
  case (queue q rows)
  let ?new = "insert_on_conflict_do_nothing (jobs d) rows"
  have jo: "jobs_ok d" using assms(1) by (simp add: db_ok_def)
  have "job_row_ok d j" if j: "j \<in> set ?new" for j
  proof -
    from j insert_on_conflict_subset have jr: "j \<in> set rows" by blast
    from rows_of_specs_mem [OF queue(2) this] have "j_name j = q_name q"
      by (auto dest: job_row_of_frame)
    with find_queue_Some [OF queue(1)] have "queue_exists (j_name j) d"
      by (auto simp: queue_exists_def)
    with queue(3,4) j jr show ?thesis by (auto simp: job_row_ok_def list_all_iff)
  qed
  with jo insert_on_conflict_ok [of "jobs d" rows] queue(5) have "jobs_ok d'"
    by (auto simp: jobs_ok_def)
  with queue(5) assms(1) show ?thesis by (simp add: db_ok_def queues_ok_def schedules_ok_def)
qed

section \<open>Dead-letter rows meet no policy index\<close>

lemma dead_letter_row_frame [simp]:
  "j_name (dead_letter_row s k q data out) = q_name q" "j_id (dead_letter_row s k q data out) = pg_gen_uuid s k"
  "j_data (dead_letter_row s k q data out) = data" "j_output (dead_letter_row s k q data out) = out"
  "j_state (dead_letter_row s k q data out) = CREATED" "j_policy (dead_letter_row s k q data out) = None"
  "j_dead_letter (dead_letter_row s k q data out) = None"
  "j_singleton_on (dead_letter_row s k q data out) = None"
  "j_completed_on (dead_letter_row s k q data out) = None"
  "j_keep_until (dead_letter_row s k q data out) = pg_now s + q_retention_seconds q * second"
  by (simp_all add: dead_letter_row_def job_defaults_def)

lemma dead_letter_row_unindexed [simp]: "index_key i (dead_letter_row s k q data out) = None"
  by (cases i) (simp_all add: index_defs)

lemma dead_letter_row_check [simp]: "job_check (dead_letter_row s k q data out)"
  by (simp add: job_check_def)

lemma route_to_dead_letter_ok:
  assumes "\<forall>i. unique_index i (jobs d)" "(dlq, pg_gen_uuid s k) \<notin> set (map job_pk (jobs d))"
  shows "route_to_dead_letter s k dlq data out d =
    Inr (case find_queue dlq d of None \<Rightarrow> d
         | Some q \<Rightarrow> d\<lparr>jobs := jobs d @ [dead_letter_row s k q data out]\<rparr>)"
proof (cases "find_queue dlq d")
  case None
  then show ?thesis by (simp add: route_to_dead_letter_def)
next
  case (Some q)
  let ?j = "dead_letter_row s k q data out"
  have "q_name q = dlq" using find_queue_Some [OF Some] by simp
  then have pk: "job_pk ?j = (dlq, pg_gen_uuid s k)" by (simp add: job_pk_def)
  have "check_unique (jobs d @ [?j]) = Inr ()"
    using assms(1) by (auto intro: unique_index_append)
  with Some pk assms(2) show ?thesis by (simp add: route_to_dead_letter_def Let_def fk_ok_def)
qed

lemma route_to_dead_letter_db_ok:
  assumes "db_ok d" "route_to_dead_letter s k dlq data out d = Inr d'"
  shows "db_ok d'"
proof (cases "find_queue dlq d")
  case None
  with assms show ?thesis by (simp add: route_to_dead_letter_def)
next
  case (Some q)
  let ?j = "dead_letter_row s k q data out"
  have jo: "jobs_ok d" using assms(1) by (simp add: db_ok_def)
  from assms(2) Some have d': "d' = d\<lparr>jobs := jobs d @ [?j]\<rparr>"
    and pk: "job_pk ?j \<notin> set (map job_pk (jobs d))"
    by (auto simp: route_to_dead_letter_def Let_def split: if_splits)
  have "queue_exists (q_name q) d" using find_queue_Some [OF Some] by (auto simp: queue_exists_def)
  then have "job_row_ok d ?j" by (simp add: job_row_ok_def fk_ok_def)
  with jo d' pk have "jobs_ok d'" by (auto simp: jobs_ok_def intro: unique_index_append)
  with d' assms(1) show ?thesis by (simp add: db_ok_def queues_ok_def schedules_ok_def)
qed

end
