(* ===== verification/Failure.thy ===== *)
theory Failure
  imports Settle_Sql Insert_Sql
begin

text \<open>
  \<^verbatim>\<open>underboss/failure.py\<close>: failing jobs and routing the exhausted ones to their dead-letter queue.
  The UPDATE and the INSERTs are separate statements of one transaction; \<open>transaction\<close> commits the
  table a sequence of statements ends with, or restores the one it began with when any of them
  raises. A single statement outside a transaction behaves the same way.
\<close>

definition transaction :: "(db \<Rightarrow> db_error + db \<times> 'a) \<Rightarrow> db \<Rightarrow> (db_error + 'a) \<times> db" where
  "transaction f d =
     (case f d of Inl e \<Rightarrow> (Inl e, d) | Inr (d', x) \<Rightarrow> (Inr x, d'))"

text \<open>The loop of \<^verbatim>\<open>_route\<close>; \<open>k\<close> counts the ids drawn so far.\<close>

fun route :: "pg \<Rightarrow> nat \<Rightarrow> job_row list \<Rightarrow> db \<Rightarrow> db_error + db" where
  "route s k [] d = Inr d"
| "route s k (r # rs) d =
     (case j_dead_letter r of
        None \<Rightarrow> route s k rs d
      | Some dlq \<Rightarrow>
          if j_state r = FAILED
          then bindr (route_to_dead_letter s k dlq (j_data r) (j_output r) d) (\<lambda>d'.
                 route s (Suc k) rs d')
          else route s k rs d)"

definition fail_by_id_body ::
  "pg \<Rightarrow> string \<Rightarrow> uuid list \<Rightarrow> (string \<times> json) list \<Rightarrow> db \<Rightarrow> db_error + db \<times> unit" where
  "fail_by_id_body s name us output d =
     bindr (fail_jobs s name (map (pg_uuid_out s) us) (Some (JObj output)) d) (\<lambda>(d', rows).
     bindr (route s 0 rows d') (\<lambda>d''. Inr (d'', ())))"

definition fail_by_id ::
  "pg \<Rightarrow> string \<Rightarrow> uuid list \<Rightarrow> (string \<times> json) list \<Rightarrow> db \<Rightarrow> (db_error + unit) \<times> db" where
  "fail_by_id s name us output = transaction (fail_by_id_body s name us output)"

definition fail_expired_body :: "pg \<Rightarrow> db \<Rightarrow> db_error + db \<times> unit" where
  "fail_expired_body s d =
     bindr (fail_expired_jobs s d) (\<lambda>(d', rows).
     bindr (route s 0 rows d') (\<lambda>d''. Inr (d'', ())))"

definition fail_expired :: "pg \<Rightarrow> db \<Rightarrow> (db_error + unit) \<times> db" where
  "fail_expired s = transaction (fail_expired_body s)"

section \<open>Routing\<close>

definition routed :: "job_row \<Rightarrow> bool" where
  "routed r \<longleftrightarrow> j_state r = FAILED \<and> j_dead_letter r \<noteq> None"

text \<open>Ids drawn by the transaction are new to the table.\<close>

definition fresh_ids :: "pg \<Rightarrow> db \<Rightarrow> bool" where
  "fresh_ids s d \<longleftrightarrow> gen_uuid_distinct s \<and> (\<forall>k. \<forall>j\<in>set (jobs d). j_id j \<noteq> pg_gen_uuid s k)"

definition routed_copy :: "job_row \<Rightarrow> job_row \<Rightarrow> bool" where
  "routed_copy r j \<longleftrightarrow>
     j_dead_letter r = Some (j_name j) \<and> j_data j = j_data r \<and> j_output j = j_output r \<and>
     j_state j = CREATED \<and> j_dead_letter j = None \<and> j_started_on j = None"

lemma dead_letter_row_copy:
  "find_queue dlq d = Some q \<Longrightarrow> j_dead_letter r = Some dlq \<Longrightarrow>
   routed_copy r (dead_letter_row s k q (j_data r) (j_output r))"
  by (auto simp: routed_copy_def dest: find_queue_Some)
     (simp add: dead_letter_row_def job_defaults_def)

text \<open>
  Each routed row is copied once, in order, and nothing else is added: the loop cannot fail on a
  table whose keys are unique when the ids are new and the dead-letter queues exist.
\<close>

lemma route_copies:
  assumes "\<forall>i. unique_index i (jobs d)" "inj (pg_gen_uuid s)"
    "\<forall>m\<ge>k. \<forall>j\<in>set (jobs d). j_id j \<noteq> pg_gen_uuid s m"
    "\<forall>r\<in>set rows. fk_ok (j_dead_letter r) d"
  shows "\<exists>new. route s k rows d = Inr (d\<lparr>jobs := jobs d @ new\<rparr>) \<and>
    list_all2 routed_copy (filter routed rows) new \<and>
    (\<forall>i. unique_index i (jobs d @ new)) \<and>
    (\<forall>j\<in>set new. \<exists>m\<ge>k. j_id j = pg_gen_uuid s m)"
  using assms
proof (induction rows arbitrary: k d)
  case Nil
  then show ?case by (intro exI [of _ "[]"]) simp
next
  case (Cons r rows)
  show ?case
  proof (cases "routed r")
    case False
    then have skip: "route s k (r # rows) d = route s k rows d"
      by (auto simp: routed_def split: option.splits)
    have "\<forall>r\<in>set rows. fk_ok (j_dead_letter r) d" using Cons.prems(4) by simp
    from Cons.IH [OF Cons.prems(1-3) this] skip False show ?thesis by simp
  next
    case True
    then obtain dlq where dlq: "j_dead_letter r = Some dlq" and failed: "j_state r = FAILED"
      by (auto simp: routed_def)
    with Cons.prems(4) have "queue_exists dlq d" by (simp add: fk_ok_def)
    then obtain q where q: "find_queue dlq d = Some q" using find_queue_None by fastforce
    let ?j = "dead_letter_row s k q (j_data r) (j_output r)"
    let ?d = "d\<lparr>jobs := jobs d @ [?j]\<rparr>"
    have pk: "(dlq, pg_gen_uuid s k) \<notin> set (map job_pk (jobs d))"
      using Cons.prems(3) by (fastforce simp: job_pk_def)
    have step: "route s k (r # rows) d = route s (Suc k) rows ?d"
      using dlq failed q route_to_dead_letter_ok [OF Cons.prems(1) pk] by simp
    have u: "\<forall>i. unique_index i (jobs ?d)"
      using Cons.prems(1) by (auto intro: unique_index_append)
    have f: "\<forall>m\<ge>Suc k. \<forall>j\<in>set (jobs ?d). j_id j \<noteq> pg_gen_uuid s m"
      using Cons.prems(2,3) by (auto dest: injD)
    have fk: "\<forall>r\<in>set rows. fk_ok (j_dead_letter r) ?d" using Cons.prems(4) by simp
    from Cons.IH [OF u Cons.prems(2) f fk] obtain new where
      new: "route s (Suc k) rows ?d = Inr (?d\<lparr>jobs := jobs ?d @ new\<rparr>)"
      "list_all2 routed_copy (filter routed rows) new"
      "\<forall>i. unique_index i (jobs ?d @ new)" "\<forall>j\<in>set new. \<exists>m\<ge>Suc k. j_id j = pg_gen_uuid s m"
      by blast
    have "routed_copy r ?j" using dead_letter_row_copy [OF q dlq] .
    moreover have "\<forall>j\<in>set (?j # new). \<exists>m\<ge>k. j_id j = pg_gen_uuid s m"
      using new(4) by (auto intro: le_SucI dest: Suc_leD)
    ultimately show ?thesis using step new(1-3) True
      by (intro exI [of _ "?j # new"]) simp
  qed
qed

lemma route_db_ok: "db_ok d \<Longrightarrow> route s k rows d = Inr d' \<Longrightarrow> db_ok d'"
  by (induction s k rows d rule: route.induct)
     (auto split: option.splits if_splits intro: route_to_dead_letter_db_ok)

section \<open>The constraints survive\<close>

lemma fail_jobs_db_ok: "db_ok d \<Longrightarrow> fail_jobs s name ids out d = Inr (d', rows) \<Longrightarrow> db_ok d'"
  by (auto simp: fail_jobs_def intro: fail.keeps_db_ok)

lemma fail_expired_jobs_db_ok: "db_ok d \<Longrightarrow> fail_expired_jobs s d = Inr (d', rows) \<Longrightarrow> db_ok d'"
  by (auto simp: fail_expired_jobs_def intro: expire.keeps_db_ok)

lemma transaction_cases:
  assumes "transaction f d = (r, d')"
  obtains (rollback) e where "f d = Inl e" "r = Inl e" "d' = d"
  | (commit) x where "f d = Inr (d', x)" "r = Inr x"
  using assms by (auto simp: transaction_def split: sum.splits prod.splits)

lemma transaction_db_ok:
  "db_ok d \<Longrightarrow> (\<And>d' x. f d = Inr (d', x) \<Longrightarrow> db_ok d') \<Longrightarrow> db_ok (snd (transaction f d))"
  by (auto simp: transaction_def split: sum.splits)

lemma fail_by_id_db_ok: "db_ok d \<Longrightarrow> db_ok (snd (fail_by_id s name us out d))"
  unfolding fail_by_id_def
  by (rule transaction_db_ok) (auto simp: fail_by_id_body_def dest: fail_jobs_db_ok route_db_ok)

lemma fail_expired_db_ok: "db_ok d \<Longrightarrow> db_ok (snd (fail_expired s d))"
  unfolding fail_expired_def
  by (rule transaction_db_ok) (auto simp: fail_expired_body_def dest: fail_expired_jobs_db_ok route_db_ok)

section \<open>Properties\<close>

lemma route_after_update:
  assumes "db_ok d'" "map job_pk (jobs d') = map job_pk (jobs d)" "fresh_ids s d"
    "set rows \<subseteq> set (jobs d')"
  shows "\<exists>new. route s 0 rows d' = Inr (d'\<lparr>jobs := jobs d' @ new\<rparr>) \<and>
    list_all2 routed_copy (filter routed rows) new"
proof -
  have jo: "jobs_ok d'" using assms(1) by (simp add: db_ok_def)
  have "map j_id (jobs d') = map snd (map job_pk (jobs d'))" by (simp add: job_pk_def)
  also have "\<dots> = map j_id (jobs d)" by (simp add: assms(2)) (simp add: job_pk_def)
  finally have "j_id ` set (jobs d') = j_id ` set (jobs d)" by (metis set_map)
  then have "\<forall>m\<ge>0. \<forall>j\<in>set (jobs d'). j_id j \<noteq> pg_gen_uuid s m"
    using assms(3) unfolding fresh_ids_def by (metis imageE imageI)
  moreover have "\<forall>i. unique_index i (jobs d')" "\<forall>r\<in>set rows. fk_ok (j_dead_letter r) d'"
    using jo assms(4) by (auto simp: jobs_ok_def job_row_ok_def)
  moreover have "inj (pg_gen_uuid s)" using assms(3) by (simp add: fresh_ids_def gen_uuid_distinct_def)
  ultimately show ?thesis using route_copies [of d' s 0 rows] by blast
qed

text \<open>C7. Dead-letter routing loses and duplicates nothing: when the failure UPDATE of \<open>fail_by_id\<close>
  succeeds, the whole transaction commits, and it adds to the table exactly one new queued job
  per row that exhausted its retries and has a dead-letter queue, in that queue, with the failed
  job's data and failure output.\<close>
theorem fail_by_id_routes:
  assumes "db_ok d" "fresh_ids s d"
    "fail_jobs s name (map (pg_uuid_out s) us) (Some (JObj output)) d = Inr (d1, rows)"
  shows "\<exists>new. fail_by_id s name us output d = (Inr (), d1\<lparr>jobs := jobs d1 @ new\<rparr>) \<and>
    list_all2 routed_copy (filter routed rows) new"
proof -
  from assms(3) obtain vs where upd: "update_jobs (fail_where name vs)
      (\<lambda>j. Inr (retry_or_fail_set s (Some (JObj output)) j)) d = Inr (d1, rows)"
    by (auto simp: fail_jobs_def)
  have "db_ok d1" using fail_jobs_db_ok [OF assms(1,3)] .
  moreover have "map job_pk (jobs d1) = map job_pk (jobs d)" using fail.keeps_pks [OF upd] .
  moreover have "set rows \<subseteq> set (jobs d1)" using update_jobs_returned(1) [OF upd] by blast
  ultimately obtain new where "route s 0 rows d1 = Inr (d1\<lparr>jobs := jobs d1 @ new\<rparr>)"
    "list_all2 routed_copy (filter routed rows) new"
    using route_after_update assms(2) by blast
  then show ?thesis using assms(3)
    by (intro exI [of _ new]) (simp add: fail_by_id_def transaction_def fail_by_id_body_def)
qed

definition dead_letter_sample :: db where
  "dead_letter_sample = sample_db
     [sample_queue ''parking'' ''standard'',
      (sample_queue ''orders'' ''standard'')\<lparr>q_dead_letter := Some ''parking''\<rparr>]
     [(sample_job ''orders'' ''standard'' 1 ACTIVE)
        \<lparr>j_retry_limit := 0, j_dead_letter := Some ''parking'', j_data := Some (JNum 42)\<rparr>]"

lemma dead_letter_sample_ok: "db_ok dead_letter_sample" "fresh_ids sample_pg dead_letter_sample"
proof -
  show "db_ok dead_letter_sample" by code_simp
  show "fresh_ids sample_pg dead_letter_sample"
    by (auto simp: fresh_ids_def dead_letter_sample_def sample_db_def sample_job_def job_defaults_def)
       (simp add: sample_pg_def)
qed

theorem fail_by_id_routes_witness:
  "\<exists>d' j. fail_by_id sample_pg ''orders'' [1] [] dead_letter_sample = (Inr (), d') \<and>
     j \<in> set (jobs d') \<and> j_name j = ''parking'' \<and> j_data j = Some (JNum 42)"
proof -
  let ?f = "fail_jobs sample_pg ''orders'' (map (pg_uuid_out sample_pg) [1]) (Some (JObj [])) dead_letter_sample"
  have "case ?f of Inl e \<Rightarrow> False | Inr (d1, rows) \<Rightarrow>
      map j_dead_letter (filter routed rows) = [Some ''parking''] \<and>
      map j_data (filter routed rows) = [Some (JNum 42)]" by code_simp
  then obtain d1 rows where f: "?f = Inr (d1, rows)"
    and r: "map j_dead_letter (filter routed rows) = [Some ''parking'']"
      "map j_data (filter routed rows) = [Some (JNum 42)]"
    by (cases ?f) auto
  from fail_by_id_routes [OF dead_letter_sample_ok f] obtain new where
    new: "fail_by_id sample_pg ''orders'' [1] [] dead_letter_sample = (Inr (), d1\<lparr>jobs := jobs d1 @ new\<rparr>)"
      "list_all2 routed_copy (filter routed rows) new" by blast
  from r obtain x where x: "filter routed rows = [x]" "j_dead_letter x = Some ''parking''" "j_data x = Some (JNum 42)"
    by (cases "filter routed rows") auto
  with new(2) obtain y where "new = [y]" "routed_copy x y" by (auto simp: list_all2_Cons1)
  with new(1) x show ?thesis by (auto simp: routed_copy_def)
qed

end
