(* ===== verification/Fetch_Blocks.thy ===== *)
theory Fetch_Blocks
  imports Fetch_Sql
begin

text \<open>
  When a fetch fails. The statement picks its batch without a look at the policy indexes and then makes
  the whole batch active: a row that shares its policy key with another row of the batch, or with one
  that already holds the key, ends the statement in a unique violation.
\<close>

section \<open>Rows in each other's way\<close>

text \<open>\<open>blocks a h\<close>: claiming \<open>h\<close> while \<open>a\<close> is as it is would put two rows under one policy key.\<close>

definition blocks :: "job_row \<Rightarrow> job_row \<Rightarrow> bool" where
  "blocks a h \<longleftrightarrow>
     j_name a = j_name h \<and> j_policy a = j_policy h \<and>
     coalesce (j_singleton_key a) '''' = coalesce (j_singleton_key h) '''' \<and>
     (j_policy h \<in> {Some ''singleton'', Some ''stately''} \<and> j_state a = ACTIVE \<or>
      j_policy h = Some ''key_strict_fifo'' \<and> j_state a \<in> {ACTIVE, RETRY, FAILED})"

text \<open>A batch collides with a row outside, as it is, or with one of its own, which will be active.\<close>

definition batch_collides :: "job_row list \<Rightarrow> job_row list \<Rightarrow> bool" where
  "batch_collides batch rows \<longleftrightarrow>
     (\<exists>h\<in>set batch. \<exists>a\<in>set rows. a \<noteq> h \<and> blocks (if a \<in> set batch then a\<lparr>j_state := ACTIVE\<rparr> else a) h)"

lemma blocks_cong:
  "frame_of a' = frame_of a \<Longrightarrow> j_state a' = j_state a \<Longrightarrow> blocks a' h = blocks a h"
  using same_frame [of a' a] by (simp add: blocks_def)

text \<open>A claimed row shares an index key with a row it did not share one with before: it is blocked.\<close>

lemma new_key_blocked:
  assumes "index_key i h' = Some k" "index_key i a = Some k" "frame_of h' = frame_of h" "j_state h' = ACTIVE"
    "j_state h < ACTIVE" "index_key i h = Some k \<Longrightarrow> False"
  shows "blocks a h"
  using assms(1,2,4-6) same_frame [OF assms(3)]
  by (cases i; cases "j_state h") (auto simp: index_defs blocks_def split: if_splits)

lemma blocked_key:
  assumes "blocks a h" "job_check a" "job_check h" "frame_of h' = frame_of h" "j_state h' = ACTIVE"
  shows "\<exists>i k. index_key i a = Some k \<and> index_key i h' = Some k"
proof -
  note f = same_frame [OF assms(4)]
  consider "j_policy h = Some ''singleton''" "j_state a = ACTIVE"
    | "j_policy h = Some ''stately''" "j_state a = ACTIVE"
    | "j_policy h = Some ''key_strict_fifo''" "j_state a \<in> {ACTIVE, RETRY, FAILED}"
    using assms(1) by (auto simp: blocks_def)
  then show ?thesis
  proof cases
    case 1
    with assms f show ?thesis by (intro exI [of _ Job_i2]) (simp add: index_defs blocks_def)
  next
    case 2
    with assms f show ?thesis by (intro exI [of _ Job_i3]) (simp add: index_defs blocks_def)
  next
    case 3
    with assms(1) have "j_policy a = Some ''key_strict_fifo''" by (simp add: blocks_def)
    with 3 assms(1-3) obtain k where "j_singleton_key a = Some k" "j_singleton_key h = Some k"
      by (auto simp: blocks_def job_check_def)
    with 3 assms f show ?thesis by (intro exI [of _ Job_i8]) (auto simp: index_defs blocks_def)
  qed
qed

section \<open>The outcome of a claim\<close>

definition no_overflow :: "job_row list \<Rightarrow> bool" where
  "no_overflow rows \<longleftrightarrow> (\<forall>j\<in>set rows. 0 \<le> j_retry_count j \<and> j_retry_count j + 1 < 2 ^ 31)"

lemma claim_set_ok: "no_overflow rows \<Longrightarrow> j \<in> set rows \<Longrightarrow> \<exists>j'. claim_set s j = Inr j'"
  by (auto simp: claim_set_def no_overflow_def)

lemma claim_jobs_outcome:
  assumes "no_overflow (jobs d)"
  obtains rows ret where "list_all2 (updated (claim_where name us) (claim_set s)) (jobs d) rows"
    "claim_jobs s name us d = bindr (check_unique rows) (\<lambda>_. Inr (d\<lparr>jobs := rows\<rparr>, ret))"
proof -
  note ok = claim_set_ok [OF assms]
  have "\<exists>rows. update_rows (claim_where name us) (claim_set s) (jobs d) = Inr rows"
    unfolding update_rows_def by (rule traverse_ok) (use ok in auto)
  then obtain rows where rows: "update_rows (claim_where name us) (claim_set s) (jobs d) = Inr rows" ..
  have "\<exists>ret. traverse (claim_set s) (filter (claim_where name us) (jobs d)) = Inr ret"
    by (rule traverse_ok) (use ok in auto)
  then obtain ret where ret: "traverse (claim_set s) (filter (claim_where name us) (jobs d)) = Inr ret" ..
  have "claim_jobs s name us d = bindr (check_unique rows) (\<lambda>_. Inr (d\<lparr>jobs := rows\<rparr>, ret))"
    using rows ret by (simp add: claim_jobs_def update_jobs_def)
  then show ?thesis using rows by (intro that [of rows ret]) (auto simp: update_rows_iff)
qed

lemma distinct_map_filter:
  "distinct xs \<Longrightarrow> (\<And>x y k. x \<in> set xs \<Longrightarrow> y \<in> set xs \<Longrightarrow> f x = Some k \<Longrightarrow> f y = Some k \<Longrightarrow> x = y) \<Longrightarrow>
   distinct (List.map_filter f xs)"
  by (induction xs) (fastforce simp: List.map_filter_simps set_map_filter_iff split: option.split)+

lemma check_unique_violated: "\<not> unique_index i rows \<Longrightarrow> \<exists>i. check_unique rows = Inl (UniqueViolation i)"
  by (cases "check_unique rows") (auto simp: check_unique_def find_None_iff split: option.splits)

text \<open>
  The table after the claim, row by row: the rows of the batch are active, the others as before.
\<close>

definition became :: "job_row list \<Rightarrow> job_row \<Rightarrow> job_row \<Rightarrow> bool" where
  "became batch j j' \<longleftrightarrow>
     frame_of j' = frame_of j \<and> j_state j' = (if j \<in> set batch then ACTIVE else j_state j) \<and>
     (j \<notin> set batch \<longrightarrow> j' = j)"

definition claimed_table :: "job_row list \<Rightarrow> job_row list \<Rightarrow> job_row list \<Rightarrow> bool" where
  "claimed_table batch old rows \<longleftrightarrow>
     distinct (map job_pk old) \<and> (\<forall>i. unique_index i old) \<and> (\<forall>j\<in>set old. job_check j) \<and>
     (\<forall>h\<in>set batch. h \<in> set old \<and> j_state h < ACTIVE) \<and> list_all2 (became batch) old rows"

lemma frame_active [simp]: "frame_of (a\<lparr>j_state := x\<rparr>) = frame_of a"
  by (simp add: frame_of_def)

lemma became_blocks:
  "became batch a a' \<Longrightarrow> blocks a' h = blocks (if a \<in> set batch then a\<lparr>j_state := ACTIVE\<rparr> else a) h"
  by (rule blocks_cong) (simp_all add: became_def)

lemma became_pk: "became batch a a' \<Longrightarrow> job_pk a' = job_pk a"
  by (auto simp: became_def dest: job_pk_frame)

lemma rows_pks: "list_all2 (became batch) old rows \<Longrightarrow> map job_pk rows = map job_pk old"
  by (induction rule: list_all2_induct) (auto simp: became_pk)

lemma collision_violates:
  assumes table: "claimed_table batch old rows" and "batch_collides batch old"
  shows "\<exists>i. \<not> unique_index i rows"
proof -
  from assms(2) obtain h a where h: "h \<in> set batch" and a: "a \<in> set old" "a \<noteq> h"
    and blocks: "blocks (if a \<in> set batch then a\<lparr>j_state := ACTIVE\<rparr> else a) h" by (auto simp: batch_collides_def)
  have old: "h \<in> set old" and rows: "list_all2 (became batch) old rows" and pks: "distinct (map job_pk old)"
    and checks: "job_check h" "job_check a" using table h a(1) by (auto simp: claimed_table_def)
  from list_all2_in_left [OF rows old] obtain h' where h': "h' \<in> set rows" "became batch h h'" by blast
  from list_all2_in_left [OF rows a(1)] obtain a' where a': "a' \<in> set rows" "became batch a a'" by blast
  have "job_check a'" using checks(2) a'(2) by (auto simp: became_def job_check_def dest: same_frame)
  then obtain i k where k: "index_key i a' = Some k" "index_key i h' = Some k"
    using blocked_key [of a' h h'] blocks became_blocks [OF a'(2)] checks(1) h h'(2) by (auto simp: became_def)
  have "a' \<noteq> h'"
    using pk_inj [OF pks a(1) old] a(2) became_pk [OF a'(2)] became_pk [OF h'(2)] by auto
  with unique_index_inj [OF _ a'(1) h'(1) k] show ?thesis by blast
qed

lemma new_key_collides:
  assumes "claimed_table batch old rows" "h \<in> set batch" "became batch h h'" "a \<in> set old" "became batch a a'" "a \<noteq> h"
    "index_key i h' = Some k" "index_key i a' = Some k" "index_key i h \<noteq> Some k"
  shows "batch_collides batch old"
proof -
  have "blocks a' h"
    by (rule new_key_blocked [OF assms(7,8)]) (use assms in \<open>auto simp: claimed_table_def became_def\<close>)
  then show ?thesis using became_blocks [OF assms(5)] assms(2,4,6) unfolding batch_collides_def by blast
qed

lemma violation_collides:
  assumes table: "claimed_table batch old rows" and "\<not> unique_index i rows"
  shows "batch_collides batch old"
proof (rule ccontr)
  assume none: "\<not> batch_collides batch old"
  have rows: "list_all2 (became batch) old rows" and pks: "distinct (map job_pk old)" and unique: "unique_index i old"
    using table by (auto simp: claimed_table_def)
  have key: "index_key i x = Some k"
    if "x \<in> set old" "became batch x x'" "y \<in> set old" "became batch y y'" "x \<noteq> y"
      "index_key i x' = Some k" "index_key i y' = Some k" for x y x' y' k
    using new_key_collides [OF table, of x x' y y' i k] none that by (cases "x \<in> set batch") (auto simp: became_def)
  have "distinct (List.map_filter (index_key i) rows)"
  proof (rule distinct_map_filter)
    show "distinct rows" using pks rows_pks [OF rows] by (metis distinct_map)
    fix x' y' k assume r: "x' \<in> set rows" "y' \<in> set rows" "index_key i x' = Some k" "index_key i y' = Some k"
    obtain x where x: "x \<in> set old" "became batch x x'" using list_all2_in_right [OF rows r(1)] by blast
    obtain y where y: "y \<in> set old" "became batch y y'" using list_all2_in_right [OF rows r(2)] by blast
    have "x = y"
      using key [OF x y _ r(3,4)] key [OF y x _ r(4,3)] unique_index_inj [OF unique x(1) y(1)] by blast
    then have "job_pk x' = job_pk y'" using became_pk [OF x(2)] became_pk [OF y(2)] by simp
    with pks rows_pks [OF rows] r(1,2) show "x' = y'" by (metis pk_inj)
  qed
  with assms(2) show False by (simp add: unique_index_def)
qed

section \<open>Exactly when a fetch fails\<close>

lemma fetch_alone_outcome:
  fixes s :: pg and name :: string and n :: int
  defines "batch d \<equiv> take (nat n) (claim_queue s name (jobs d))"
  assumes "db_ok d" "no_overflow (jobs d)" "0 \<le> n"
  shows "if batch_collides (batch d) (jobs d) then \<exists>i. fetch_next_job s name n None d = Inl (UniqueViolation i)
    else ok (fetch_next_job s name n None d)"
proof -
  have pks: "distinct (map job_pk (jobs d))" and unique: "\<forall>i. unique_index i (jobs d)"
    and checks: "\<forall>j\<in>set (jobs d). job_check j" using assms(2) by (auto simp: db_ok_def jobs_ok_def job_row_ok_def)
  define us where "us = map j_id (batch d)"
  have plan: "plan_of s name n None d d = Inr us"
    using assms(4)
    by (simp add: us_def batch_def plan_of_def fetch_plan_def select_next_alone claim_queue_def
        claimable_def [abs_def] limit_def)
  have fetch: "fetch_next_job s name n None d = claim_jobs s name us d"
    using plan by (simp add: fetch_next_job_def fetch_next_job_at_plan)
  from assms(3) obtain rows ret where rows: "list_all2 (updated (claim_where name us) (claim_set s)) (jobs d) rows"
    and claim: "claim_jobs s name us d = bindr (check_unique rows) (\<lambda>_. Inr (d\<lparr>jobs := rows\<rparr>, ret))"
    by (rule claim_jobs_outcome)
  have "list_all2 (became (batch d)) (jobs d) rows"
    using rows
  proof (rule list.rel_mono_strong)
    fix j j' assume j: "j \<in> set (jobs d)" "updated (claim_where name us) (claim_set s) j j'"
    then show "became (batch d) j j'"
      using alone_claims [OF pks plan j(1)]
      by (auto simp: updated_def became_def batch_def claimed_to_def dest: claim_set_Inr split: if_splits)
  qed
  then have table: "claimed_table (batch d) (jobs d) rows"
    using pks unique checks
    by (auto simp: claimed_table_def batch_def claimable_def fetch_where_def dest!: in_set_takeD)
  show ?thesis
  proof (cases "batch_collides (batch d) (jobs d)")
    case True
    from collision_violates [OF table this] obtain i where "\<not> unique_index i rows" by blast
    from check_unique_violated [OF this] True show ?thesis by (auto simp: fetch claim)
  next
    case False
    with violation_collides [OF table] have "check_unique rows = Inr ()" by auto
    with False show ?thesis by (simp add: fetch claim del: check_unique_Inr)
  qed
qed

text \<open>C27. Exactly when a plain fetch fails: on correct tables it succeeds if and only if no job of the batch
  it picks, the best claimable jobs, shares its policy key with a row that holds the key already (a
  singleton or stately job that is active, a strict-fifo job that is active, failed or waiting for
  its retry) or with another job of the batch. Otherwise it ends in a unique violation and claims
  nothing, and so does every later fetch of that batch.\<close>
theorem fetch_succeeds_iff:
  assumes "db_ok d" "no_overflow (jobs d)" "0 \<le> n"
  shows "if batch_collides (take (nat n) (claim_queue s name (jobs d))) (jobs d)
    then \<exists>i. fetch_next_job s name n None d = Inl (UniqueViolation i)
    else \<exists>d' rows. fetch_next_job s name n None d = Inr (d', rows)"
  using fetch_alone_outcome [OF assms, of s name]
  by (cases "batch_collides (take (nat n) (claim_queue s name (jobs d))) (jobs d)") (auto elim!: ok_pair)

text \<open>Two jobs of one key on a singleton queue: a worker with a batch size of two gets neither, ever.\<close>

definition twins_sample :: db where
  "twins_sample = sample_db [sample_queue ''q'' ''singleton'']
     [sample_job ''q'' ''singleton'' 1 CREATED, sample_job ''q'' ''singleton'' 2 CREATED]"

theorem fetch_succeeds_iff_witness:
  "(\<exists>i. fetch_next_job sample_pg ''q'' 2 None twins_sample = Inl (UniqueViolation i)) \<and>
   (\<exists>d' rows. fetch_next_job sample_pg ''q'' 1 None twins_sample = Inr (d', rows))"
proof -
  have ok: "db_ok twins_sample" "no_overflow (jobs twins_sample)" by code_simp+
  have "batch_collides (take (nat 2) (claim_queue sample_pg ''q'' (jobs twins_sample))) (jobs twins_sample)"
    "\<not> batch_collides (take (nat 1) (claim_queue sample_pg ''q'' (jobs twins_sample))) (jobs twins_sample)" by code_simp+
  with fetch_succeeds_iff [OF ok, of 2 sample_pg "''q''"] fetch_succeeds_iff [OF ok, of 1 sample_pg "''q''"]
  show ?thesis by auto
qed

lemma head_of_queue:
  assumes "distinct (map job_pk rows)" "h \<in> set rows" "claimable s name h"
    "\<forall>j\<in>set rows. claimable s name j \<longrightarrow> fetch_order h \<le> fetch_order j" "1 \<le> n"
  shows "h \<in> set (take (nat n) (claim_queue s name rows))"
proof -
  let ?q = "claim_queue s name rows"
  from assms(2,3) have hq: "h \<in> set ?q" by simp
  then have len: "0 < length ?q" by (rule length_pos_if_in_set)
  then have q0: "?q ! 0 \<in> set ?q" by (rule nth_mem)
  obtain m where m: "m < length ?q" "?q ! m = h" using hq by (metis in_set_conv_nth)
  have "fetch_order (?q ! 0) \<le> fetch_order h"
    using claim_queue_order [of 0 m s name rows] m by (cases m) auto
  moreover have "fetch_order h \<le> fetch_order (?q ! 0)" using assms(4) q0 by simp
  ultimately have "fetch_order (?q ! 0) = fetch_order h" by simp
  then have "?q ! 0 = h"
    using fetch_order_strict [OF assms(1), of "?q ! 0" h] q0 assms(2,3)
    by (auto simp: claimable_def fetch_where_def)
  with len assms(5) show ?thesis by (auto simp: in_set_conv_nth intro!: exI [of _ 0])
qed

text \<open>The head of the queue alone decides already: a blocked best job blocks every batch.\<close>
theorem blocked_head_fails:
  assumes "db_ok d" "no_overflow (jobs d)" "1 \<le> n" "h \<in> set (jobs d)" "claimable s name h"
    "\<forall>j\<in>set (jobs d). claimable s name j \<longrightarrow> fetch_order h \<le> fetch_order j"
    "a \<in> set (jobs d)" "blocks a h" "\<not> claimable s name a"
  shows "\<exists>i. fetch_next_job s name n None d = Inl (UniqueViolation i)"
proof -
  let ?batch = "take (nat n) (claim_queue s name (jobs d))"
  have "distinct (map job_pk (jobs d))" using assms(1) by (simp add: db_ok_def jobs_ok_def)
  from head_of_queue [OF this assms(4,5,6,3)] have "h \<in> set ?batch" .
  moreover have "a \<notin> set ?batch" using assms(9) by (auto dest!: in_set_takeD)
  ultimately have "batch_collides ?batch (jobs d)"
    using assms(5,7,8,9) unfolding batch_collides_def by (intro bexI [of _ h] bexI [of _ a]) auto
  with fetch_alone_outcome [OF assms(1,2), of n s name] assms(3) show ?thesis by simp
qed

end
