(* ===== verification/Schedule_Sql.thy ===== *)
theory Schedule_Sql
  imports Job_Updates "HOL-Library.List_Lexorder" "HOL-Library.Char_ord" "HOL-Library.Product_Lexorder"
begin

text \<open>
  The statements of \<^verbatim>\<open>underboss/sql.py\<close> on the \<^verbatim>\<open>schedule\<close> and \<^verbatim>\<open>version\<close> tables: list, upsert and
  delete a cron schedule, and the claim of the cron tick through \<^verbatim>\<open>version.cron_on\<close>.
\<close>

definition get_schedules :: "db \<Rightarrow> schedule_row list" where
  "get_schedules d = sort_key (\<lambda>r. (sch_name r, sch_key r)) (schedules d)"

definition same_schedule :: "string \<Rightarrow> string \<Rightarrow> schedule_row \<Rightarrow> bool" where
  "same_schedule name key r \<longleftrightarrow> sch_name r = name \<and> sch_key r = key"

definition upsert_schedule ::
  "pg \<Rightarrow> string \<Rightarrow> string \<Rightarrow> string \<Rightarrow> string option \<Rightarrow> json option \<Rightarrow> json option \<Rightarrow> db \<Rightarrow> db_error + db"
  where
  "upsert_schedule s name key cron tz data options d =
     (if list_ex (same_schedule name key) (schedules d)
      then Inr (d\<lparr>schedules := map (\<lambda>r.
             if same_schedule name key r
             then r\<lparr>sch_cron := cron, sch_timezone := tz, sch_data := data,
                    sch_options := options, sch_updated_on := pg_now s\<rparr>
             else r) (schedules d)\<rparr>)
      else if queue_exists name d
      then Inr (d\<lparr>schedules := schedules d @
             [\<lparr>sch_name = name, sch_key = key, sch_cron = cron, sch_timezone = tz,
               sch_data = data, sch_options = options,
               sch_created_on = pg_now s, sch_updated_on = pg_now s\<rparr>]\<rparr>)
      else Inl ForeignKeyViolation)"

text \<open>\<^verbatim>\<open>WHERE name = $1 AND COALESCE(key, '') = $2\<close>; the column \<^verbatim>\<open>key\<close> is never NULL.\<close>

definition delete_schedule :: "string \<Rightarrow> string \<Rightarrow> db \<Rightarrow> db" where
  "delete_schedule name key d =
     d\<lparr>schedules := filter (\<lambda>r. \<not> same_schedule name key r) (schedules d)\<rparr>"

text \<open>
  The tick is won when more than \<open>interval\<close> seconds separate now from the last win; a tick never
  won counts as a week ago. One row comes back per version row updated.
\<close>

definition week :: int where
  "week = 604800 * second"

definition tick_elapsed :: "pg \<Rightarrow> version_row \<Rightarrow> rat" where
  "tick_elapsed s v = of_int (pg_now s - coalesce (v_cron_on v) (pg_now s - week)) / of_int second"

definition try_set_cron_time :: "pg \<Rightarrow> rat \<Rightarrow> db \<Rightarrow> db \<times> bool list" where
  "try_set_cron_time s interval d =
     (d\<lparr>versions := map (\<lambda>v. if interval < tick_elapsed s v then v\<lparr>v_cron_on := Some (pg_now s)\<rparr> else v)
          (versions d)\<rparr>,
      map (\<lambda>_. True) (filter (\<lambda>v. interval < tick_elapsed s v) (versions d)))"

section \<open>The constraints survive\<close>

lemma upsert_schedule_db_ok:
  assumes "db_ok d" "upsert_schedule s name key cron tz data options d = Inr d'"
  shows "db_ok d'"
proof -
  let ?k = "\<lambda>r. (sch_name r, sch_key r)"
  let ?f = "\<lambda>r. if same_schedule name key r
             then r\<lparr>sch_cron := cron, sch_timezone := tz, sch_data := data,
                    sch_options := options, sch_updated_on := pg_now s\<rparr> else r"
  have keys: "?k (?f r) = ?k r" for r by simp
  have "distinct (map ?k (map ?f (schedules d))) = distinct (map ?k (schedules d))"
    by (simp only: map_map comp_def keys)
  then have "schedules_ok d'"
    using assms
    by (auto simp: upsert_schedule_def db_ok_def schedules_ok_def list_ex_iff same_schedule_def
        image_iff split: if_splits)
  moreover have "d' = d\<lparr>schedules := schedules d'\<rparr>"
    using assms(2) by (auto simp: upsert_schedule_def split: if_splits)
  then have "queues_ok d' = queues_ok d" "jobs_ok d' = jobs_ok d" "versions d' = versions d"
    by (metis (no_types) db.select_convs db.surjective db.update_convs queues_ok_def jobs_ok_def row_ok_cong)+
  ultimately show ?thesis using assms(1) by (simp add: db_ok_def)
qed

lemma delete_schedule_db_ok: "db_ok d \<Longrightarrow> db_ok (delete_schedule name key d)"
  by (auto simp: db_ok_def queues_ok_def jobs_ok_def schedules_ok_def delete_schedule_def
      intro: distinct_map_filter)

lemma try_set_cron_time_db_ok:
  assumes "db_ok d"
  shows "db_ok (fst (try_set_cron_time s i d))"
proof -
  let ?f = "\<lambda>v. if i < tick_elapsed s v then v\<lparr>v_cron_on := Some (pg_now s)\<rparr> else v"
  have "map (v_version \<circ> ?f) (versions d) = map v_version (versions d)"
    by simp
  then have "distinct (map (v_version \<circ> ?f) (versions d)) = distinct (map v_version (versions d))"
    by (rule arg_cong)
  with assms show ?thesis
    by (simp add: db_ok_def queues_ok_def jobs_ok_def schedules_ok_def try_set_cron_time_def
        del: map_eq_conv)
qed

end
