(* ===== verification/Lifecycle.thy ===== *)
theory Lifecycle
  imports Failure Fetch_Blocks Queue_Sql Schedule_Sql
begin

text \<open>
  The tables over time. \<open>step\<close> is one statement or transaction of any node against the shared tables,
  labelled by the operation; nodes interleave freely because a step takes whatever tables it finds
  and any server (clock, random numbers, locked rows), and a fetch any snapshot. A statement that
  raises leaves the tables as they were and is no step. The invariants of all reachable tables are
  proved over these steps; the theories on the Python classes show that every call, worker turn,
  cron tick and sweep is a sequence of them.
\<close>

section \<open>Steps\<close>

datatype op = OpCreateQueue | OpDeleteQueue | OpInsert | OpFetch | OpComplete | OpFail | OpExpire
  | OpCancel | OpResume | OpRetry | OpDelete | OpDeleteOld | OpSchedule | OpUnschedule | OpTick

inductive step :: "op \<Rightarrow> db \<Rightarrow> db \<Rightarrow> bool" where
  create_queue: "create_queue s name o' d = Inr d' \<Longrightarrow> step OpCreateQueue d d'"
| delete_queue: "delete_queue name d = Inr d' \<Longrightarrow> step OpDeleteQueue d d'"
| insert: "insert_jobs s specs name d = Inr (d', ids) \<Longrightarrow> step OpInsert d d'"
| fetch: "fetch_next_job_at s name n gc snap d = Inr (d', rows) \<Longrightarrow> step OpFetch d d'"
| complete: "complete_jobs s name ids out d = Inr (d', rows) \<Longrightarrow> step OpComplete d d'"
| fail: "fail_by_id s name us out d = (Inr (), d') \<Longrightarrow> step OpFail d d'"
| expire: "fail_expired s d = (Inr (), d') \<Longrightarrow> step OpExpire d d'"
| cancel: "cancel_jobs s name ids d = Inr (d', rows) \<Longrightarrow> step OpCancel d d'"
| resume: "resume_jobs s name ids d = Inr (d', rows) \<Longrightarrow> step OpResume d d'"
| retry: "retry_jobs s name ids d = Inr (d', rows) \<Longrightarrow> step OpRetry d d'"
| delete: "delete_jobs s name ids d = Inr d' \<Longrightarrow> step OpDelete d d'"
| delete_old: "step OpDeleteOld d (delete_old_jobs s d)"
| schedule: "upsert_schedule s name key cron tz data options d = Inr d' \<Longrightarrow> step OpSchedule d d'"
| unschedule: "step OpUnschedule d (delete_schedule name key d)"
| tick: "step OpTick d (fst (try_set_cron_time s interval d))"

definition installed :: db where
  "installed = \<lparr>queues = [], jobs = [], schedules = [], versions = [\<lparr>v_version = 30, v_cron_on = None\<rparr>]\<rparr>"

text \<open>\<open>evolve\<close> is any sequence of steps, \<open>reachable\<close> the tables such a sequence makes of a fresh install.\<close>

definition evolve :: "db \<Rightarrow> db \<Rightarrow> bool" where
  "evolve = (\<lambda>d d'. \<exists>l. step l d d')\<^sup>*\<^sup>*"

definition reachable :: "db \<Rightarrow> bool" where
  "reachable d \<longleftrightarrow> evolve installed d"

lemma evolve_refl [simp, intro]: "evolve d d"
  by (simp add: evolve_def)

lemma step_evolve: "step l d d' \<Longrightarrow> evolve d d'"
  by (auto simp: evolve_def)

lemma evolve_trans [trans]: "evolve d d1 \<Longrightarrow> evolve d1 d2 \<Longrightarrow> evolve d d2"
  unfolding evolve_def by (rule rtranclp_trans)

lemma reachable_installed: "reachable installed"
  by (simp add: reachable_def)

lemma reachable_step: "reachable d \<Longrightarrow> step l d d' \<Longrightarrow> reachable d'"
  unfolding reachable_def using evolve_trans step_evolve by blast

text \<open>
  What an operation of the Python code makes of the tables is a sequence of steps, and its queues
  have one of the six policies. \<open>runs\<close> is the contract of a relation that every such sequence
  satisfies: the theories on the Python classes prove of each call, turn, tick and sweep that it
  satisfies any relation with this contract.
\<close>

locale runs =
  fixes R :: "db \<Rightarrow> db \<Rightarrow> bool"
  assumes R_refl: "R d d"
    and R_trans: "R d d1 \<Longrightarrow> R d1 d2 \<Longrightarrow> R d d2"
    and R_step: "step l d d' \<Longrightarrow> l \<noteq> OpCreateQueue \<Longrightarrow> R d d'"
    and R_create: "create_queue s name o' d = Inr d' \<Longrightarrow>
      arrow_text s o' ''policy'' = Some (QueuePolicy_value policy) \<Longrightarrow> R d d'"
begin

lemma fail_by_id_runs: "R d (snd (fail_by_id s name us out d))"
proof (cases "fail_by_id s name us out d")
  case (Pair r d')
  then show ?thesis
  proof (cases r)
    case (Inl e)
    with Pair have "d' = d" by (auto simp: fail_by_id_def elim: transaction_cases)
    with Pair show ?thesis by (simp add: R_refl)
  next
    case (Inr u)
    with Pair show ?thesis by (auto intro: R_step step.fail)
  qed
qed

lemma fail_expired_runs: "R d (snd (fail_expired s d))"
proof (cases "fail_expired s d")
  case (Pair r d')
  then show ?thesis
  proof (cases r)
    case (Inl e)
    with Pair have "d' = d" by (auto simp: fail_expired_def elim: transaction_cases)
    with Pair show ?thesis by (simp add: R_refl)
  next
    case (Inr u)
    with Pair show ?thesis by (auto intro: R_step step.expire)
  qed
qed

lemma fetch_runs: "fetch_next_job s name n gc d = Inr (d', rows) \<Longrightarrow> R d d'"
  unfolding fetch_next_job_def by (rule R_step [OF step.fetch]) simp_all

end

interpretation run: runs evolve
  by unfold_locales (auto intro: evolve_trans step_evolve step.create_queue)

section \<open>The constraints hold for ever\<close>

lemma fetch_db_ok:
  assumes "db_ok d" "fetch_next_job_at s name n gc snap d = Inr (d', rows)"
  shows "db_ok d'"
proof -
  from assms(2) obtain us where plan: "plan_of s name n gc snap d = Inr us"
    and claim: "claim_jobs s name us d = Inr (d', rows)"
    by (auto simp: fetch_next_job_at_plan)
  have "distinct (map job_pk (jobs d))" using assms(1) by (simp add: db_ok_def jobs_ok_def)
  from claim.keeps_db_ok [OF assms(1)] claim claim_of_plan [OF this plan] show ?thesis by metis
qed

lemma step_db_ok: "step l d d' \<Longrightarrow> db_ok d \<Longrightarrow> db_ok d'"
proof (induction rule: step.induct)
  case (create_queue s name o' d d')
  then show ?case by (rule create_queue_db_ok [rotated])
next
  case (delete_queue name d d')
  then show ?case by (rule delete_queue_db_ok [rotated])
next
  case (insert s specs name d d' ids)
  then show ?case by (rule insert_jobs_db_ok [rotated])
next
  case (fetch s name n gc snap d d' rows)
  then show ?case by (rule fetch_db_ok [rotated])
next
  case (complete s name ids out d d' rows)
  then show ?case by (auto simp: complete_jobs_def intro: complete.keeps_db_ok)
next
  case (fail s name us out d d')
  then show ?case using fail_by_id_db_ok [of d s name us out] by simp
next
  case (expire s d d')
  then show ?case using fail_expired_db_ok [of d s] by simp
next
  case (cancel s name ids d d' rows)
  then show ?case by (auto simp: cancel_jobs_def intro: cancel.keeps_db_ok)
next
  case (resume s name ids d d' rows)
  then show ?case by (auto simp: resume_jobs_def intro: resume.keeps_db_ok)
next
  case (retry s name ids d d' rows)
  then show ?case by (auto simp: retry_jobs_def intro: requeue.keeps_db_ok)
next
  case (delete s name ids d d')
  then show ?case by (auto simp: delete_jobs_def intro: delete_rows_db_ok)
next
  case (delete_old d s)
  then show ?case by (simp add: delete_old_jobs_def delete_rows_db_ok)
next
  case (schedule s name key cron tz data options d d')
  then show ?case by (rule upsert_schedule_db_ok [rotated])
next
  case (unschedule d name key)
  then show ?case by (rule delete_schedule_db_ok)
next
  case (tick d s interval)
  then show ?case by (rule try_set_cron_time_db_ok)
qed

lemma evolve_db_ok: "evolve d d' \<Longrightarrow> db_ok d \<Longrightarrow> db_ok d'"
  unfolding evolve_def by (induction rule: rtranclp_induct) (auto intro: step_db_ok)

lemma installed_db_ok: "db_ok installed"
  by (simp add: installed_def db_ok_def queues_ok_def jobs_ok_def schedules_ok_def unique_index_def
      List.map_filter_simps)

lemma reachable_ok: "reachable d \<Longrightarrow> db_ok d"
  unfolding reachable_def using evolve_db_ok installed_db_ok by blast


section \<open>One step moves a job along its lifecycle\<close>

definition moved :: "job_row \<Rightarrow> job_row \<Rightarrow> bool" where
  "moved j j' \<longleftrightarrow> j' = j \<or> frame_of j' = frame_of j \<and> may_move (j_state j) (j_state j')"

definition moves :: "job_row list \<Rightarrow> job_row list \<Rightarrow> bool" where
  "moves rows rows' \<longleftrightarrow> (\<forall>j\<in>set rows. \<forall>j'\<in>set rows'. job_pk j' = job_pk j \<longrightarrow> moved j j')"

lemma moved_pk: "moved j j' \<Longrightarrow> job_pk j' = job_pk j"
  by (auto simp: moved_def dest: job_pk_frame)

lemma moves_same: "distinct (map job_pk rows) \<Longrightarrow> set rows' \<subseteq> set rows \<Longrightarrow> moves rows rows'"
  unfolding moves_def moved_def using pk_inj by blast

lemma moves_all2:
  assumes "distinct (map job_pk rows)" "list_all2 moved rows rows'"
  shows "moves rows rows'"
  unfolding moves_def
proof (intro ballI impI)
  fix j j' assume "j \<in> set rows" "j' \<in> set rows'" "job_pk j' = job_pk j"
  moreover from list_all2_in_right [OF assms(2) this(2)] obtain i where "i \<in> set rows" "moved i j'" by blast
  ultimately show "moved j j'" using pk_inj [OF assms(1)] moved_pk by metis
qed

lemma moves_append:
  "moves rows rows' \<Longrightarrow> \<forall>j\<in>set new. job_pk j \<notin> job_pk ` set rows \<Longrightarrow> moves rows (rows' @ new)"
  by (auto simp: moves_def)

lemma insert_on_conflict_fresh:
  "j \<in> set (insert_on_conflict_do_nothing rows js) \<Longrightarrow> job_pk j \<notin> job_pk ` set rows"
  by (induction rows js rule: insert_on_conflict_do_nothing.induct)
     (auto simp: conflicts_def split: if_splits)

lemma route_fresh:
  "route s k rs d = Inr d' \<Longrightarrow>
   \<exists>new. jobs d' = jobs d @ new \<and> (\<forall>j\<in>set new. job_pk j \<notin> job_pk ` set (jobs d) \<and>
     j_state j = CREATED \<and> j_retry_count j = 0 \<and> j_started_on j = None)"
proof (induction s k rs d arbitrary: d' rule: route.induct)
  case (2 s k r rs d)
  show ?case
  proof (cases "routed r")
    case False
    with 2 show ?thesis by (auto simp: routed_def split: option.splits if_splits)
  next
    case True
    then obtain dlq where dlq: "j_dead_letter r = Some dlq" "j_state r = FAILED"
      by (auto simp: routed_def)
    with "2.prems" obtain d1 where d1: "route_to_dead_letter s k dlq (j_data r) (j_output r) d = Inr d1"
      "route s (Suc k) rs d1 = Inr d'" by auto
    from "2.IH"(2) [OF dlq d1] obtain new where new: "jobs d' = jobs d1 @ new"
      "\<forall>j\<in>set new. job_pk j \<notin> job_pk ` set (jobs d1) \<and> j_state j = CREATED \<and>
        j_retry_count j = 0 \<and> j_started_on j = None" by blast
    from d1(1) consider "jobs d1 = jobs d"
      | q where "jobs d1 = jobs d @ [dead_letter_row s k q (j_data r) (j_output r)]"
        "job_pk (dead_letter_row s k q (j_data r) (j_output r)) \<notin> job_pk ` set (jobs d)"
      by (auto simp: route_to_dead_letter_def Let_def split: option.splits if_splits)
    then show ?thesis
    proof cases
      case 2
      with new show ?thesis
        by (intro exI [of _ "dead_letter_row s k q (j_data r) (j_output r) # new"])
           (auto simp: dead_letter_row_def job_defaults_def)
    qed (use new in auto)
  qed
qed simp

lemma delete_rows_set: "set (jobs (delete_rows p d)) \<subseteq> set (jobs d)"
  by (auto simp: delete_rows_def)

lemma fetch_moves:
  assumes "db_ok d" "fetch_next_job_at s name n gc snap d = Inr (d', rows)"
  shows "list_all2 moved (jobs d) (jobs d')"
proof -
  from assms(2) obtain us where plan: "plan_of s name n gc snap d = Inr us"
    and claim: "claim_jobs s name us d = Inr (d', rows)"
    by (auto simp: fetch_next_job_at_plan)
  have "distinct (map job_pk (jobs d))" using assms(1) by (simp add: db_ok_def jobs_ok_def)
  from claim [unfolded claim_of_plan [OF this plan]] show ?thesis
    unfolding moved_def [abs_def] by (rule claim.follows_lifecycle)
qed

lemma fail_body_moves:
  assumes "db_ok d" "list_all2 moved (jobs d) (jobs d1)" "route s 0 rows d1 = Inr d'"
  shows "moves (jobs d) (jobs d')"
proof -
  from route_fresh [OF assms(3)] obtain new where new: "jobs d' = jobs d1 @ new"
    "\<forall>j\<in>set new. job_pk j \<notin> job_pk ` set (jobs d1)" by blast
  have "map job_pk (jobs d1) = map job_pk (jobs d)"
    by (rule list_all2_map_eq [OF assms(2)]) (rule moved_pk)
  then have "job_pk ` set (jobs d1) = job_pk ` set (jobs d)" by (metis set_map)
  moreover have "moves (jobs d) (jobs d1)"
    by (rule moves_all2 [OF _ assms(2)]) (use assms(1) in \<open>simp add: db_ok_def jobs_ok_def\<close>)
  ultimately show ?thesis using new by (simp add: moves_append)
qed

lemmas settle_defs = complete_jobs_def fail_jobs_def fail_expired_jobs_def cancel_jobs_def
  resume_jobs_def retry_jobs_def

lemmas follows = complete.follows_lifecycle fail.follows_lifecycle expire.follows_lifecycle
  cancel.follows_lifecycle resume.follows_lifecycle requeue.follows_lifecycle

lemma settle_moves:
  "complete_jobs s name ids out d = Inr (d', rows) \<Longrightarrow> list_all2 moved (jobs d) (jobs d')"
  "fail_jobs s name ids out d = Inr (d', rows) \<Longrightarrow> list_all2 moved (jobs d) (jobs d')"
  "fail_expired_jobs s d = Inr (d', rows) \<Longrightarrow> list_all2 moved (jobs d) (jobs d')"
  "cancel_jobs s name ids d = Inr (d', rows) \<Longrightarrow> list_all2 moved (jobs d) (jobs d')"
  "resume_jobs s name ids d = Inr (d', rows) \<Longrightarrow> list_all2 moved (jobs d) (jobs d')"
  "retry_jobs s name ids d = Inr (d', rows) \<Longrightarrow> list_all2 moved (jobs d) (jobs d')"
  unfolding moved_def [abs_def] by (auto simp: settle_defs intro: follows)

lemma transaction_Inr: "transaction f d = (Inr x, d') \<longleftrightarrow> f d = Inr (d', x)"
  by (auto simp: transaction_def split: sum.splits)

lemma fail_by_id_commit:
  "fail_by_id s name us out d = (Inr (), d') \<longleftrightarrow>
   (\<exists>d1 rows. fail_jobs s name (map (pg_uuid_out s) us) (Some (JObj out)) d = Inr (d1, rows) \<and>
     route s 0 rows d1 = Inr d')"
  by (auto simp: fail_by_id_def transaction_Inr fail_by_id_body_def)

lemma fail_expired_commit:
  "fail_expired s d = (Inr (), d') \<longleftrightarrow>
   (\<exists>d1 rows. fail_expired_jobs s d = Inr (d1, rows) \<and> route s 0 rows d1 = Inr d')"
  by (auto simp: fail_expired_def transaction_Inr fail_expired_body_def)

lemma quiet_steps:
  "create_queue s name o' d = Inr d' \<Longrightarrow> set (jobs d') \<subseteq> set (jobs d)"
  "delete_queue name d = Inr d' \<Longrightarrow> set (jobs d') \<subseteq> set (jobs d)"
  "delete_jobs s name ids d = Inr d' \<Longrightarrow> set (jobs d') \<subseteq> set (jobs d)"
  "upsert_schedule s name key cron tz data options d = Inr d' \<Longrightarrow> set (jobs d') \<subseteq> set (jobs d)"
  "set (jobs (delete_old_jobs s d)) \<subseteq> set (jobs d)"
  "set (jobs (delete_schedule name key d)) \<subseteq> set (jobs d)"
  "set (jobs (fst (try_set_cron_time s interval d))) \<subseteq> set (jobs d)"
  by (auto simp: create_queue_def delete_queue_def delete_jobs_def delete_old_jobs_def
      upsert_schedule_def delete_schedule_def try_set_cron_time_def Let_def delete_rows_def
      split: if_splits)

lemma step_moved:
  assumes "step l d d'" "db_ok d" "j \<in> set (jobs d)" "j' \<in> set (jobs d')" "job_pk j' = job_pk j"
  shows "moved j j'"
proof -
  have pks: "distinct (map job_pk (jobs d))" using assms(2) by (simp add: db_ok_def jobs_ok_def)
  note same = moves_same [OF pks] and all2 = moves_all2 [OF pks]
  note quiet = quiet_steps [THEN same] and settled = settle_moves [THEN all2]
  from assms(1) have "moves (jobs d) (jobs d')"
  proof (cases rule: step.cases)
    case (insert s specs name ids)
    have "moves (jobs d) (jobs d)" by (rule same) simp
    then show ?thesis using insert(2)
      by (auto elim!: insert_jobs_cases intro!: moves_append ballI insert_on_conflict_fresh)
  next
    case (fail s name us out)
    then show ?thesis unfolding fail_by_id_commit
      by (elim exE conjE) (rule fail_body_moves [OF assms(2) settle_moves(2)])
  next
    case (expire s)
    then show ?thesis unfolding fail_expired_commit
      by (elim exE conjE) (rule fail_body_moves [OF assms(2) settle_moves(3)])
  next
    case (fetch s name n gc snap rows)
    then show ?thesis by (intro all2 fetch_moves [OF assms(2)])
  qed (auto intro: quiet settled)
  with assms(3-5) show ?thesis by (simp add: moves_def)
qed

text \<open>One step of any node moves a job only along the lifecycle: a job in the table before and
  after is unchanged, or its state went by one of the seven moves (claim, complete, retry, fail,
  cancel, resume, requeue) and only the eight mutable columns differ. In particular a completed
  job never changes again.\<close>
theorem step_moves:
  assumes "step l d d'" "db_ok d"
  shows "\<forall>j\<in>set (jobs d). \<forall>j'\<in>set (jobs d'). job_pk j' = job_pk j \<longrightarrow> moved j j'"
  using step_moved [OF assms] by blast

definition attempt_sample :: db where
  "attempt_sample = sample_db [sample_queue ''q'' ''standard'']
     [sample_job ''q'' ''standard'' 1 ACTIVE, sample_job ''q'' ''standard'' 2 COMPLETED]"

theorem step_moves_witness:
  "\<exists>d'. step OpComplete attempt_sample d' \<and> map j_state (jobs d') = [COMPLETED, COMPLETED] \<and>
     (\<forall>j\<in>set (jobs attempt_sample). \<forall>j'\<in>set (jobs d'). job_pk j' = job_pk j \<longrightarrow> moved j j')"
proof -
  have "case complete_jobs sample_pg ''q'' [''1''] None attempt_sample of Inl e \<Rightarrow> False
    | Inr (d', r) \<Rightarrow> map j_state (jobs d') = [COMPLETED, COMPLETED]" by code_simp
  then obtain d' r where c: "complete_jobs sample_pg ''q'' [''1''] None attempt_sample = Inr (d', r)"
    and st: "map j_state (jobs d') = [COMPLETED, COMPLETED]" by (auto split: sum.splits)
  have "db_ok attempt_sample" by code_simp
  from step_moves [OF step.complete [OF c] this] step.complete [OF c] st show ?thesis
    by (intro exI [of _ d'] conjI)
qed

section \<open>No orphans\<close>

text \<open>A short run on a queue of a given policy: one job is sent and claimed.\<close>

definition run_sample :: "string \<Rightarrow> db_error + db" where
  "run_sample policy =
     bindr (create_queue sample_pg ''q'' (JObj [(''policy'', JStr policy)]) installed) (\<lambda>d1.
     bindr (insert_jobs sample_pg [JObj []] ''q'' d1) (\<lambda>(d2, ids).
     bindr (fetch_next_job sample_pg ''q'' 1 None d2) (\<lambda>(d3, rows). Inr d3)))"

lemma run_sample_reachable:
  assumes "run_sample policy = Inr d"
  shows "reachable d"
proof -
  from assms obtain d1 d2 ids rows
    where 1: "create_queue sample_pg ''q'' (JObj [(''policy'', JStr policy)]) installed = Inr d1"
    and 2: "insert_jobs sample_pg [JObj []] ''q'' d1 = Inr (d2, ids)"
    and 3: "fetch_next_job_at sample_pg ''q'' 1 None d2 d2 = Inr (d, rows)"
    by (auto simp: run_sample_def fetch_next_job_def)
  from reachable_step [OF reachable_installed step.create_queue [OF 1]] have "reachable d1" .
  from reachable_step [OF this step.insert [OF 2]] have "reachable d2" .
  from reachable_step [OF this step.fetch [OF 3]] show ?thesis .
qed

text \<open>No orphans: in every reachable table queue names and job keys are unique, every job and every
  schedule belongs to a queue that exists, and every dead-letter reference, of a job or a queue,
  points to an existing queue and never from a queue to itself.\<close>
theorem no_orphans:
  assumes "reachable d"
  shows "distinct (map q_name (queues d)) \<and> distinct (map job_pk (jobs d)) \<and>
    (\<forall>j\<in>set (jobs d). queue_exists (j_name j) d \<and> fk_ok (j_dead_letter j) d) \<and>
    (\<forall>r\<in>set (schedules d). queue_exists (sch_name r) d) \<and>
    (\<forall>q\<in>set (queues d). q_dead_letter q \<noteq> Some (q_name q) \<and> fk_ok (q_dead_letter q) d)"
  using reachable_ok [OF assms]
  by (auto simp: db_ok_def queues_ok_def jobs_ok_def schedules_ok_def job_row_ok_def queue_row_ok_def)

theorem no_orphans_witness:
  "\<exists>d. run_sample ''standard'' = Inr d \<and> jobs d \<noteq> [] \<and> (\<forall>j\<in>set (jobs d). queue_exists (j_name j) d)"
proof -
  have "case run_sample ''standard'' of Inl e \<Rightarrow> False | Inr d \<Rightarrow> jobs d \<noteq> []" by code_simp
  then obtain d where "run_sample ''standard'' = Inr d" "jobs d \<noteq> []" by (auto split: sum.splits)
  with no_orphans [OF run_sample_reachable] show ?thesis by blast
qed

section \<open>How often a job runs\<close>

definition attempts_ok :: "job_row \<Rightarrow> bool" where
  "attempts_ok j \<longleftrightarrow> j_retry_count j \<le> j_retry_limit j \<and>
     (j_state j = RETRY \<longrightarrow> j_retry_count j < j_retry_limit j) \<and>
     (j_state j = CREATED \<longrightarrow> j_retry_count j = 0 \<and> j_started_on j = None)"

text \<open>Runs without a resume, in which no job is given a negative retry limit.\<close>

inductive unresumed :: "db \<Rightarrow> bool" where
  start: "unresumed installed"
| next_step: "unresumed d \<Longrightarrow> step l d d' \<Longrightarrow> l \<noteq> OpResume \<Longrightarrow>
    \<forall>j\<in>set (jobs d'). 0 \<le> j_retry_limit j \<Longrightarrow> unresumed d'"

lemma unresumed_reachable: "unresumed d \<Longrightarrow> reachable d"
  by (induction rule: unresumed.induct) (auto intro: reachable_installed reachable_step)

lemma job_row_of_attempts:
  "job_row_of s q k x = Inr j \<Longrightarrow> 0 \<le> j_retry_limit j \<Longrightarrow> attempts_ok j"
  by (auto simp: job_row_of_def job_defaults_def attempts_ok_def)

lemma set_clause_attempts:
  "attempts_ok j \<Longrightarrow> attempts_ok (complete_set s out j)"
  "attempts_ok j \<Longrightarrow> attempts_ok (retry_or_fail_set s out j)"
  "attempts_ok j \<Longrightarrow> attempts_ok (cancel_set s j)"
  "attempts_ok j \<Longrightarrow> retry_set j = Inr j' \<Longrightarrow> attempts_ok j'"
  "attempts_ok j \<Longrightarrow> j_state j < ACTIVE \<Longrightarrow> claim_set s j = Inr j' \<Longrightarrow> attempts_ok j'"
  by (auto simp: attempts_ok_def complete_set_def retry_or_fail_set_def cancel_set_def retry_set_Inr
      claim_set_def split: if_splits)

lemma updated_attempts:
  assumes "update_jobs sel upd d = Inr (d', rows)" "\<forall>j\<in>set (jobs d). attempts_ok j"
    "\<And>j j'. attempts_ok j \<Longrightarrow> sel j \<Longrightarrow> upd j = Inr j' \<Longrightarrow> attempts_ok j'"
  shows "\<forall>j\<in>set (jobs d'). attempts_ok j"
proof
  fix j' assume "j' \<in> set (jobs d')"
  from list_all2_in_right [OF update_jobs_rows [OF assms(1)] this] assms(2,3) show "attempts_ok j'"
    by (auto simp: updated_def split: if_splits)
qed

lemma settle_attempts:
  assumes "\<forall>j\<in>set (jobs d). attempts_ok j"
  shows "complete_jobs s name ids out d = Inr (d', rows) \<Longrightarrow> \<forall>j\<in>set (jobs d'). attempts_ok j"
    "fail_jobs s name ids out d = Inr (d', rows) \<Longrightarrow> \<forall>j\<in>set (jobs d'). attempts_ok j"
    "fail_expired_jobs s d = Inr (d', rows) \<Longrightarrow> \<forall>j\<in>set (jobs d'). attempts_ok j"
    "cancel_jobs s name ids d = Inr (d', rows) \<Longrightarrow> \<forall>j\<in>set (jobs d'). attempts_ok j"
    "retry_jobs s name ids d = Inr (d', rows) \<Longrightarrow> \<forall>j\<in>set (jobs d'). attempts_ok j"
  unfolding settle_defs bindr_eq_Inr
  by ((elim exE conjE)?, erule updated_attempts [OF _ assms], (auto intro: set_clause_attempts)[1])+

lemma routed_attempts:
  assumes "\<forall>j\<in>set (jobs d1). attempts_ok j" "route s 0 rows d1 = Inr d'"
    "\<forall>j\<in>set (jobs d'). 0 \<le> j_retry_limit j"
  shows "\<forall>j\<in>set (jobs d'). attempts_ok j"
  using route_fresh [OF assms(2)] assms(1,3) by (fastforce simp: attempts_ok_def)

lemma insert_attempts:
  assumes "\<forall>j\<in>set (jobs d). attempts_ok j" "insert_jobs s specs name d = Inr (d', ids)"
    "\<forall>j\<in>set (jobs d'). 0 \<le> j_retry_limit j"
  shows "\<forall>j\<in>set (jobs d'). attempts_ok j"
  using assms(2)
proof (cases rule: insert_jobs_cases)
  case (queue q rows)
  have "attempts_ok j" if "j \<in> set (insert_on_conflict_do_nothing (jobs d) rows)" for j
  proof -
    from that insert_on_conflict_subset have "j \<in> set rows" by blast
    from rows_of_specs_mem [OF queue(2) this] that queue(5) assms(3) show ?thesis
      by (auto intro: job_row_of_attempts)
  qed
  with assms(1) queue(5) show ?thesis by auto
qed (use assms(1) in simp)

lemma fetch_attempts:
  assumes "db_ok d" "\<forall>j\<in>set (jobs d). attempts_ok j"
    "fetch_next_job_at s name n gc snap d = Inr (d', rows)"
  shows "\<forall>j\<in>set (jobs d'). attempts_ok j"
proof -
  from assms(3) obtain us where plan: "plan_of s name n gc snap d = Inr us"
    and claim: "claim_jobs s name us d = Inr (d', rows)"
    by (auto simp: fetch_next_job_at_plan)
  have "distinct (map job_pk (jobs d))" using assms(1) by (simp add: db_ok_def jobs_ok_def)
  from claim [unfolded claim_of_plan [OF this plan]] assms(2) show ?thesis
    by (rule updated_attempts) (auto intro: set_clause_attempts(5))
qed

lemma step_attempts:
  assumes "step l d d'" "l \<noteq> OpResume" "db_ok d" "\<forall>j\<in>set (jobs d). attempts_ok j"
    "\<forall>j\<in>set (jobs d'). 0 \<le> j_retry_limit j"
  shows "\<forall>j\<in>set (jobs d'). attempts_ok j"
proof -
  have quiet: "set rows \<subseteq> set (jobs d) \<Longrightarrow> \<forall>j\<in>set rows. attempts_ok j" for rows
    using assms(4) by blast
  note quiet = quiet_steps [THEN quiet] and settled = settle_attempts [OF assms(4)]
  from assms(1) show ?thesis
  proof (cases rule: step.cases)
    case (insert s specs name ids)
    from insert_attempts [OF assms(4) insert(2) assms(5)] show ?thesis .
  next
    case (fetch s name n gc snap rows)
    from fetch_attempts [OF assms(3,4) fetch(2)] show ?thesis .
  next
    case (fail s name us out)
    then show ?thesis unfolding fail_by_id_commit
      by (elim exE conjE) (rule routed_attempts [OF settled(2) _ assms(5)])
  next
    case (expire s)
    then show ?thesis unfolding fail_expired_commit
      by (elim exE conjE) (rule routed_attempts [OF settled(3) _ assms(5)])
  next
    case resume
    with assms(2) show ?thesis by simp
  next
    case (create_queue s name o')
    from quiet(1) [OF create_queue(2)] show ?thesis .
  next
    case (delete_queue name)
    from quiet(2) [OF delete_queue(2)] show ?thesis .
  next
    case (delete s name ids)
    from quiet(3) [OF delete(2)] show ?thesis .
  next
    case (schedule s name key cron tz data options)
    from quiet(4) [OF schedule(2)] show ?thesis .
  next
    case (complete s name ids out rows)
    from settled(1) [OF complete(2)] show ?thesis .
  next
    case (cancel s name ids rows)
    from settled(4) [OF cancel(2)] show ?thesis .
  next
    case (retry s name ids rows)
    from settled(5) [OF retry(2)] show ?thesis .
  qed (auto intro: quiet(5-7) [THEN bspec])
qed

lemma unresumed_attempts: "unresumed d \<Longrightarrow> \<forall>j\<in>set (jobs d). attempts_ok j"
proof (induction rule: unresumed.induct)
  case (next_step d l d')
  then show ?case using step_attempts reachable_ok unresumed_reachable by blast
qed (simp add: installed_def)

text \<open>C15. Attempts are bounded: as long as nobody resumes a cancelled job, every job in the table has
  been retried at most \<^verbatim>\<open>retry_limit\<close> times, so it has run at most \<^verbatim>\<open>retry_limit + 1\<close> times, whatever
  crashes, time-outs, cancellations and manual retries came in between; a job waiting for its
  retry has one left.\<close>
theorem attempts_bounded:
  assumes "unresumed d" "j \<in> set (jobs d)"
  shows "j_retry_count j \<le> j_retry_limit j \<and>
    (j_state j = RETRY \<longrightarrow> j_retry_count j < j_retry_limit j)"
  using unresumed_attempts [OF assms(1)] assms(2) by (auto simp: attempts_ok_def)

theorem attempts_bounded_witness:
  "\<exists>d j. unresumed d \<and> j \<in> set (jobs d) \<and> j_state j = RETRY \<and> j_retry_count j < j_retry_limit j"
proof -
  let ?fail = "fail_by_id sample_pg ''q'' [1000] []"
  let ?q = "create_queue sample_pg ''q'' (JObj [(''policy'', JStr ''standard'')]) installed"
  let ?i = "\<lambda>d. insert_jobs sample_pg [JObj []] ''q'' d"
  let ?f = "\<lambda>d. fetch_next_job_at sample_pg ''q'' 1 None d d"
  let ?limits = "\<lambda>d. \<forall>j\<in>set (jobs d). 0 \<le> j_retry_limit j"
  have "case ?q of Inl e \<Rightarrow> False | Inr d1 \<Rightarrow> ?limits d1 \<and> (case ?i d1 of Inl e \<Rightarrow> False
      | Inr (d2, r2) \<Rightarrow> ?limits d2 \<and> (case ?f d2 of Inl e \<Rightarrow> False
      | Inr (d3, r3) \<Rightarrow> ?limits d3 \<and> fst (?fail d3) = Inr () \<and> ?limits (snd (?fail d3)) \<and>
          map j_state (jobs (snd (?fail d3))) = [RETRY]))" by code_simp
  then obtain d1 d2 r2 d3 r3 where 1: "?q = Inr d1" "?limits d1" and 2: "?i d1 = Inr (d2, r2)" "?limits d2"
    and 3: "?f d2 = Inr (d3, r3)" "?limits d3" and 4: "fst (?fail d3) = Inr ()" "?limits (snd (?fail d3))"
    and st: "map j_state (jobs (snd (?fail d3))) = [RETRY]"
    by (auto split: sum.splits)
  have f: "?fail d3 = (Inr (), snd (?fail d3))" using 4(1) by (simp add: prod_eq_iff)
  have "unresumed d1" by (rule next_step [OF start step.create_queue [OF 1(1)] _ 1(2)]) simp
  then have "unresumed d2" by (rule next_step [OF _ step.insert [OF 2(1)] _ 2(2)]) simp
  then have "unresumed d3" by (rule next_step [OF _ step.fetch [OF 3(1)] _ 3(2)]) simp
  then have u: "unresumed (snd (?fail d3))" by (rule next_step [OF _ step.fail [OF f] _ 4(2)]) simp
  from st obtain j where "j \<in> set (jobs (snd (?fail d3)))" "j_state j = RETRY"
    by (cases "jobs (snd (?fail d3))") auto
  with attempts_bounded [OF u] u show ?thesis by blast
qed

text \<open>A resume costs an attempt: a job with \<^verbatim>\<open>retry_limit\<close> 0 that is claimed, cancelled, resumed and
  claimed again has used one more attempt than its limit allows, because a resume keeps
  \<^verbatim>\<open>started_on\<close> and the next claim then counts as a retry.\<close>
theorem resume_costs_an_attempt:
  "\<exists>d j. reachable d \<and> j \<in> set (jobs d) \<and> j_state j = ACTIVE \<and> j_retry_limit j < j_retry_count j"
proof -
  let ?q = "create_queue sample_pg ''q'' (JObj [(''policy'', JStr ''standard''), (''retryLimit'', JNum 0)]) installed"
  let ?i = "\<lambda>d. insert_jobs sample_pg [JObj []] ''q'' d"
  let ?f = "\<lambda>d. fetch_next_job_at sample_pg ''q'' 1 None d d"
  let ?c = "cancel_jobs sample_pg ''q'' [''1000'']"
  let ?r = "resume_jobs sample_pg ''q'' [''1000'']"
  let ?run = "bindr ?q (\<lambda>d1. bindr (?i d1) (\<lambda>(d2, r2). bindr (?f d2) (\<lambda>(d3, r3).
    bindr (?c d3) (\<lambda>(d4, r4). bindr (?r d4) (\<lambda>(d5, r5). ?f d5)))))"
  have "case ?run of Inl e \<Rightarrow> False | Inr (d, rows) \<Rightarrow>
      list_ex (\<lambda>j. j_state j = ACTIVE \<and> j_retry_limit j < j_retry_count j) (jobs d)" by code_simp
  then obtain d rows where "?run = Inr (d, rows)"
    and j: "list_ex (\<lambda>j. j_state j = ACTIVE \<and> j_retry_limit j < j_retry_count j) (jobs d)"
    by (auto split: sum.splits)
  then obtain d1 d2 r2 d3 r3 d4 r4 d5 r5 where run: "?q = Inr d1" "?i d1 = Inr (d2, r2)" "?f d2 = Inr (d3, r3)"
    "?c d3 = Inr (d4, r4)" "?r d4 = Inr (d5, r5)" "?f d5 = Inr (d, rows)" by auto
  have "reachable d1" by (rule reachable_step [OF reachable_installed step.create_queue [OF run(1)]])
  then have "reachable d2" by (rule reachable_step [OF _ step.insert [OF run(2)]])
  then have "reachable d3" by (rule reachable_step [OF _ step.fetch [OF run(3)]])
  then have "reachable d4" by (rule reachable_step [OF _ step.cancel [OF run(4)]])
  then have "reachable d5" by (rule reachable_step [OF _ step.resume [OF run(5)]])
  then have "reachable d" by (rule reachable_step [OF _ step.fetch [OF run(6)]])
  with j show ?thesis by (auto simp: list_ex_iff)
qed

end
