(* ===== verification/Schema_Rows.thy ===== *)
theory Schema_Rows
  imports Schema_Meaning Lifecycle
begin

text \<open>
  The statements that write rows, against the DDL: every INSERT of the program names existing
  columns, leaves to DEFAULT what its model row leaves out and supplies every NOT NULL column; and in
  every reachable table each row has exactly the declared columns, each with a value of its type,
  32-bit range included.
\<close>

section \<open>INSERT column lists\<close>

definition given :: "string list \<Rightarrow> sql_row \<Rightarrow> sql_row" where
  "given cs r = map (\<lambda>c. (c, cell r c)) cs"

definition insert_jobs_columns :: "string list" where
  "insert_jobs_columns =
     [''id'', ''name'', ''data'', ''priority'', ''start_after'', ''singleton_key'', ''singleton_on'',
      ''group_id'', ''group_tier'', ''expire_seconds'', ''deletion_seconds'', ''keep_until'',
      ''retry_limit'', ''retry_delay'', ''retry_backoff'', ''retry_delay_max'', ''policy'',
      ''dead_letter'', ''heartbeat_seconds'']"

definition dead_letter_columns :: "string list" where
  "dead_letter_columns =
     [''name'', ''data'', ''output'', ''retry_limit'', ''retry_delay'', ''retry_backoff'',
      ''keep_until'', ''deletion_seconds'']"

definition create_queue_columns :: "string list" where
  "create_queue_columns =
     [''name'', ''policy'', ''retry_limit'', ''retry_delay'', ''retry_backoff'', ''retry_delay_max'',
      ''expire_seconds'', ''retention_seconds'', ''deletion_seconds'', ''warning_queued'',
      ''dead_letter'', ''partition'', ''table_name'', ''heartbeat_seconds'']"

definition upsert_schedule_columns :: "string list" where
  "upsert_schedule_columns = [''name'', ''key'', ''cron'', ''timezone'', ''data'', ''options'']"

text \<open>A list of columns fits a row when DEFAULT gives the columns it leaves out the values they have.\<close>

lemma map_of_given: "map_of (given cs r) n = (if n \<in> set cs then Some (cell r n) else None)"
  unfolding given_def by (induction cs) auto

lemma traverse_cells:
  assumes "\<And>c. c \<in> set cols \<Longrightarrow> col_name c \<in> set cs \<or>
      default_value s u (col_default c) = Inr (cell r (col_name c))"
  shows "traverse (\<lambda>c. case map_of (given cs r) (col_name c) of
      Some v \<Rightarrow> Inr (col_name c, v)
    | None \<Rightarrow> bindr (default_value s u (col_default c)) (\<lambda>v. Inr (col_name c, v))) cols =
    Inr (map (\<lambda>c. (col_name c, cell r (col_name c))) cols)"
proof (rule traverse_eq_map)
  fix c assume "c \<in> set cols"
  then show "(case map_of (given cs r) (col_name c) of
      Some v \<Rightarrow> Inr (col_name c, v)
    | None \<Rightarrow> bindr (default_value s u (col_default c)) (\<lambda>v. Inr (col_name c, v))) =
    Inr (col_name c, cell r (col_name c))"
    using assms [of c] by (auto simp: map_of_given)
qed

lemma row_fits:
  assumes "list_all (\<lambda>n. n \<in> set (map col_name cols)) cs"
    "list_all (\<lambda>c. col_name c \<in> set cs \<or> default_value s u (col_default c) = Inr (cell r (col_name c))) cols"
    "map (\<lambda>c. (col_name c, cell r (col_name c))) cols = r"
    "list_all (\<lambda>c. required cons c \<longrightarrow> cell r (col_name c) \<noteq> VNull) cols"
  shows "row_with_defaults s u (CREATE_TABLE n cols cons) (given cs r) = Inr r"
proof -
  have "set (map fst (given cs r)) \<subseteq> set (map col_name cols)"
    using assms(1) by (auto simp: given_def list_all_iff)
  moreover have "c \<in> set cols \<Longrightarrow> col_name c \<in> set cs \<or>
      default_value s u (col_default c) = Inr (cell r (col_name c))" for c
    using assms(2) by (auto simp: list_all_iff)
  ultimately show ?thesis
    using assms(3,4) by (auto simp: row_with_defaults_def traverse_cells list_all_iff)
qed

lemmas fits_simps = column_defs required_def key_columns_def cell_def job_cells_def queue_cells_def
  schedule_cells_def version_cells_def insert_jobs_columns_def dead_letter_columns_def
  create_queue_columns_def upsert_schedule_columns_def

lemma default_interval: "interval_in_ok s \<Longrightarrow> pg_add_interval s t ''1209600'' = Some (t + 1209600 * second)"
proof -
  have "str_of_int 1209600 = ''1209600''"
    by (simp add: str_of_int_def str_of_nat.simps [of 1209600] str_of_nat.simps [of 120960]
        str_of_nat.simps [of 12096] str_of_nat.simps [of 1209] str_of_nat.simps [of 120]
        str_of_nat.simps [of 12] str_of_nat.simps [of "Suc 0"] digit_def digits_def)
  then show "interval_in_ok s \<Longrightarrow> ?thesis" unfolding interval_in_ok_def by metis
qed

lemma insert_job_fits:
  assumes "job_row_of s q k x = Inr j"
  shows "row_with_defaults s u create_table_job (given insert_jobs_columns (job_cells j)) = Inr (job_cells j)"
proof -
  from assms have "j_state j = CREATED" "j_retry_count j = 0" "j_created_on j = pg_now s"
    "j_started_on j = None" "j_completed_on j = None" "j_output j = None" "j_heartbeat_on j = None"
    by (auto simp: job_row_of_def job_defaults_def)
  then show ?thesis
    unfolding create_table_job_def by (intro row_fits) (simp_all add: fits_simps)
qed

lemma dead_letter_fits:
  "row_with_defaults s (pg_gen_uuid s k) create_table_job
     (given dead_letter_columns (job_cells (dead_letter_row s k q data out))) =
   Inr (job_cells (dead_letter_row s k q data out))"
  unfolding create_table_job_def
  by (intro row_fits) (simp_all add: fits_simps dead_letter_row_def job_defaults_def)

lemma queue_fits:
  assumes "queue_row_of s name o' = Inr q"
  shows "row_with_defaults s u create_table_queue (given create_queue_columns (queue_cells q)) = Inr (queue_cells q)"
proof -
  from assms have "q_created_on q = pg_now s" "q_updated_on q = pg_now s"
    by (auto simp: queue_row_of_def)
  then show ?thesis
    unfolding create_table_queue_def by (intro row_fits) (simp_all add: fits_simps)
qed

lemma schedule_fits:
  "sch_created_on r = pg_now s \<Longrightarrow> sch_updated_on r = pg_now s \<Longrightarrow>
   row_with_defaults s u create_table_schedule (given upsert_schedule_columns (schedule_cells r)) =
   Inr (schedule_cells r)"
  unfolding create_table_schedule_def by (intro row_fits) (simp_all add: fits_simps)

lemma version_fits:
  "row_with_defaults s u create_table_version
     (given [''version''] (version_cells \<lparr>v_version = v, v_cron_on = None\<rparr>)) =
   Inr (version_cells \<lparr>v_version = v, v_cron_on = None\<rparr>)"
  unfolding create_table_version_def by (intro row_fits) (simp_all add: fits_simps)

lemma defaults_fit:
  assumes "interval_in_ok s"
  shows "row_with_defaults s i create_table_job (given [''name''] (job_cells (job_defaults s i n))) =
    Inr (job_cells (job_defaults s i n))"
  unfolding create_table_job_def
  by (intro row_fits) (simp_all add: fits_simps job_defaults_def default_interval [OF assms])

text \<open>C32. Every INSERT of the program fits its table: the columns it names exist, no NOT NULL column is
  left without a value, and the row that goes in, the DEFAULT clauses filling the columns the
  statement leaves out, is the row of the model, for new jobs, dead-letter copies, queues, schedules
  and the version. \<open>job_defaults\<close> is the row of the DEFAULT clauses alone.\<close>
theorem inserts_fit_schema:
  assumes "interval_in_ok s"
  shows "(job_row_of s q k x = Inr j \<longrightarrow>
      row_with_defaults s u create_table_job (given insert_jobs_columns (job_cells j)) = Inr (job_cells j)) \<and>
    row_with_defaults s (pg_gen_uuid s k) create_table_job
      (given dead_letter_columns (job_cells (dead_letter_row s k q data out))) =
      Inr (job_cells (dead_letter_row s k q data out)) \<and>
    (queue_row_of s name o' = Inr q' \<longrightarrow>
      row_with_defaults s u create_table_queue (given create_queue_columns (queue_cells q')) = Inr (queue_cells q')) \<and>
    (sch_created_on r = pg_now s \<longrightarrow> sch_updated_on r = pg_now s \<longrightarrow>
      row_with_defaults s u create_table_schedule (given upsert_schedule_columns (schedule_cells r)) =
      Inr (schedule_cells r)) \<and>
    row_with_defaults s u create_table_version (given [''version''] (version_cells \<lparr>v_version = v, v_cron_on = None\<rparr>)) =
      Inr (version_cells \<lparr>v_version = v, v_cron_on = None\<rparr>) \<and>
    row_with_defaults s i create_table_job (given [''name''] (job_cells (job_defaults s i n))) =
      Inr (job_cells (job_defaults s i n))"
  using insert_job_fits [of s q k x j u] dead_letter_fits [of s k q data out] queue_fits [of s name o' q' u]
    schedule_fits [of r s u] version_fits [of s u v] defaults_fit [OF assms, of i n] by blast

theorem inserts_fit_schema_witness:
  "row_with_defaults sample_pg 7 create_table_job (given [''name''] (job_cells (job_defaults sample_pg 7 ''q''))) =
     Inr (job_cells (job_defaults sample_pg 7 ''q''))"
proof -
  have "interval_in_ok sample_pg" by (simp add: interval_in_ok_def sample_pg_def)
  from inserts_fit_schema [OF this] show ?thesis by blast
qed

text \<open>
  The function \<^verbatim>\<open>job_table_run_async\<close>, which the program installs and never calls: one row into \<^verbatim>\<open>bam\<close>,
  whatever table and queue it is given.
\<close>

definition udf_job_table_run_async ::
  "pg \<Rightarrow> uuid \<Rightarrow> string \<Rightarrow> int \<Rightarrow> string \<Rightarrow> string \<Rightarrow> string \<Rightarrow> db_error + sql_row" where
  "udf_job_table_run_async s u command_name version command tbl_name queue =
     row_with_defaults s u create_table_bam
       [(''name'', VText command_name), (''version'', VInt version), (''status'', VText ''pending''),
        (''queue'', VNull), (''table_name'', VText ''job''), (''command'', VText command)]"

lemma run_async_row:
  "\<exists>r. udf_job_table_run_async s u command_name version command tbl_name queue = Inr r \<and>
     cell r ''id'' = VUuid u \<and> cell r ''command'' = VText command \<and> cell r ''created_on'' = VTime (pg_now s)"
  by (simp add: udf_job_table_run_async_def row_with_defaults_def create_table_bam_def column_defs
      required_def key_columns_def cell_def)

section \<open>RETURNING of the fetch\<close>

definition JOB_COLUMNS_MIN :: "string list" where
  "JOB_COLUMNS_MIN = [''id'', ''name'', ''data'', ''expire_seconds'', ''group_id'', ''group_tier'']"

definition JOB_COLUMNS_META :: "string list" where
  "JOB_COLUMNS_META =
     [''state'', ''priority'', ''retry_limit'', ''retry_count'', ''started_on'', ''created_on'']"

definition fetch_columns :: "bool \<Rightarrow> string list" where
  "fetch_columns include_metadata = JOB_COLUMNS_MIN @ (if include_metadata then JOB_COLUMNS_META else [])"

text \<open>The keys \<^verbatim>\<open>_row_to_job\<close> asks of a row, in its order.\<close>

definition row_to_job_reads :: "bool \<Rightarrow> string list" where
  "row_to_job_reads include_metadata =
     (if include_metadata
      then [''state'', ''priority'', ''retry_limit'', ''retry_count'', ''started_on'', ''created_on''] else [])
     @ [''id'', ''name'', ''data'', ''expire_seconds'', ''group_id'', ''group_tier'']"

text \<open>A job's row as the statement returns it has every key that is asked for, with the row's value.\<close>

lemma fetch_columns_read:
  assumes "c \<in> set (row_to_job_reads m)"
  shows "c \<in> set (map fst (job_cells j))" "map_of (given (fetch_columns m) (job_cells j)) c = Some (cell (job_cells j) c)"
proof -
  have "c \<in> set (fetch_columns m)"
    using assms by (auto simp: row_to_job_reads_def fetch_columns_def JOB_COLUMNS_MIN_def JOB_COLUMNS_META_def
      split: if_splits)
  then show "map_of (given (fetch_columns m) (job_cells j)) c = Some (cell (job_cells j) c)"
    by (simp add: map_of_given)
  show "c \<in> set (map fst (job_cells j))"
    using assms by (auto simp: row_to_job_reads_def job_cells_def split: if_splits)
qed

section \<open>Column types\<close>

definition has_type :: "sql_type \<Rightarrow> sql_value \<Rightarrow> bool" where
  "has_type t v \<longleftrightarrow>
     (case v of
        VNull \<Rightarrow> True
      | VInt i \<Rightarrow> t = Int_t \<and> int4_ok i
      | VText x \<Rightarrow> t = Text_t
      | VBool b \<Rightarrow> t = Bool_t
      | VJson j \<Rightarrow> t = Jsonb_t
      | VUuid u \<Rightarrow> t = Uuid_t
      | VTime x \<Rightarrow> t = Timestamptz_t
      | VStamp x \<Rightarrow> t = Timestamp_t
      | VState x \<Rightarrow> t = Enum_t ''job_state'' \<and> x \<in> set JOB_STATES)"

lemma has_type_simps [simp]:
  "has_type t VNull" "has_type t (VInt i) = (t = Int_t \<and> int4_ok i)" "has_type t (VText x) = (t = Text_t)"
  "has_type t (VBool b) = (t = Bool_t)" "has_type t (VUuid u) = (t = Uuid_t)"
  "has_type t (VTime i) = (t = Timestamptz_t)"
  "has_type t (VState y) = (t = Enum_t ''job_state'' \<and> y \<in> set JOB_STATES)"
  by (simp_all add: has_type_def)

definition row_typed :: "column list \<Rightarrow> table_constraint list \<Rightarrow> sql_row \<Rightarrow> bool" where
  "row_typed cols cons r \<longleftrightarrow>
     map fst r = map col_name cols \<and>
     list_all (\<lambda>c. has_type (col_type c) (cell r (col_name c)) \<and>
       (required cons c \<longrightarrow> cell r (col_name c) \<noteq> VNull)) cols"

fun stmt_typed :: "relation \<Rightarrow> ddl \<Rightarrow> bool" where
  "stmt_typed rel (CREATE_TABLE n cols cons) = (\<forall>r\<in>set (rel n). row_typed cols cons r)"
| "stmt_typed rel _ = True"

definition tables_typed :: "ddl list \<Rightarrow> relation \<Rightarrow> bool" where
  "tables_typed stmts rel \<longleftrightarrow> (\<forall>s\<in>set stmts. stmt_typed rel s)"

text \<open>What is left to show of the record tables: their integers are 32-bit.\<close>

definition job_ints_ok :: "job_row \<Rightarrow> bool" where
  "job_ints_ok j \<longleftrightarrow>
     int4_ok (j_priority j) \<and> int4_ok (j_retry_limit j) \<and> int4_ok (j_retry_count j) \<and>
     int4_ok (j_retry_delay j) \<and> int4_opt_ok (j_retry_delay_max j) \<and> int4_ok (j_expire_seconds j) \<and>
     int4_ok (j_deletion_seconds j) \<and> int4_opt_ok (j_heartbeat_seconds j)"

definition queue_ints_ok :: "queue_row \<Rightarrow> bool" where
  "queue_ints_ok q \<longleftrightarrow>
     int4_ok (q_retry_limit q) \<and> int4_ok (q_retry_delay q) \<and> int4_opt_ok (q_retry_delay_max q) \<and>
     int4_ok (q_expire_seconds q) \<and> int4_ok (q_retention_seconds q) \<and> int4_ok (q_deletion_seconds q) \<and>
     int4_ok (q_warning_queued q) \<and> int4_opt_ok (q_heartbeat_seconds q)"

definition ints_ok :: "db \<Rightarrow> bool" where
  "ints_ok d \<longleftrightarrow>
     (\<forall>j\<in>set (jobs d). job_ints_ok j) \<and> (\<forall>q\<in>set (queues d). queue_ints_ok q) \<and>
     (\<forall>v\<in>set (versions d). int4_ok (v_version v))"

lemma has_type_nulls:
  "has_type Int_t (nulls VInt v) = int4_opt_ok v" "has_type Text_t (nulls VText t)"
  "has_type Jsonb_t (nulls VJson x)" "has_type Timestamptz_t (nulls VTime i)"
  "has_type Timestamp_t (nulls VStamp i)"
  by (auto simp: nulls_def int4_opt_ok_def has_type_def split: option.splits)

lemmas typed_simps = row_typed_def column_defs required_def key_columns_def cell_def has_type_nulls

lemma small_ints [simp]: "int4_ok 0" "int4_ok 2" "int4_ok 900" "int4_ok 604800" "int4_ok 1209600" "int4_ok 30"
  by (simp_all add: int4_ok_def)

lemma tables_typed_ints: "tables_typed (build_schema v b) (rows_of d) \<longleftrightarrow> ints_ok d"
proof -
  have state: "x \<in> set JOB_STATES" for x by (cases x) (simp_all add: JOB_STATES_def)
  have "stmt_typed (rows_of d) create_table_job \<longleftrightarrow> (\<forall>j\<in>set (jobs d). job_ints_ok j)"
    by (simp add: create_table_job_def typed_simps job_cells_def job_ints_ok_def state)
  moreover have "stmt_typed (rows_of d) create_table_queue \<longleftrightarrow> (\<forall>q\<in>set (queues d). queue_ints_ok q)"
    by (simp add: create_table_queue_def typed_simps queue_cells_def queue_ints_ok_def)
  moreover have "stmt_typed (rows_of d) create_table_schedule"
    by (simp add: create_table_schedule_def typed_simps schedule_cells_def)
  moreover have "stmt_typed (rows_of d) create_table_version \<longleftrightarrow> (\<forall>v\<in>set (versions d). int4_ok (v_version v))"
    by (simp add: create_table_version_def typed_simps version_cells_def)
  moreover have "stmt_typed (rows_of d) s"
    if "s \<in> set [create_enum_job_state, create_table_subscription, create_table_bam, create_table_warning,
      job_table_format_function, job_table_run_async_function, create_job_i1, create_job_i2, create_job_i3,
      create_job_i6, create_job_i8, create_job_i4, create_job_i5, create_job_i7, index_warning,
      create_queue_function, delete_queue_function, insert_version v, CREATE_SCHEMA]" for s
    using that by (auto simp: ddl_defs)
  ultimately show ?thesis unfolding tables_typed_def by (auto simp: build_schema_def [of v b] ints_ok_def)
qed

section \<open>They stay typed\<close>

lemma cast_int4_ok: "cast_int4 t = Inr v \<Longrightarrow> int4_opt_ok v"
  by (auto simp: cast_int4_def int4_opt_ok_def int4_ok_def split: option.splits)

lemma coalesce_ok: "int4_opt_ok v \<Longrightarrow> int4_ok n \<Longrightarrow> int4_ok (coalesce v n)"
  by (cases v) (simp_all add: int4_opt_ok_def)

lemma coalesce2_ok: "int4_opt_ok v \<Longrightarrow> int4_opt_ok w \<Longrightarrow> int4_opt_ok (coalesce2 v w)"
  by (cases v) simp_all

lemma queue_row_of_ints: "queue_row_of s name o' = Inr q \<Longrightarrow> queue_ints_ok q"
  by (auto simp: queue_row_of_def queue_ints_ok_def intro!: coalesce_ok dest!: cast_int4_ok)

lemma job_row_of_ints:
  assumes "job_spec_of s x = Inr y" "job_row_of s q k y = Inr j" "queue_ints_ok q"
  shows "job_ints_ok j"
proof -
  from assms(1) have "int4_opt_ok (js_priority y)" "int4_opt_ok (js_retry_limit y)"
    "int4_opt_ok (js_retry_delay y)" "int4_opt_ok (js_retry_delay_max y)"
    "int4_opt_ok (js_expire_in_seconds y)" "int4_opt_ok (js_delete_after_seconds y)"
    "int4_opt_ok (js_heartbeat_seconds y)"
    by (auto simp: job_spec_of_def dest!: cast_int4_ok)
  with assms(2,3) show ?thesis
    by (auto simp: job_row_of_def job_defaults_def job_ints_ok_def queue_ints_ok_def
        intro!: coalesce_ok coalesce2_ok)
qed

text \<open>An UPDATE keeps them when its SET clause does.\<close>

lemma update_ints:
  assumes "update_jobs sel upd d = Inr (d', ret)" "ints_ok d"
    "\<And>j j'. upd j = Inr j' \<Longrightarrow> job_ints_ok j \<Longrightarrow> job_ints_ok j'"
  shows "ints_ok d'"
proof -
  have "job_ints_ok j'" if "j' \<in> set (jobs d')" for j'
    using list_all2_in_right [OF update_jobs_rows [OF assms(1)] that] assms(2,3)
    by (auto simp: updated_def ints_ok_def split: if_splits)
  with update_jobs_only_jobs [OF assms(1)] assms(2) show ?thesis by (simp add: ints_ok_def)
qed

lemma set_clause_ints:
  "job_ints_ok (complete_set s out j) = job_ints_ok j" "job_ints_ok (retry_or_fail_set s out j) = job_ints_ok j"
  "job_ints_ok (cancel_set s j) = job_ints_ok j" "job_ints_ok (resume_set j) = job_ints_ok j"
  "retry_set j = Inr j' \<Longrightarrow> job_ints_ok j \<Longrightarrow> job_ints_ok j'"
  "claim_set s j = Inr j' \<Longrightarrow> job_ints_ok j \<Longrightarrow> job_ints_ok j'"
  by (auto simp: complete_set_def retry_or_fail_set_def cancel_set_def resume_set_def retry_set_def
      claim_set_def job_ints_ok_def int4_ok_def split: if_splits)

lemma settle_ints:
  "complete_jobs s name ids out d = Inr (d', rows) \<Longrightarrow> ints_ok d \<Longrightarrow> ints_ok d'"
  "fail_jobs s name ids out d = Inr (d', rows) \<Longrightarrow> ints_ok d \<Longrightarrow> ints_ok d'"
  "fail_expired_jobs s d = Inr (d', rows) \<Longrightarrow> ints_ok d \<Longrightarrow> ints_ok d'"
  "cancel_jobs s name ids d = Inr (d', rows) \<Longrightarrow> ints_ok d \<Longrightarrow> ints_ok d'"
  "resume_jobs s name ids d = Inr (d', rows) \<Longrightarrow> ints_ok d \<Longrightarrow> ints_ok d'"
  "retry_jobs s name ids d = Inr (d', rows) \<Longrightarrow> ints_ok d \<Longrightarrow> ints_ok d'"
  "claim_jobs s name us d = Inr (d', rows) \<Longrightarrow> ints_ok d \<Longrightarrow> ints_ok d'"
  by (auto simp: settle_defs claim_jobs_def set_clause_ints elim!: update_ints)

lemma dead_letter_row_ints: "queue_ints_ok q \<Longrightarrow> job_ints_ok (dead_letter_row s k q data out)"
  by (simp add: dead_letter_row_def job_defaults_def job_ints_ok_def queue_ints_ok_def int4_opt_ok_def)

lemma route_ints: "route s k rs d = Inr d' \<Longrightarrow> ints_ok d \<Longrightarrow> ints_ok d'"
proof (induction s k rs d arbitrary: d' rule: route.induct)
  case (2 s k r rs d)
  have "ints_ok d1" if "route_to_dead_letter s k dlq data out d = Inr d1" for dlq data out d1
    using that "2.prems"(2)
    by (auto simp: route_to_dead_letter_def Let_def ints_ok_def
        intro!: dead_letter_row_ints dest!: find_queue_Some split: option.splits if_splits)
  with 2 show ?case by (auto split: option.splits if_splits)
qed simp

lemma step_ints: "step l d d' \<Longrightarrow> ints_ok d \<Longrightarrow> ints_ok d'"
proof (induction rule: step.induct)
  case (create_queue s name o' d d')
  then show ?case
    by (auto simp: create_queue_def ints_ok_def dest: queue_row_of_ints split: if_splits)
next
  case (delete_queue name d d')
  then show ?case by (auto simp: delete_queue_def ints_ok_def delete_rows_def Let_def split: if_splits)
next
  case (insert s specs name d d' ids)
  from insert(1) show ?case
  proof (cases rule: insert_jobs_cases)
    case (queue q rows)
    from queue(1) insert(2) have "queue_ints_ok q" by (auto simp: ints_ok_def dest!: find_queue_Some)
    then have "j \<in> set rows \<Longrightarrow> job_ints_ok j" for j
      using rows_of_specs_mem [OF queue(2)] job_row_of_ints by blast
    with queue(5) insert(2) insert_on_conflict_subset [of "jobs d" rows] show ?thesis
      by (auto simp: ints_ok_def)
  qed (use insert in simp)
next
  case (fetch s name n gc snap d d' rows)
  then show ?case by (auto simp: fetch_next_job_at_plan intro: settle_ints)
next
  case (fail s name us out d d')
  then show ?case by (auto simp: fail_by_id_commit intro: route_ints settle_ints)
next
  case (expire s d d')
  then show ?case by (auto simp: fail_expired_commit intro: route_ints settle_ints)
next
  case (delete s name ids d d')
  then show ?case by (auto simp: delete_jobs_def ints_ok_def delete_rows_def)
next
  case (delete_old d s)
  then show ?case by (auto simp: delete_old_jobs_def ints_ok_def delete_rows_def)
next
  case (schedule s name key cron tz data options d d')
  then show ?case by (auto simp: upsert_schedule_def ints_ok_def split: if_splits)
next
  case (unschedule d name key)
  then show ?case by (simp add: delete_schedule_def ints_ok_def)
next
  case (tick d s interval)
  then show ?case by (auto simp: try_set_cron_time_def ints_ok_def)
qed (auto intro: settle_ints)

lemma evolve_ints: "evolve d d' \<Longrightarrow> ints_ok d \<Longrightarrow> ints_ok d'"
  unfolding evolve_def by (induction rule: rtranclp_induct) (auto intro: step_ints)

lemma reachable_ints: "reachable d \<Longrightarrow> ints_ok d"
  unfolding reachable_def using evolve_ints [of installed d] by (simp add: ints_ok_def installed_def)

text \<open>C31. Every reachable table obeys the installed schema: the keys, references, checks and unique indexes of
  the DDL hold, so that no job, schedule or dead-letter setting ever names a queue that is not
  there, and each row of each table has exactly the declared columns, each cell a value of its
  column's type, integers within 32 bits, and no NULL in a NOT NULL or primary key column. In
  particular the failure clause, which computes \<^verbatim>\<open>retry_count + 1\<close> only while retries are left,
  never overflows.\<close>
theorem schema_kept:
  assumes "reachable d"
  shows "schema_holds (build_schema v b) (rows_of d) \<and> tables_typed (build_schema v b) (rows_of d) \<and>
    (\<forall>j\<in>set (jobs d). j_retry_count j < j_retry_limit j \<longrightarrow> int4 (j_retry_count j + 1) = Inr (j_retry_count j + 1))"
  using reachable_ints [OF assms] reachable_ok [OF assms]
  by (auto simp: schema_holds_iff tables_typed_ints ints_ok_def job_ints_ok_def int4_ok_def)

theorem schema_kept_witness:
  "\<exists>d. run_sample ''exclusive'' = Inr d \<and> tables_typed (build_schema 30 True) (rows_of d)"
proof -
  have "ok (run_sample ''exclusive'')" by code_simp
  then obtain d where d: "run_sample ''exclusive'' = Inr d" by (blast dest: ok_Inr)
  with schema_kept [OF run_sample_reachable [OF d]] show ?thesis by blast
qed

end
