(* ===== verification/Calendar.thy ===== *)
theory Calendar
  imports Pg_Engine
begin

text \<open>
  What \<^verbatim>\<open>_isoformat_z\<close> of \<^verbatim>\<open>underboss/underboss.py\<close> uses of Python's \<^verbatim>\<open>datetime\<close>: the proleptic
  Gregorian calendar date of a day number, and \<^verbatim>\<open>isoformat()\<close> of an instant in UTC. An aware datetime
  is its instant in microseconds since the epoch; \<^verbatim>\<open>astimezone(UTC)\<close> keeps the instant. The date
  arithmetic is shown to invert the calendar's own definition of a day number.
\<close>

section \<open>Day numbers\<close>

definition is_leap :: "int \<Rightarrow> bool" where
  "is_leap y \<longleftrightarrow> y mod 4 = 0 \<and> (y mod 100 \<noteq> 0 \<or> y mod 400 = 0)"

definition month_days :: "bool \<Rightarrow> int list" where
  "month_days leap = [31, if leap then 29 else 28, 31, 30, 31, 30, 31, 31, 30, 31, 30, 31]"

definition days_before_year :: "int \<Rightarrow> int" where
  "days_before_year y = (y - 1) * 365 + (y - 1) div 4 - (y - 1) div 100 + (y - 1) div 400"

text \<open>January 1st of year 1 is day 1; months count from 0 here.\<close>

definition ymd2ord :: "int \<Rightarrow> nat \<Rightarrow> int \<Rightarrow> int" where
  "ymd2ord y m d = days_before_year y + sum_list (take m (month_days (is_leap y))) + d"

fun month_of :: "int list \<Rightarrow> int \<Rightarrow> nat \<times> int" where
  "month_of [] n = (0, n)"
| "month_of [k] n = (0, n)"
| "month_of (k # ks) n =
     (if n < k then (0, n) else (case month_of ks (n - k) of (m, r) \<Rightarrow> (Suc m, r)))"

definition ord2ymd :: "int \<Rightarrow> int \<times> nat \<times> int" where
  "ord2ymd n =
     (let n0 = n - 1; a = n0 div 146097; n1 = n0 mod 146097; b = n1 div 36524; n2 = n1 mod 36524;
          c = n2 div 1461; n3 = n2 mod 1461; e = n3 div 365; r = n3 mod 365;
          y = 400 * a + 100 * b + 4 * c + e + 1
      in if e = 4 \<or> b = 4 then (y - 1, 11, 31)
         else case month_of (month_days (is_leap y)) r of (m, d) \<Rightarrow> (y, m, d + 1))"

lemma month_of_sum:
  "month_of ks n = (m, r) \<Longrightarrow> sum_list (take m ks) + r = n"
  by (induction ks n arbitrary: m r rule: month_of.induct) (auto split: if_splits prod.splits)

lemma month_of_bounds:
  "month_of ks n = (m, r) \<Longrightarrow> ks \<noteq> [] \<Longrightarrow> 0 \<le> n \<Longrightarrow> n < sum_list ks \<Longrightarrow>
   m < length ks \<and> 0 \<le> r \<and> r < ks ! m"
  by (induction ks n arbitrary: m r rule: month_of.induct) (auto split: if_splits prod.splits)

lemma sum_month_days: "sum_list (month_days leap) = (if leap then 366 else 365)"
  by (simp add: month_days_def)

lemma length_month_days [simp]: "length (month_days leap) = 12"
  by (simp add: month_days_def)

text \<open>The cycles of 400, 100, 4 and 1 years.\<close>

lemma div_mod_facts:
  fixes n k :: int
  assumes "0 < k"
  shows "n = k * (n div k) + n mod k" "0 \<le> n mod k" "n mod k < k"
  using assms by simp_all

lemma cycles:
  fixes n n1 n2 n3 a b c e r :: int
  assumes "0 \<le> n" and a: "n = 146097 * a + n1" "0 \<le> n1" "n1 < 146097"
    and b: "n1 = 36524 * b + n2" "0 \<le> n2" "n2 < 36524"
    and c: "n2 = 1461 * c + n3" "0 \<le> n3" "n3 < 1461"
    and e: "n3 = 365 * e + r" "0 \<le> r" "r < 365"
  shows "n = 146097 * a + 36524 * b + 1461 * c + 365 * e + r" "0 \<le> b" "b \<le> 4"
    "0 \<le> c" "c \<le> 24" "0 \<le> e" "e \<le> 4"
    "b = 4 \<longrightarrow> c = 0 \<and> e = 0 \<and> r = 0" "e = 4 \<longrightarrow> r = 0 \<and> c \<le> 23"
proof -
  show "n = 146097 * a + 36524 * b + 1461 * c + 365 * e + r" using a b c e by simp
  show "0 \<le> b" "b \<le> 4" using a(2,3) b by arith+
  show c0: "0 \<le> c" "c \<le> 24" using b(2,3) c by arith+
  show e0: "0 \<le> e" "e \<le> 4" using c(2,3) e by arith+
  show "b = 4 \<longrightarrow> c = 0 \<and> e = 0 \<and> r = 0"
  proof
    assume "b = 4"
    then have "n2 = 0" using a(3) b by simp
    with c c0 have "c = 0" "n3 = 0" by arith+
    with e e0 show "c = 0 \<and> e = 0 \<and> r = 0" by arith
  qed
  show "e = 4 \<longrightarrow> r = 0 \<and> c \<le> 23"
  proof
    assume "e = 4"
    then have "r = 0" "n3 = 1460" using c(3) e by arith+
    with b(3) c show "r = 0 \<and> c \<le> 23" by arith
  qed
qed

lemma div_cycles:
  fixes a b c e :: int
  assumes "0 \<le> b" "b \<le> 3" "0 \<le> c" "c \<le> 24" "0 \<le> e" "e \<le> 3"
  shows "(400 * a + 100 * b + 4 * c + e) div 4 = 100 * a + 25 * b + c"
    "(400 * a + 100 * b + 4 * c + e) div 100 = 4 * a + b"
    "(400 * a + 100 * b + 4 * c + e) div 400 = a"
  using assms
  by (auto intro: int_div_pos_eq [where r = e] int_div_pos_eq [where r = "4 * c + e"]
      int_div_pos_eq [where r = "100 * b + 4 * c + e"])

lemma days_before_cycles:
  fixes a b c e :: int
  assumes "0 \<le> b" "b \<le> 3" "0 \<le> c" "c \<le> 24" "0 \<le> e" "e \<le> 3"
  shows "days_before_year (400 * a + 100 * b + 4 * c + e + 1) = 146097 * a + 36524 * b + 1461 * c + 365 * e"
  using div_cycles [OF assms, of a] by (simp add: days_before_year_def)

lemma year_bound:
  fixes k a b c e r :: int
  assumes "k = 146097 * a + 36524 * b + 1461 * c + 365 * e + r" "k \<le> 3652058"
    "0 \<le> a" "0 \<le> b" "0 \<le> c" "0 \<le> e" "0 \<le> r" "b \<le> 4" "c \<le> 24" "e \<le> 4"
  shows "400 * a + 100 * b + 4 * c + e + 1 \<le> 9999"
proof -
  have "a \<le> 24" using assms by arith
  show ?thesis
  proof (cases "a \<le> 23")
    case False
    with \<open>a \<le> 24\<close> have a: "a = 24" by simp
    have "b \<le> 3" using assms a by arith
    show ?thesis
    proof (cases "b \<le> 2")
      case False
      with \<open>b \<le> 3\<close> have b: "b = 3" by simp
      show ?thesis
      proof (cases "c \<le> 23")
        case False
        with assms(9) have c: "c = 24" by simp
        have "e \<le> 2" using assms a b c by arith
        then show ?thesis using a b c by simp
      qed (use a b assms(10) in simp)
    qed (use a assms(9,10) in simp)
  qed (use assms(8-10) in simp)
qed

lemma ymd2ord_last:
  "is_leap y \<Longrightarrow> ymd2ord y 11 31 = days_before_year y + 366" "month_days leap ! 11 = 31"
  by (simp_all add: ymd2ord_def month_days_def)

lemma ymd2ord_ord2ymd:
  assumes "1 \<le> n" "ord2ymd n = (y, m, d)"
  shows "ymd2ord y m d = n" "m < 12" "1 \<le> d" "d \<le> month_days (is_leap y) ! m"
    "1 \<le> y" "n \<le> 3652059 \<longrightarrow> y \<le> 9999"
proof -
  define k where "k = n - 1"
  define n1 where "n1 = k mod 146097"
  define n2 where "n2 = n1 mod 36524"
  define n3 where "n3 = n2 mod 1461"
  define a where "a = k div 146097"
  define b where "b = n1 div 36524"
  define c where "c = n2 div 1461"
  define e where "e = n3 div 365"
  define r where "r = n3 mod 365"
  note defs = k_def [symmetric] a_def [symmetric] n1_def [symmetric] b_def [symmetric] n2_def [symmetric]
    c_def [symmetric] n3_def [symmetric] e_def [symmetric] r_def [symmetric]
  have k0: "0 \<le> k" using assms(1) by (simp add: k_def)
  have pos: "0 < (146097::int)" "0 < (36524::int)" "0 < (1461::int)" "0 < (365::int)" by simp_all
  note facts = div_mod_facts [OF pos(1), of k, unfolded defs] div_mod_facts [OF pos(2), of n1, unfolded defs]
    div_mod_facts [OF pos(3), of n2, unfolded defs] div_mod_facts [OF pos(4), of n3, unfolded defs]
  note cyc = cycles [OF k0 facts]
  let ?y = "400 * a + 100 * b + 4 * c + e + 1"
  have ymd: "(y, m, d) = (if e = 4 \<or> b = 4 then (?y - 1, 11, 31)
      else case month_of (month_days (is_leap ?y)) r of (m, d) \<Rightarrow> (?y, m, d + 1))"
    using assms(2) unfolding ord2ymd_def Let_def defs by simp
  have "ymd2ord y m d = n \<and> m < 12 \<and> 1 \<le> d \<and> d \<le> month_days (is_leap y) ! m"
  proof (cases "e = 4 \<or> b = 4")
    case True
    then have ymd': "y = ?y - 1" "m = 11" "d = 31" using ymd by auto
    show ?thesis
    proof (cases "b = 4")
      case True
      with cyc(8) have "y = 400 * a + 100 * 3 + 4 * 24 + 3 + 1" using ymd'(1) by simp
      then have "days_before_year y = 146097 * a + 36524 * 3 + 1461 * 24 + 365 * 3" "y = 400 * (a + 1)"
        using days_before_cycles [of 3 24 3 a] by simp_all
      moreover from this(2) have "y mod 400 = 0" by simp
      moreover have "y = 4 * (100 * (a + 1))" using \<open>y = 400 * (a + 1)\<close> by simp
      then have "y mod 4 = 0" by (simp only: mod_mult_self1_is_0)
      ultimately have "is_leap y" "days_before_year y = 146097 * a + 36524 * 3 + 1461 * 24 + 365 * 3"
        by (simp_all add: is_leap_def)
      then show ?thesis using True cyc(1,8) ymd' by (simp add: ymd2ord_last k_def)
    next
      case False
      with True have e: "e = 4" by simp
      with cyc(9) have c: "r = 0" "c \<le> 23" by simp_all
      have b: "b \<le> 3" using False cyc(3) by simp
      have y: "y = 400 * a + 100 * b + 4 * c + 3 + 1" using ymd'(1) e by simp
      then have dby: "days_before_year y = 146097 * a + 36524 * b + 1461 * c + 365 * 3"
        using days_before_cycles [of b c 3 a] b c cyc(2,4) by simp
      have "y = 4 * (100 * a + 25 * b + c + 1)" using y by simp
      then have "y mod 4 = 0" by (simp only: mod_mult_self1_is_0)
      moreover have "y mod 100 = 4 * c + 4"
        by (rule int_mod_pos_eq [of _ _ "4 * a + b"]) (use y c cyc(4) in simp_all)
      then have "y mod 100 \<noteq> 0" using cyc(4) by simp
      ultimately have "is_leap y" by (simp add: is_leap_def)
      with dby e c cyc(1) ymd' show ?thesis by (simp add: ymd2ord_last k_def)
    qed
  next
    case False
    then have small: "b \<le> 3" "e \<le> 3" using cyc(3,7) by simp_all
    obtain m' d' where md: "month_of (month_days (is_leap ?y)) r = (m', d')" by fastforce
    with ymd False have ymd': "y = ?y" "m = m'" "d = d' + 1" by auto
    have "r < sum_list (month_days (is_leap ?y))" using facts(12) by (simp add: sum_month_days)
    from month_of_bounds [OF md _ facts(11) this] have bd: "m' < 12" "0 \<le> d'" "d' < month_days (is_leap ?y) ! m'"
      by (simp_all add: month_days_def)
    have "days_before_year ?y = 146097 * a + 36524 * b + 1461 * c + 365 * e"
      by (rule days_before_cycles) (use small cyc in simp_all)
    with month_of_sum [OF md] cyc(1) have "ymd2ord y m d = n"
      by (simp add: ymd2ord_def ymd' k_def)
    with bd ymd' show ?thesis by simp
  qed
  then show "ymd2ord y m d = n" "m < 12" "1 \<le> d" "d \<le> month_days (is_leap y) ! m" by simp_all
  have a0: "0 \<le> a" using k0 by (simp add: a_def)
  have "y = ?y \<and> e \<le> 3 \<or> y = ?y - 1 \<and> (e = 4 \<or> b = 4)"
    using ymd cyc(3,7) by (auto split: if_splits prod.splits)
  then show "1 \<le> y" using a0 cyc by auto
  show "n \<le> 3652059 \<longrightarrow> y \<le> 9999"
  proof
    assume "n \<le> 3652059"
    then have "k \<le> 3652058" by (simp add: k_def)
    with year_bound [OF cyc(1) _ a0 cyc(2,4,6) facts(11) cyc(3,5,7)] have "?y \<le> 9999" by simp
    with \<open>y = ?y \<and> e \<le> 3 \<or> y = ?y - 1 \<and> (e = 4 \<or> b = 4)\<close> show "y \<le> 9999" by auto
  qed
qed

section \<open>ISO text\<close>

fun pad :: "nat \<Rightarrow> nat \<Rightarrow> string" where
  "pad 0 n = []"
| "pad (Suc w) n = pad w (n div 10) @ [digit (n mod 10)]"

definition iso_text :: "int \<Rightarrow> nat \<Rightarrow> int \<Rightarrow> int \<Rightarrow> int \<Rightarrow> int \<Rightarrow> int \<Rightarrow> string" where
  "iso_text y m d hh mi ss us =
     pad 4 (nat y) @ ''-'' @ pad 2 (Suc m) @ ''-'' @ pad 2 (nat d) @ ''T'' @
     pad 2 (nat hh) @ '':'' @ pad 2 (nat mi) @ '':'' @ pad 2 (nat ss) @
     (if us = 0 then [] else ''.'' @ pad 6 (nat us))"

text \<open>Day 719163 is the first of January 1970.\<close>

definition instant :: "int \<Rightarrow> nat \<Rightarrow> int \<Rightarrow> int \<Rightarrow> int \<Rightarrow> int \<Rightarrow> int \<Rightarrow> int" where
  "instant y m d hh mi ss us =
     ((((ymd2ord y m d - 719163) * 24 + hh) * 60 + mi) * 60 + ss) * second + us"

definition isoformat :: "int \<Rightarrow> string" where
  "isoformat t =
     (let us = t mod second; s = t div second; ss = s mod 60; i = s div 60; mi = i mod 60;
          h = i div 60; hh = h mod 24
      in case ord2ymd (h div 24 + 719163) of (y, m, d) \<Rightarrow> iso_text y m d hh mi ss us @ ''+00:00'')"

text \<open>\<^verbatim>\<open>str.replace\<close>, from the left, for a non-empty pattern.\<close>

function str_replace :: "string \<Rightarrow> string \<Rightarrow> string \<Rightarrow> string" where
  "str_replace old new [] = []"
| "str_replace old new (c # cs) =
     (if old \<noteq> [] \<and> take (length old) (c # cs) = old
      then new @ str_replace old new (drop (length old) (c # cs))
      else c # str_replace old new cs)"
  by pat_completeness auto
termination
  by (relation "measure (\<lambda>(old, new, s). length s)") (simp_all add: diff_less)

definition isoformat_z :: "int \<Rightarrow> string" where
  "isoformat_z t = str_replace ''+00:00'' ''Z'' (isoformat t)"

text \<open>Instants a Python datetime can hold: years 1 to 9999.\<close>

definition datetime_ok :: "int \<Rightarrow> bool" where
  "datetime_ok t \<longleftrightarrow> - 62135596800 * second \<le> t \<and> t < 253402300800 * second"

lemma str_replace_prefix:
  "c \<notin> set xs \<Longrightarrow> str_replace (c # old) z (xs @ ys) = xs @ str_replace (c # old) z ys"
proof (induction xs)
  case (Cons x xs)
  then have "x \<noteq> c" "c \<notin> set xs" by auto
  with Cons.IH show ?case
    by (subst append_Cons, subst str_replace.simps(2)) (simp del: str_replace.simps)
qed simp

lemma str_replace_utc: "str_replace ''+00:00'' ''Z'' ''+00:00'' = ''Z''"
  by code_simp

lemma digit_no_plus: "d < 10 \<Longrightarrow> digit d \<noteq> CHR ''+''"
  using digit_in_digits [of d] by (auto simp: digits_def)

lemma pad_no_plus: "CHR ''+'' \<notin> set (pad w n)"
  by (induction w arbitrary: n) (auto dest: sym simp: digit_no_plus)

lemma isoformat_z_text:
  "isoformat_z t =
     (let us = t mod second; s = t div second; ss = s mod 60; i = s div 60; mi = i mod 60;
          h = i div 60; hh = h mod 24
      in case ord2ymd (h div 24 + 719163) of (y, m, d) \<Rightarrow> iso_text y m d hh mi ss us @ ''Z'')"
proof -
  have "CHR ''+'' \<notin> set (iso_text y m d hh mi ss us)" for y m d hh mi ss us
    by (simp add: iso_text_def pad_no_plus)
  note prefix = str_replace_prefix [OF this, where old = "''00:00''" and z = "''Z''" and ys = "''+00:00''"]
  have "str_replace ''+00:00'' ''Z'' (iso_text y m d hh mi ss us @ ''+00:00'') =
      iso_text y m d hh mi ss us @ ''Z''" for y m d hh mi ss us
    unfolding prefix str_replace_utc ..
  then show ?thesis by (simp add: isoformat_z_def isoformat_def Let_def split: prod.split)
qed

section \<open>Reading the text back\<close>

text \<open>
  Documented behaviour of the server: ISO 8601 text ending in \<open>Z\<close> reads as the instant its fields
  name in UTC.
\<close>

definition iso_in_ok :: "pg \<Rightarrow> bool" where
  "iso_in_ok s \<longleftrightarrow>
     (\<forall>y m d hh mi ss us.
        1 \<le> y \<and> y \<le> 9999 \<and> m < 12 \<and> 1 \<le> d \<and> d \<le> month_days (is_leap y) ! m \<and>
        0 \<le> hh \<and> hh < 24 \<and> 0 \<le> mi \<and> mi < 60 \<and> 0 \<le> ss \<and> ss < 60 \<and> 0 \<le> us \<and> us < second \<longrightarrow>
        pg_timestamptz_in s (iso_text y m d hh mi ss us @ ''Z'') = Some (instant y m d hh mi ss us))"

lemma isoformat_z_read:
  assumes "iso_in_ok s" "datetime_ok t"
  shows "pg_timestamptz_in s (isoformat_z t) = Some t"
proof -
  define us where "us = t mod second"
  define sec where "sec = t div second"
  define i where "i = sec div 60"
  define h where "h = i div 60"
  obtain y m d where ymd: "ord2ymd (h div 24 + 719163) = (y, m, d)" by (cases "ord2ymd (h div 24 + 719163)") auto
  have split: "t = sec * second + us" "sec = i * 60 + sec mod 60" "i = h * 60 + i mod 60"
    "h = h div 24 * 24 + h mod 24"
    by (simp_all add: us_def sec_def i_def h_def)
  have bounds: "0 \<le> us" "us < second" "0 \<le> sec mod 60" "sec mod 60 < 60" "0 \<le> i mod 60" "i mod 60 < 60"
    "0 \<le> h mod 24" "h mod 24 < 24"
    by (simp_all add: us_def second_def)
  have "- 62135596800 \<le> sec" "sec < 253402300800"
    using assms(2) split(1) bounds(1,2) by (simp_all add: datetime_ok_def second_def)
  then have "1 \<le> h div 24 + 719163" "h div 24 + 719163 \<le> 3652059"
    using split(2-4) bounds(3-8) by linarith+
  note date = ymd2ord_ord2ymd [OF this(1) ymd] and last = this(2)
  have "isoformat_z t = iso_text y m d (h mod 24) (i mod 60) (sec mod 60) us @ ''Z''"
    by (simp add: isoformat_z_text Let_def us_def sec_def i_def h_def ymd [unfolded h_def i_def sec_def])
  moreover have "instant y m d (h mod 24) (i mod 60) (sec mod 60) us = t"
    using split date(1) by (simp add: instant_def)
  ultimately show ?thesis using assms(1) date(2-6) last bounds unfolding iso_in_ok_def by simp
qed

lemma isoformat_z_Z: "isoformat_z t \<noteq> [] \<and> last (isoformat_z t) = CHR ''Z''"
  by (auto simp: isoformat_z_text Let_def split: prod.split)

end
