(* ===== verification/Table_Format.thy ===== *)
theory Table_Format
  imports Calendar
begin

text \<open>
  The function \<^verbatim>\<open>job_table_format\<close> that \<^verbatim>\<open>underboss/schema.py\<close> installs for other clients of the same schema:
  it turns a command on the table \<^verbatim>\<open>job\<close> into one on a table of its own. The server's \<^verbatim>\<open>replace\<close> is
  Python's; its \<^verbatim>\<open>quote_ident\<close>, which depends on the list of key words, is a parameter.
\<close>

section \<open>The function\<close>

text \<open>
  \<^verbatim>\<open>format\<close> with one argument: \<open>used\<close> says whether the next specifier without a position finds it
  taken. \<open>None\<close> is the error for a missing argument or a specifier that is none of these.
\<close>

function format_one :: "(string \<Rightarrow> string) \<Rightarrow> string \<Rightarrow> bool \<Rightarrow> string \<Rightarrow> string option" where
  "format_one quote_ident a used [] = Some []"
| "format_one quote_ident a used (c # cs) =
     (if c \<noteq> CHR ''%'' then map_option (Cons c) (format_one quote_ident a used cs)
      else if take 1 cs = ''%'' then map_option (Cons c) (format_one quote_ident a used (drop 1 cs))
      else if take 3 cs = ''1$I'' then map_option (append (quote_ident a)) (format_one quote_ident a True (drop 3 cs))
      else if take 3 cs = ''1$s'' then map_option (append a) (format_one quote_ident a True (drop 3 cs))
      else if take 1 cs = ''I'' \<and> \<not> used then map_option (append (quote_ident a)) (format_one quote_ident a True (drop 1 cs))
      else if take 1 cs = ''s'' \<and> \<not> used then map_option (append a) (format_one quote_ident a True (drop 1 cs))
      else None)"
  by pat_completeness auto

termination
  by (relation "measure (\<lambda>(q, a, u, s). length s)") auto

definition job_table_format :: "(string \<Rightarrow> string) \<Rightarrow> string \<Rightarrow> string \<Rightarrow> string option" where
  "job_table_format quote_ident command table_name =
     format_one quote_ident table_name False
       (str_replace ''job_i'' ''%1$s_i'' (str_replace ''.job'' ''.%1$I'' command))"

section \<open>What it does\<close>

text \<open>The same in one pass: the table's name is put in place, its indexes are renamed.\<close>

function rename_table :: "(string \<Rightarrow> string) \<Rightarrow> string \<Rightarrow> string \<Rightarrow> string" where
  "rename_table quote_ident t [] = []"
| "rename_table quote_ident t (c # cs) =
     (if take 4 (c # cs) = ''.job'' then ''.'' @ quote_ident t @ rename_table quote_ident t (drop 4 (c # cs))
      else if take 5 (c # cs) = ''job_i'' then t @ ''_i'' @ rename_table quote_ident t (drop 5 (c # cs))
      else c # rename_table quote_ident t cs)"
  by pat_completeness auto

termination
  by (relation "measure (\<lambda>(q, t, s). length s)") auto

lemma split_prefix: "take n xs = p \<Longrightarrow> xs = p @ drop n xs"
  by (metis append_take_drop_id)

lemma str_replace_hit: "old \<noteq> [] \<Longrightarrow> str_replace old new (old @ ys) = new @ str_replace old new ys"
  by (cases old) simp_all

lemma str_replace_miss:
  "take (length old) (c # cs) \<noteq> old \<Longrightarrow> str_replace old new (c # cs) = c # str_replace old new cs"
  by simp

text \<open>Replacing a pattern that begins with a dot by a text that does makes no new match without one.\<close>

lemma prefix_before_replace:
  "x \<notin> set p \<Longrightarrow> take (length p) (str_replace (x # old) (x # new) cs) = p \<Longrightarrow> take (length p) cs = p"
proof (induction p arbitrary: cs)
  case (Cons y p)
  then obtain d ds where cs: "cs = d # ds" by (cases cs) auto
  have miss: "take (length (x # old)) (d # ds) \<noteq> x # old"
  proof
    assume "take (length (x # old)) (d # ds) = x # old"
    then have "str_replace (x # old) (x # new) cs = (x # new) @ str_replace (x # old) (x # new) (drop (length (x # old)) (d # ds))"
      unfolding cs by simp
    with Cons.prems show False by simp
  qed
  from Cons.prems(2) have "y = d" "take (length p) (str_replace (x # old) (x # new) ds) = p"
    unfolding cs str_replace_miss [OF miss] by simp_all
  with Cons.IH [of ds] Cons.prems(1) show ?case by (simp add: cs)
qed simp

lemma format_renames:
  "CHR ''%'' \<notin> set command \<Longrightarrow>
   format_one q t u (str_replace ''job_i'' ''%1$s_i'' (str_replace ''.job'' ''.%1$I'' command)) =
     Some (rename_table q t command)"
proof (induction q t command arbitrary: u rule: rename_table.induct)
  case (2 q t c cs)
  let ?r1 = "str_replace ''.job'' ''.%1$I''" and ?r2 = "str_replace ''job_i'' ''%1$s_i''"
  consider (table) "take 4 (c # cs) = ''.job''" | (index) "take 4 (c # cs) \<noteq> ''.job''" "take 5 (c # cs) = ''job_i''"
    | (plain) "take 4 (c # cs) \<noteq> ''.job''" "take 5 (c # cs) \<noteq> ''job_i''" by blast
  then show ?case
  proof cases
    case table
    let ?rest = "drop 4 (c # cs)"
    have cs: "c # cs = ''.job'' @ ?rest" by (rule split_prefix [OF table])
    have IH: "format_one q t True (?r2 (?r1 ?rest)) = Some (rename_table q t ?rest)"
      by (rule "2.IH"(1) [OF table]) (use "2.prems" in_set_dropD in fast)
    have "?r1 (c # cs) = ''.%1$I'' @ ?r1 ?rest" by (subst cs, rule str_replace_hit) simp
    moreover have "?r2 (''.%1$I'' @ ?r1 ?rest) = ''.%1$I'' @ ?r2 (?r1 ?rest)" by (rule str_replace_prefix) simp
    moreover have "format_one q t u (''.%1$I'' @ x) = map_option (\<lambda>y. CHR ''.'' # q t @ y) (format_one q t True x)" for x
      by (simp add: option.map_comp comp_def)
    moreover have "rename_table q t (c # cs) = CHR ''.'' # q t @ rename_table q t ?rest" using table by simp
    ultimately show ?thesis by (simp only: IH option.map)
  next
    case index
    let ?rest = "drop 5 (c # cs)"
    have cs: "c # cs = ''job_i'' @ ?rest" by (rule split_prefix [OF index(2)])
    have IH: "format_one q t True (?r2 (?r1 ?rest)) = Some (rename_table q t ?rest)"
      by (rule "2.IH"(2) [OF index]) (use "2.prems" in_set_dropD in fast)
    have "?r1 (c # cs) = ''job_i'' @ ?r1 ?rest" by (subst cs, rule str_replace_prefix) simp
    moreover have "?r2 (''job_i'' @ ?r1 ?rest) = ''%1$s_i'' @ ?r2 (?r1 ?rest)" by (rule str_replace_hit) simp
    moreover have "format_one q t u (''%1$s_i'' @ x) = map_option (\<lambda>y. t @ ''_i'' @ y) (format_one q t True x)" for x
      by (simp add: option.map_comp comp_def)
    moreover have "rename_table q t (c # cs) = t @ ''_i'' @ rename_table q t ?rest" using index by simp
    ultimately show ?thesis by (simp only: IH option.map)
  next
    case plain
    have len: "length ''.job'' = 4" "length ''job_i'' = 5" by simp_all
    have "?r1 (c # cs) = c # ?r1 cs" by (rule str_replace_miss) (simp only: len plain(1) not_False_eq_True)
    moreover have "take 5 (c # ?r1 cs) \<noteq> ''job_i''"
    proof
      assume hit: "take 5 (c # ?r1 cs) = ''job_i''"
      have four: "length ''ob_i'' = 4" by simp
      from hit have "take 4 (?r1 cs) = ''ob_i''" and c: "c = CHR ''j''" by simp_all
      then have "take (length ''ob_i'') (?r1 cs) = ''ob_i''" unfolding four by simp
      then have "take (length ''ob_i'') cs = ''ob_i''" by (rule prefix_before_replace [rotated]) simp
      then have "take 4 cs = ''ob_i''" unfolding four .
      with c plain(2) show False by simp
    qed
    then have "?r2 (c # ?r1 cs) = c # ?r2 (?r1 cs)" by (intro str_replace_miss) (simp only: len not_False_eq_True)
    moreover have "format_one q t u (?r2 (?r1 cs)) = Some (rename_table q t cs)"
      by (rule "2.IH"(3) [OF plain]) (use "2.prems" in simp)
    moreover have "rename_table q t (c # cs) = c # rename_table q t cs"
      by (simp only: rename_table.simps plain if_False)
    moreover have "format_one q t u (c # x) = map_option (Cons c) (format_one q t u x)" for x
    proof -
      have "c \<noteq> CHR ''%''" using "2.prems" by auto
      then show ?thesis by simp
    qed
    ultimately show ?thesis by (simp only: option.map)
  qed
qed simp

text \<open>A command without a percent sign never makes \<^verbatim>\<open>job_table_format\<close> fail: every \<^verbatim>\<open>.job\<close> becomes the quoted
  table, every \<^verbatim>\<open>job_i\<close> the index name of that table, and nothing else changes.\<close>
theorem job_table_format_renames:
  assumes "CHR ''%'' \<notin> set command"
  shows "job_table_format quote_ident command table_name = Some (rename_table quote_ident table_name command)"
  using format_renames [OF assms] by (simp add: job_table_format_def)

theorem job_table_format_renames_witness:
  "job_table_format (\<lambda>n. n) ''CREATE INDEX job_i5 ON underboss.job (name)'' ''job_q1'' =
     Some ''CREATE INDEX job_q1_i5 ON underboss.job_q1 (name)''"
proof -
  have "CHR ''%'' \<notin> set ''CREATE INDEX job_i5 ON underboss.job (name)''" by simp
  moreover have "rename_table (\<lambda>n. n) ''job_q1'' ''CREATE INDEX job_i5 ON underboss.job (name)'' =
      ''CREATE INDEX job_q1_i5 ON underboss.job_q1 (name)''" by code_simp
  ultimately show ?thesis by (simp add: job_table_format_renames del: rename_table.simps)
qed

end
