(* ===== verification/Payload.thy ===== *)
theory Payload
  imports Calendar Job_Types Insert_Sql Queue_Sql Sample_Tables
begin

text \<open>
  The translations at the top of \<^verbatim>\<open>underboss/underboss.py\<close> and \<^verbatim>\<open>_row_to_job\<close> of \<^verbatim>\<open>underboss/worker.py\<close>:
  option objects to the JSON payloads the statements read, and fetched rows back to objects. A
  payload is a Python dict, the list of its entries in insertion order. The lemmas follow a payload
  through \<^verbatim>\<open>json.dumps\<close> and the statement's casts.
\<close>

section \<open>Payloads\<close>

definition encode_start_after :: "start_after option \<Rightarrow> string option" where
  "encode_start_after v =
     (case v of
        None \<Rightarrow> None
      | Some (SA_datetime t) \<Rightarrow> Some (isoformat_z t)
      | Some (SA_int i) \<Rightarrow> Some (str_of_int i)
      | Some (SA_str u) \<Rightarrow> Some u)"

definition queue_options_payload :: "QueueOptions \<Rightarrow> (string \<times> json) list" where
  "queue_options_payload o' =
     [(''policy'', JStr (QueuePolicy_value (qo_policy o'))),
      (''retryLimit'', JNum (qo_retry_limit o')),
      (''retryDelay'', JNum (qo_retry_delay o')),
      (''retryBackoff'', JBool (qo_retry_backoff o')),
      (''expireInSeconds'', JNum (qo_expire_in_seconds o')),
      (''retentionSeconds'', JNum (qo_retention_seconds o')),
      (''deleteAfterSeconds'', JNum (qo_delete_after_seconds o')),
      (''warningQueueSize'', JNum (qo_warning_queue_size o'))]
     @ opt_entry ''retryDelayMax'' (map_option JNum (qo_retry_delay_max o'))
     @ opt_entry ''deadLetter'' (map_option JStr (qo_dead_letter o'))
     @ opt_entry ''heartbeatSeconds'' (map_option JNum (qo_heartbeat_seconds o'))"

definition group_entries :: "GroupOptions option \<Rightarrow> (string \<times> json) list" where
  "group_entries g =
     (case g of
        None \<Rightarrow> []
      | Some g' \<Rightarrow> (''groupId'', JStr (group_id g')) # opt_entry ''groupTier'' (map_option JStr (group_tier g')))"

definition job_payload :: "(string \<times> json) list option \<Rightarrow> SendOptions \<Rightarrow> (string \<times> json) list" where
  "job_payload data options =
     [(''priority'', JNum (so_priority options))]
     @ opt_entry ''data'' (map_option JObj data)
     @ opt_entry ''startAfter'' (map_option JStr (encode_start_after (so_start_after options)))
     @ opt_entry ''singletonKey'' (map_option JStr (so_singleton_key options))
     @ (case so_singleton_seconds options of
          None \<Rightarrow> []
        | Some n \<Rightarrow>
            (''singletonSeconds'', JNum n)
            # (if so_singleton_next_slot options then [(''singletonOffset'', JNum n)] else []))
     @ opt_entry ''deadLetter'' (map_option JStr (so_dead_letter options))
     @ group_entries (so_group options)
     @ opt_entry ''retryLimit'' (map_option JNum (so_retry_limit options))
     @ opt_entry ''retryDelay'' (map_option JNum (so_retry_delay options))
     @ opt_entry ''retryBackoff'' (map_option JBool (so_retry_backoff options))
     @ opt_entry ''expireInSeconds'' (map_option JNum (so_expire_in_seconds options))"

definition job_insert_payload :: "JobInsert \<Rightarrow> (string \<times> json) list" where
  "job_insert_payload job =
     [(''priority'', JNum (ji_priority job))]
     @ opt_entry ''id'' (map_option JStr (ji_id job))
     @ opt_entry ''data'' (map_option JObj (ji_data job))
     @ opt_entry ''startAfter'' (map_option JStr (encode_start_after (ji_start_after job)))
     @ opt_entry ''singletonKey'' (map_option JStr (ji_singleton_key job))
     @ opt_entry ''deadLetter'' (map_option JStr (ji_dead_letter job))
     @ opt_entry ''retryLimit'' (map_option JNum (ji_retry_limit job))
     @ opt_entry ''retryDelay'' (map_option JNum (ji_retry_delay job))
     @ opt_entry ''retryBackoff'' (map_option JBool (ji_retry_backoff job))
     @ opt_entry ''expireInSeconds'' (map_option JNum (ji_expire_in_seconds job))
     @ group_entries (ji_group job)"

section \<open>Rows to objects\<close>

definition row_to_queue :: "queue_row \<Rightarrow> error + Queue" where
  "row_to_queue row =
     bindr (QueuePolicy_of (q_policy row)) (\<lambda>policy.
       Inr \<lparr>queue_name = q_name row,
            queue_options =
              \<lparr>qo_policy = policy, qo_retry_limit = q_retry_limit row,
               qo_retry_delay = q_retry_delay row, qo_retry_backoff = q_retry_backoff row,
               qo_retry_delay_max = q_retry_delay_max row,
               qo_expire_in_seconds = q_expire_seconds row,
               qo_retention_seconds = q_retention_seconds row,
               qo_delete_after_seconds = q_deletion_seconds row,
               qo_dead_letter = q_dead_letter row,
               qo_warning_queue_size = q_warning_queued row,
               qo_heartbeat_seconds = q_heartbeat_seconds row\<rparr>\<rparr>)"

text \<open>The enum column arrives as text; the id is printed by the driver.\<close>

definition row_to_job :: "pg \<Rightarrow> bool \<Rightarrow> job_row \<Rightarrow> error + Job" where
  "row_to_job s include_metadata row =
     bindr (if include_metadata
            then bindr (JobState_of (JobState_value (j_state row))) (\<lambda>st. Inr (Some st))
            else Inr None) (\<lambda>state.
       Inr \<lparr>job_id = pg_uuid_out s (j_id row), job_name = j_name row, job_data = j_data row,
            job_expire_in_seconds = j_expire_seconds row,
            job_group_id = j_group_id row, job_group_tier = j_group_tier row,
            job_state = state,
            job_priority = (if include_metadata then Some (j_priority row) else None),
            job_retry_limit = (if include_metadata then Some (j_retry_limit row) else None),
            job_retry_count = (if include_metadata then Some (j_retry_count row) else None),
            job_started_on = (if include_metadata then j_started_on row else None),
            job_created_on = (if include_metadata then Some (j_created_on row) else None)\<rparr>)"

text \<open>\<^verbatim>\<open>_row_to_job\<close> cannot raise on a row of the table: every state of the enum is a \<^verbatim>\<open>JobState\<close>.\<close>

definition job_of_row :: "pg \<Rightarrow> bool \<Rightarrow> job_row \<Rightarrow> Job" where
  "job_of_row s m row =
     \<lparr>job_id = pg_uuid_out s (j_id row), job_name = j_name row, job_data = j_data row,
      job_expire_in_seconds = j_expire_seconds row,
      job_group_id = j_group_id row, job_group_tier = j_group_tier row,
      job_state = (if m then Some (j_state row) else None),
      job_priority = (if m then Some (j_priority row) else None),
      job_retry_limit = (if m then Some (j_retry_limit row) else None),
      job_retry_count = (if m then Some (j_retry_count row) else None),
      job_started_on = (if m then j_started_on row else None),
      job_created_on = (if m then Some (j_created_on row) else None)\<rparr>"

lemma row_to_job_total [simp]: "row_to_job s m row = Inr (job_of_row s m row)"
  by (simp add: row_to_job_def job_of_row_def JobState_roundtrip)

section \<open>Payloads through the statements\<close>

lemma option_eta [entry_simps]: "(case v of None \<Rightarrow> None | Some x \<Rightarrow> Some x) = v"
  by (cases v) simp_all

text \<open>What the casts make of an entry, present or not.\<close>

lemma arrow_int:
  "map_of kvs k = map_option JNum v \<Longrightarrow> int4_opt_ok v \<Longrightarrow> cast_int4 (arrow_text s (JObj kvs) k) = Inr v"
  by (cases v) (simp_all add: arrow_text_JObj int4_opt_ok_def int4_int4_ok)

lemma arrow_bool:
  "map_of kvs k = map_option JBool v \<Longrightarrow> cast_bool (arrow_text s (JObj kvs) k) = Inr v"
  by (cases v) (simp_all add: arrow_text_JObj)

lemma arrow_str: "map_of kvs k = map_option JStr v \<Longrightarrow> arrow_text s (JObj kvs) k = v"
  by (cases v) (simp_all add: arrow_text_JObj)

lemma arrow_obj: "map_of kvs k = map_option JObj v \<Longrightarrow> arrow_jsonb s (JObj kvs) k = Inr (map_option JObj v)"
  by (cases v) (simp_all add: arrow_jsonb_def arrow_def)

definition QueueOptions_ok :: "QueueOptions \<Rightarrow> bool" where
  "QueueOptions_ok o' \<longleftrightarrow>
     int4_ok (qo_retry_limit o') \<and> int4_ok (qo_retry_delay o') \<and> int4_ok (qo_expire_in_seconds o') \<and>
     int4_ok (qo_retention_seconds o') \<and> int4_ok (qo_delete_after_seconds o') \<and>
     int4_ok (qo_warning_queue_size o') \<and>
     int4_opt_ok (qo_retry_delay_max o') \<and> int4_opt_ok (qo_heartbeat_seconds o')"

text \<open>A queue's options survive the trip through JSON, the statement and the row unchanged.\<close>

lemma queue_options_roundtrip:
  assumes "QueueOptions_ok o'"
  obtains q where "queue_row_of s name (JObj (queue_options_payload o')) = Inr q"
    "row_to_queue q = Inr \<lparr>queue_name = name, queue_options = o'\<rparr>"
    "q_name q = name" "q_dead_letter q = qo_dead_letter o'"
proof -
  let ?p = "queue_options_payload o'"
  have m: "map_of ?p ''policy'' = map_option JStr (Some (QueuePolicy_value (qo_policy o')))"
    "map_of ?p ''retryLimit'' = map_option JNum (Some (qo_retry_limit o'))"
    "map_of ?p ''retryDelay'' = map_option JNum (Some (qo_retry_delay o'))"
    "map_of ?p ''retryBackoff'' = map_option JBool (Some (qo_retry_backoff o'))"
    "map_of ?p ''retryDelayMax'' = map_option JNum (qo_retry_delay_max o')"
    "map_of ?p ''expireInSeconds'' = map_option JNum (Some (qo_expire_in_seconds o'))"
    "map_of ?p ''retentionSeconds'' = map_option JNum (Some (qo_retention_seconds o'))"
    "map_of ?p ''deleteAfterSeconds'' = map_option JNum (Some (qo_delete_after_seconds o'))"
    "map_of ?p ''warningQueueSize'' = map_option JNum (Some (qo_warning_queue_size o'))"
    "map_of ?p ''heartbeatSeconds'' = map_option JNum (qo_heartbeat_seconds o')"
    "map_of ?p ''deadLetter'' = map_option JStr (qo_dead_letter o')"
    unfolding queue_options_payload_def
    by (simp_all add: entry_simps del: map_of_append case_map_option cong: option.case_cong)
  have "int4_opt_ok (Some (qo_retry_limit o'))" "int4_opt_ok (Some (qo_retry_delay o'))"
    "int4_opt_ok (qo_retry_delay_max o')" "int4_opt_ok (Some (qo_expire_in_seconds o'))"
    "int4_opt_ok (Some (qo_retention_seconds o'))" "int4_opt_ok (Some (qo_delete_after_seconds o'))"
    "int4_opt_ok (Some (qo_warning_queue_size o'))" "int4_opt_ok (qo_heartbeat_seconds o')"
    using assms by (simp_all add: QueueOptions_ok_def int4_opt_ok_def)
  note look = arrow_str [OF m(1)] arrow_int [OF m(2) this(1)] arrow_int [OF m(3) this(2)]
    arrow_bool [OF m(4)] arrow_int [OF m(5) this(3)] arrow_int [OF m(6) this(4)]
    arrow_int [OF m(7) this(5)] arrow_int [OF m(8) this(6)] arrow_int [OF m(9) this(7)]
    arrow_int [OF m(10) this(8)] arrow_str [OF m(11)]
  have "\<exists>q. queue_row_of s name (JObj ?p) = Inr q \<and>
      row_to_queue q = Inr \<lparr>queue_name = name, queue_options = o'\<rparr> \<and>
      q_name q = name \<and> q_dead_letter q = qo_dead_letter o'"
    by (simp add: queue_row_of_def look row_to_queue_def)
  then show ?thesis using that by blast
qed

lemma queue_options_policy:
  "arrow_text s (JObj (queue_options_payload o')) ''policy'' = Some (QueuePolicy_value (qo_policy o'))"
  by (simp add: queue_options_payload_def arrow_text_JObj)

definition SendOptions_ok :: "SendOptions \<Rightarrow> bool" where
  "SendOptions_ok options \<longleftrightarrow>
     int4_ok (so_priority options) \<and> int4_opt_ok (so_singleton_seconds options) \<and>
     int4_opt_ok (so_retry_limit options) \<and> int4_opt_ok (so_retry_delay options) \<and>
     int4_opt_ok (so_expire_in_seconds options)"

lemma start_after_encoded:
  assumes "interval_in_ok s" "iso_in_ok s"
  shows "v = None \<Longrightarrow> start_after_of s (encode_start_after v) = Inr (pg_now s)"
    "v = Some (SA_int i) \<Longrightarrow> start_after_of s (encode_start_after v) = Inr (pg_now s + i * second)"
    "v = Some (SA_datetime t) \<Longrightarrow> datetime_ok t \<Longrightarrow> start_after_of s (encode_start_after v) = Inr t"
proof -
  have "str_of_int 0 = ''0''" by code_simp
  moreover have "pg_add_interval s (pg_now s) (str_of_int 0) = Some (pg_now s)"
    using assms(1) unfolding interval_in_ok_def by simp
  ultimately have zero: "pg_add_interval s (pg_now s) ''0'' = Some (pg_now s)" by simp
  then show "v = None \<Longrightarrow> start_after_of s (encode_start_after v) = Inr (pg_now s)"
    by (simp add: encode_start_after_def start_after_of_def)
  have "last (str_of_int i) \<noteq> CHR ''Z''"
    using last_str_of_int [of i] by (auto simp: digits_def)
  then show "v = Some (SA_int i) \<Longrightarrow> start_after_of s (encode_start_after v) = Inr (pg_now s + i * second)"
    using assms(1) by (simp add: encode_start_after_def start_after_of_def interval_in_ok_def)
  show "v = Some (SA_datetime t) \<Longrightarrow> datetime_ok t \<Longrightarrow> start_after_of s (encode_start_after v) = Inr t"
    using isoformat_z_read [OF assms(2)] isoformat_z_Z [of t]
    by (simp add: encode_start_after_def start_after_of_def)
qed

lemma map_of_group [entry_simps]:
  "map_of (group_entries g) k =
     (if k = ''groupId'' then map_option (\<lambda>g. JStr (group_id g)) g
      else if k = ''groupTier'' then (case g of None \<Rightarrow> None | Some g' \<Rightarrow> map_option JStr (group_tier g'))
      else None)"
  by (cases g) (auto simp: group_entries_def entry_simps)

definition singleton_entries :: "SendOptions \<Rightarrow> (string \<times> json) list" where
  "singleton_entries options =
     (case so_singleton_seconds options of
        None \<Rightarrow> []
      | Some n \<Rightarrow>
          (''singletonSeconds'', JNum n)
          # (if so_singleton_next_slot options then [(''singletonOffset'', JNum n)] else []))"

definition singleton_offset :: "SendOptions \<Rightarrow> int option" where
  "singleton_offset options =
     (if so_singleton_next_slot options then so_singleton_seconds options else None)"

lemma map_of_singleton [entry_simps]:
  "map_of (singleton_entries options) k =
     (if k = ''singletonSeconds'' then map_option JNum (so_singleton_seconds options)
      else if k = ''singletonOffset'' then map_option JNum (singleton_offset options)
      else None)"
  by (cases "so_singleton_seconds options") (auto simp: singleton_entries_def singleton_offset_def)

lemma job_payload_entries:
  "map_of (job_payload data options) ''id'' = map_option JStr None"
  "map_of (job_payload data options) ''priority'' = map_option JNum (Some (so_priority options))"
  "map_of (job_payload data options) ''data'' = map_option JObj data"
  "map_of (job_payload data options) ''retryLimit'' = map_option JNum (so_retry_limit options)"
  "map_of (job_payload data options) ''retryDelay'' = map_option JNum (so_retry_delay options)"
  "map_of (job_payload data options) ''retryDelayMax'' = map_option JNum None"
  "map_of (job_payload data options) ''retryBackoff'' = map_option JBool (so_retry_backoff options)"
  "map_of (job_payload data options) ''singletonKey'' = map_option JStr (so_singleton_key options)"
  "map_of (job_payload data options) ''singletonSeconds'' = map_option JNum (so_singleton_seconds options)"
  "map_of (job_payload data options) ''singletonOffset'' = map_option JNum (singleton_offset options)"
  "map_of (job_payload data options) ''groupId'' = map_option JStr (map_option group_id (so_group options))"
  "map_of (job_payload data options) ''groupTier'' = map_option JStr (Option.bind (so_group options) group_tier)"
  "map_of (job_payload data options) ''expireInSeconds'' = map_option JNum (so_expire_in_seconds options)"
  "map_of (job_payload data options) ''deleteAfterSeconds'' = map_option JNum None"
  "map_of (job_payload data options) ''retentionSeconds'' = map_option JNum None"
  "map_of (job_payload data options) ''deadLetter'' = map_option JStr (so_dead_letter options)"
  "map_of (job_payload data options) ''heartbeatSeconds'' = map_option JNum None"
  "map_of (job_payload data options) ''startAfter'' =
     map_option JStr (encode_start_after (so_start_after options))"
  unfolding job_payload_def singleton_entries_def [symmetric]
  by (simp_all add: entry_simps option.map_comp comp_def map_option_case del: map_of_append cong: option.case_cong
      split: option.split)

lemma job_payload_spec:
  assumes "SendOptions_ok options"
    "start_after_of s (encode_start_after (so_start_after options)) = Inr start"
  shows "job_spec_of s (JObj (job_payload data options)) = Inr
    \<lparr>js_id = None, js_priority = Some (so_priority options), js_data = map_option JObj data,
     js_retry_limit = so_retry_limit options, js_retry_delay = so_retry_delay options,
     js_retry_delay_max = None, js_retry_backoff = so_retry_backoff options,
     js_singleton_key = so_singleton_key options,
     js_singleton_seconds = so_singleton_seconds options,
     js_singleton_offset = (if so_singleton_next_slot options then so_singleton_seconds options else None),
     js_group_id = map_option group_id (so_group options),
     js_group_tier = Option.bind (so_group options) group_tier,
     js_expire_in_seconds = so_expire_in_seconds options, js_delete_after_seconds = None,
     js_retention_seconds = None, js_dead_letter = so_dead_letter options,
     js_heartbeat_seconds = None, js_start_after = start\<rparr>"
proof -
  note m = job_payload_entries [of data options]
  have "int4_opt_ok (Some (so_priority options))" "int4_opt_ok (so_retry_limit options)"
    "int4_opt_ok (so_retry_delay options)" "int4_opt_ok (so_singleton_seconds options)"
    "int4_opt_ok (singleton_offset options)" "int4_opt_ok (so_expire_in_seconds options)" "int4_opt_ok None"
    using assms(1) by (simp_all add: SendOptions_ok_def int4_opt_ok_def singleton_offset_def)
  note look = arrow_str [OF m(1)] arrow_int [OF m(2) this(1)] arrow_obj [OF m(3)] arrow_int [OF m(4) this(2)]
    arrow_int [OF m(5) this(3)] arrow_int [OF m(6) this(7)] arrow_bool [OF m(7)] arrow_str [OF m(8)]
    arrow_int [OF m(9) this(4)] arrow_int [OF m(10) this(5)] arrow_str [OF m(11)] arrow_str [OF m(12)]
    arrow_int [OF m(13) this(6)] arrow_int [OF m(14) this(7)] arrow_int [OF m(15) this(7)]
    arrow_str [OF m(16)] arrow_int [OF m(17) this(7)] arrow_str [OF m(18)]
  show ?thesis unfolding job_spec_of_def by (simp add: look assms(2) singleton_offset_def)
qed

lemma job_insert_payload_entries:
  "map_of (job_insert_payload job) ''id'' = map_option JStr (ji_id job)"
  "map_of (job_insert_payload job) ''priority'' = map_option JNum (Some (ji_priority job))"
  "map_of (job_insert_payload job) ''data'' = map_option JObj (ji_data job)"
  "map_of (job_insert_payload job) ''retryLimit'' = map_option JNum (ji_retry_limit job)"
  "map_of (job_insert_payload job) ''retryDelay'' = map_option JNum (ji_retry_delay job)"
  "map_of (job_insert_payload job) ''retryDelayMax'' = map_option JNum None"
  "map_of (job_insert_payload job) ''retryBackoff'' = map_option JBool (ji_retry_backoff job)"
  "map_of (job_insert_payload job) ''singletonKey'' = map_option JStr (ji_singleton_key job)"
  "map_of (job_insert_payload job) ''singletonSeconds'' = map_option JNum None"
  "map_of (job_insert_payload job) ''singletonOffset'' = map_option JNum None"
  "map_of (job_insert_payload job) ''groupId'' = map_option JStr (map_option group_id (ji_group job))"
  "map_of (job_insert_payload job) ''groupTier'' = map_option JStr (Option.bind (ji_group job) group_tier)"
  "map_of (job_insert_payload job) ''expireInSeconds'' = map_option JNum (ji_expire_in_seconds job)"
  "map_of (job_insert_payload job) ''deleteAfterSeconds'' = map_option JNum None"
  "map_of (job_insert_payload job) ''retentionSeconds'' = map_option JNum None"
  "map_of (job_insert_payload job) ''deadLetter'' = map_option JStr (ji_dead_letter job)"
  "map_of (job_insert_payload job) ''heartbeatSeconds'' = map_option JNum None"
  "map_of (job_insert_payload job) ''startAfter'' = map_option JStr (encode_start_after (ji_start_after job))"
  unfolding job_insert_payload_def
  by (simp_all add: entry_simps option.map_comp comp_def map_option_case del: map_of_append cong: option.case_cong
      split: option.split)

definition JobInsert_ok :: "pg \<Rightarrow> JobInsert \<Rightarrow> bool" where
  "JobInsert_ok s job \<longleftrightarrow>
     int4_ok (ji_priority job) \<and> int4_opt_ok (ji_retry_limit job) \<and> int4_opt_ok (ji_retry_delay job) \<and>
     int4_opt_ok (ji_expire_in_seconds job) \<and> (\<forall>i. ji_id job = Some i \<longrightarrow> pg_uuid_in s i \<noteq> None)"

lemma job_insert_payload_spec:
  assumes "JobInsert_ok s job" "start_after_of s (encode_start_after (ji_start_after job)) = Inr start"
  shows "job_spec_of s (JObj (job_insert_payload job)) = Inr
    \<lparr>js_id = Option.bind (ji_id job) (pg_uuid_in s), js_priority = Some (ji_priority job),
     js_data = map_option JObj (ji_data job), js_retry_limit = ji_retry_limit job,
     js_retry_delay = ji_retry_delay job, js_retry_delay_max = None,
     js_retry_backoff = ji_retry_backoff job, js_singleton_key = ji_singleton_key job,
     js_singleton_seconds = None, js_singleton_offset = None,
     js_group_id = map_option group_id (ji_group job), js_group_tier = Option.bind (ji_group job) group_tier,
     js_expire_in_seconds = ji_expire_in_seconds job, js_delete_after_seconds = None,
     js_retention_seconds = None, js_dead_letter = ji_dead_letter job,
     js_heartbeat_seconds = None, js_start_after = start\<rparr>"
proof -
  note m = job_insert_payload_entries [of job]
  have "int4_opt_ok (Some (ji_priority job))" "int4_opt_ok (ji_retry_limit job)" "int4_opt_ok (ji_retry_delay job)"
    "int4_opt_ok (ji_expire_in_seconds job)" "int4_opt_ok None"
    using assms(1) by (simp_all add: JobInsert_ok_def int4_opt_ok_def)
  note look = arrow_str [OF m(1)] arrow_int [OF m(2) this(1)] arrow_obj [OF m(3)] arrow_int [OF m(4) this(2)]
    arrow_int [OF m(5) this(3)] arrow_int [OF m(6) this(5)] arrow_bool [OF m(7)] arrow_str [OF m(8)]
    arrow_int [OF m(9) this(5)] arrow_int [OF m(10) this(5)] arrow_str [OF m(11)] arrow_str [OF m(12)]
    arrow_int [OF m(13) this(4)] arrow_int [OF m(14) this(5)] arrow_int [OF m(15) this(5)]
    arrow_str [OF m(16)] arrow_int [OF m(17) this(5)] arrow_str [OF m(18)]
  have "cast_uuid s (ji_id job) = Inr (Option.bind (ji_id job) (pg_uuid_in s))"
    using assms(1) by (cases "ji_id job") (auto simp: cast_uuid_def JobInsert_ok_def)
  then show ?thesis unfolding job_spec_of_def by (simp add: look assms(2))
qed

text \<open>C34. Everything a caller gives but \<^verbatim>\<open>keep_until\<close> arrives: the statement reads back from the payload of
  \<open>send\<close> exactly the given data and options, with the slot offset set exactly when the next slot
  was asked for, and from that of a bulk insert exactly the fields of the \<^verbatim>\<open>JobInsert\<close>, its id
  included; retention, deletion and heartbeat are left to the queue.\<close>
theorem job_payload_read:
  assumes "SendOptions_ok options"
    "start_after_of s (encode_start_after (so_start_after options)) = Inr start"
    "JobInsert_ok s job" "start_after_of s (encode_start_after (ji_start_after job)) = Inr start'"
  shows "job_spec_of s (JObj (job_payload data options)) = Inr
    \<lparr>js_id = None, js_priority = Some (so_priority options), js_data = map_option JObj data,
     js_retry_limit = so_retry_limit options, js_retry_delay = so_retry_delay options,
     js_retry_delay_max = None, js_retry_backoff = so_retry_backoff options,
     js_singleton_key = so_singleton_key options,
     js_singleton_seconds = so_singleton_seconds options,
     js_singleton_offset = (if so_singleton_next_slot options then so_singleton_seconds options else None),
     js_group_id = map_option group_id (so_group options),
     js_group_tier = Option.bind (so_group options) group_tier,
     js_expire_in_seconds = so_expire_in_seconds options, js_delete_after_seconds = None,
     js_retention_seconds = None, js_dead_letter = so_dead_letter options,
     js_heartbeat_seconds = None, js_start_after = start\<rparr> \<and>
   job_spec_of s (JObj (job_insert_payload job)) = Inr
    \<lparr>js_id = Option.bind (ji_id job) (pg_uuid_in s), js_priority = Some (ji_priority job),
     js_data = map_option JObj (ji_data job), js_retry_limit = ji_retry_limit job,
     js_retry_delay = ji_retry_delay job, js_retry_delay_max = None,
     js_retry_backoff = ji_retry_backoff job, js_singleton_key = ji_singleton_key job,
     js_singleton_seconds = None, js_singleton_offset = None,
     js_group_id = map_option group_id (ji_group job), js_group_tier = Option.bind (ji_group job) group_tier,
     js_expire_in_seconds = ji_expire_in_seconds job, js_delete_after_seconds = None,
     js_retention_seconds = None, js_dead_letter = ji_dead_letter job,
     js_heartbeat_seconds = None, js_start_after = start'\<rparr>"
  by (rule conjI [OF job_payload_spec [OF assms(1,2)] job_insert_payload_spec [OF assms(3,4)]])

definition SendOptions_sample :: SendOptions where
  "SendOptions_sample = SendOptions_default
     \<lparr>so_start_after := Some (SA_int 30), so_singleton_seconds := Some 60,
      so_singleton_next_slot := True, so_group := Some \<lparr>group_id = ''g'', group_tier = None\<rparr>\<rparr>"

definition JobInsert_sample :: JobInsert where
  "JobInsert_sample =
     \<lparr>ji_data = None, ji_id = Some ''7'', ji_priority = 5, ji_retry_limit = Some 1, ji_retry_delay = None,
      ji_retry_backoff = None, ji_start_after = Some (SA_int 10), ji_singleton_key = Some ''k'',
      ji_expire_in_seconds = None, ji_keep_until = None, ji_dead_letter = None, ji_group = None\<rparr>"

lemma sample_seven [simp]: "pg_uuid_in sample_pg ''7'' = Some 7"
  by code_simp

theorem job_payload_read_witness:
  "\<exists>x y. job_spec_of sample_pg (JObj (job_payload None SendOptions_sample)) = Inr x \<and>
     js_singleton_offset x = Some 60 \<and> js_group_id x = Some ''g'' \<and> js_start_after x = 1030000000 \<and>
     job_spec_of sample_pg (JObj (job_insert_payload JobInsert_sample)) = Inr y \<and>
     js_id y = Some 7 \<and> js_priority y = Some 5 \<and> js_start_after y = 1010000000"
proof -
  have "SendOptions_ok SendOptions_sample" "JobInsert_ok sample_pg JobInsert_sample"
    "start_after_of sample_pg (encode_start_after (so_start_after SendOptions_sample)) = Inr 1030000000"
    "start_after_of sample_pg (encode_start_after (ji_start_after JobInsert_sample)) = Inr 1010000000"
    by (code_simp, simp add: JobInsert_ok_def JobInsert_sample_def int4_ok_def int4_opt_ok_def sample_seven,
        code_simp+)
  then show ?thesis
    using job_payload_read [of SendOptions_sample sample_pg 1030000000 JobInsert_sample 1010000000 None]
    by (simp add: SendOptions_sample_def JobInsert_sample_def)
qed

text \<open>C35. The start time: no \<^verbatim>\<open>start_after\<close> means now, a whole number that many seconds from now, and a
  datetime, rendered by \<^verbatim>\<open>_isoformat_z\<close> and read back by the server, exactly that instant to the
  microsecond, for every instant a datetime can hold.\<close>
theorem start_after_read:
  assumes "interval_in_ok s" "iso_in_ok s" "datetime_ok t"
  shows "start_after_of s (encode_start_after None) = Inr (pg_now s) \<and>
    start_after_of s (encode_start_after (Some (SA_int i))) = Inr (pg_now s + i * second) \<and>
    start_after_of s (encode_start_after (Some (SA_datetime t))) = Inr t"
  using start_after_encoded [OF assms(1,2)] assms(3) by blast

text \<open>A reader of ISO text, the server's parser of the samples.\<close>

definition read_iso :: "string \<Rightarrow> int option" where
  "read_iso u =
     (let num = \<lambda>a k. nat_in 0 (take k (drop a u)) in
      case (num 0 4, num 5 2, num 8 2, num 11 2, num 14 2, num 17 2,
            if length u = 20 then Some 0 else num 20 6) of
        (Some y, Some mo, Some d, Some h, Some mi, Some ss, Some us) \<Rightarrow>
          Some (instant (int y) (mo - 1) (int d) (int h) (int mi) (int ss) (int us))
      | _ \<Rightarrow> None)"

lemma length_pad [simp]: "length (pad w n) = w"
  by (induction w arbitrary: n) auto

lemma nat_in_pad: "n < 10 ^ w \<Longrightarrow> nat_in 0 (pad w n) = Some n"
proof (induction w arbitrary: n)
  case (Suc w)
  then have "n div 10 < 10 ^ w" by (simp add: less_mult_imp_div_less mult.commute)
  with Suc.IH show ?case by (simp add: nat_in_append)
qed simp

lemma month_days_31: "m < 12 \<Longrightarrow> month_days leap ! m \<le> 31"
  by (auto simp: month_days_def less_Suc_eq numeral_eq_Suc)

definition calendar_pg :: pg where
  "calendar_pg = sample_pg\<lparr>pg_timestamptz_in := read_iso\<rparr>"

lemma calendar_pg_ok: "iso_in_ok calendar_pg" "interval_in_ok calendar_pg"
proof -
  show "interval_in_ok calendar_pg"
    by (simp add: interval_in_ok_def calendar_pg_def sample_pg_def)
  have "read_iso (iso_text y m d hh mi ss us @ ''Z'') = Some (instant y m d hh mi ss us)"
    if "1 \<le> y" "y \<le> 9999" "m < 12" "1 \<le> d" "d \<le> month_days (is_leap y) ! m" "0 \<le> hh" "hh < 24"
      "0 \<le> mi" "mi < 60" "0 \<le> ss" "ss < 60" "0 \<le> us" "us < second" for y m d hh mi ss us
  proof -
    have "d \<le> 31" using that(5) month_days_31 [OF that(3), of "is_leap y"] by simp
    with that have "nat y < 10 ^ 4" "Suc m < 10 ^ 2" "nat d < 10 ^ 2" "nat hh < 10 ^ 2" "nat mi < 10 ^ 2"
      "nat ss < 10 ^ 2" "nat us < 10 ^ 6"
      by (simp_all add: second_def nat_less_iff)
    note nums = this [THEN nat_in_pad]
    show ?thesis
      using that by (simp add: read_iso_def iso_text_def Let_def nums)
  qed
  then show "iso_in_ok calendar_pg" by (simp add: iso_in_ok_def calendar_pg_def)
qed

theorem start_after_read_witness:
  "start_after_of calendar_pg (encode_start_after (Some (SA_datetime 1500000000123456))) = Inr 1500000000123456"
proof -
  have "datetime_ok 1500000000123456" by code_simp
  with start_after_read [OF calendar_pg_ok(2,1)] show ?thesis by blast
qed

end
