(* ===== verification/Json_Text.thy ===== *)
theory Json_Text
  imports Pg_Engine "HOL-Library.AList"
begin

text \<open>
  \<^verbatim>\<open>json.dumps\<close> and \<^verbatim>\<open>json.loads\<close> as the program calls them: payloads, ids and outputs are bound as JSON
  text, and the codecs that \<^verbatim>\<open>underboss/db.py\<close> registers turn jsonb columns into Python objects and
  back. The printer writes the default format (separators with a space, everything but printable
  ASCII escaped), the reader takes any JSON text of the values modelled here, whitespace included:
  null, booleans, integers, strings of characters up to 255, arrays, objects. A number with a
  fraction or an exponent, which Python reads as a float, is no value of this model.
\<close>

section \<open>Printing\<close>

definition quote_char :: char where "quote_char = CHR 0x22"

definition backslash :: char where "backslash = CHR 0x5C"

definition hex_digits :: string where
  "hex_digits = ''0123456789abcdef''"

definition hex_digit :: "nat \<Rightarrow> char" where
  "hex_digit d = hex_digits ! d"

text \<open>\<^verbatim>\<open>ESCAPE_ASCII\<close> matches the quote, the backslash and what lies outside space to tilde.\<close>

definition escape_char :: "char \<Rightarrow> string" where
  "escape_char c =
     (if c = quote_char then [backslash, quote_char]
      else if c = backslash then [backslash, backslash]
      else if c = CHR 0x0A then [backslash, CHR ''n'']
      else if c = CHR 0x0D then [backslash, CHR ''r'']
      else if c = CHR 0x09 then [backslash, CHR ''t'']
      else if c = CHR 0x0C then [backslash, CHR ''f'']
      else if c = CHR 0x08 then [backslash, CHR ''b'']
      else if 32 \<le> (of_char c :: nat) \<and> (of_char c :: nat) < 127 then [c]
      else [backslash, CHR ''u'', CHR ''0'', CHR ''0'',
            hex_digit (of_char c div 16), hex_digit (of_char c mod 16)])"

definition dump_string :: "string \<Rightarrow> string" where
  "dump_string t = [quote_char] @ concat (map escape_char t) @ [quote_char]"

fun joined :: "string list \<Rightarrow> string" where
  "joined [] = []"
| "joined [x] = x"
| "joined (x # y # xs) = x @ '', '' @ joined (y # xs)"

fun json_dumps :: "json \<Rightarrow> string" where
  "json_dumps JNull = ''null''"
| "json_dumps (JBool b) = (if b then ''true'' else ''false'')"
| "json_dumps (JNum i) = str_of_int i"
| "json_dumps (JStr t) = dump_string t"
| "json_dumps (JArr vs) = ''['' @ joined (map json_dumps vs) @ '']''"
| "json_dumps (JObj kvs) = ''{'' @ joined (map (\<lambda>(k, v). dump_string k @ '': '' @ json_dumps v) kvs) @ ''}''"

section \<open>Reading\<close>

definition hex_val :: "char \<Rightarrow> nat option" where
  "hex_val c = map_of (zip hex_digits [0..<16] @ zip ''ABCDEF'' [10..<16]) c"

definition hex4 :: "string \<Rightarrow> nat option" where
  "hex4 cs =
     (case cs of
        [a, b, c, d] \<Rightarrow>
          (case (hex_val a, hex_val b, hex_val c, hex_val d) of
             (Some w, Some x, Some y, Some z) \<Rightarrow> Some (((w * 16 + x) * 16 + y) * 16 + z)
           | _ \<Rightarrow> None)
      | _ \<Rightarrow> None)"

text \<open>The character after a backslash, \<^verbatim>\<open>u\<close> apart.\<close>

definition unescape :: "char \<Rightarrow> char option" where
  "unescape c = map_of
     [(quote_char, quote_char), (backslash, backslash), (CHR ''/'', CHR ''/''), (CHR ''n'', CHR 0x0A),
      (CHR ''r'', CHR 0x0D), (CHR ''t'', CHR 0x09), (CHR ''f'', CHR 0x0C), (CHR ''b'', CHR 0x08)] c"

text \<open>The rest of a string after its opening quote: its characters and the text behind it.\<close>

function load_string :: "string \<Rightarrow> (string \<times> string) option" where
  "load_string [] = None"
| "load_string (c # cs) =
     (if c = quote_char then Some ([], cs)
      else if c = backslash then
        (case cs of
           [] \<Rightarrow> None
         | e # cs' \<Rightarrow>
             if e = CHR ''u'' then
               (case hex4 (take 4 cs') of
                  None \<Rightarrow> None
                | Some n \<Rightarrow> if n < 256 then map_option (apfst (Cons (char_of n))) (load_string (drop 4 cs')) else None)
             else
               (case unescape e of
                  None \<Rightarrow> None
                | Some x \<Rightarrow> map_option (apfst (Cons x)) (load_string cs')))
      else if (of_char c :: nat) < 32 then None
      else map_option (apfst (Cons c)) (load_string cs))"
  by pat_completeness auto

termination
  by (relation "measure length") auto

definition is_digit :: "char \<Rightarrow> bool" where
  "is_digit c \<longleftrightarrow> c \<in> set digits"

definition skip_ws :: "string \<Rightarrow> string" where
  "skip_ws t = dropWhile (\<lambda>c. c = CHR '' '' \<or> c = CHR 0x0A \<or> c = CHR 0x0D \<or> c = CHR 0x09) t"

text \<open>An integer: an optional minus and digits without a leading zero.\<close>

definition load_digits :: "string \<Rightarrow> (nat \<times> string) option" where
  "load_digits t =
     (case t of
        [] \<Rightarrow> None
      | c # cs \<Rightarrow>
          if c = CHR ''0'' then Some (0, cs)
          else if is_digit c then
            map_option (\<lambda>n. (n, dropWhile is_digit t)) (nat_in 0 (takeWhile is_digit t))
          else None)"

definition load_number :: "string \<Rightarrow> (json \<times> string) option" where
  "load_number t =
     (let (neg, u) = (case t of c # cs \<Rightarrow> if c = CHR ''-'' then (True, cs) else (False, t) | [] \<Rightarrow> (False, t))
      in case load_digits u of
           None \<Rightarrow> None
         | Some (n, r) \<Rightarrow>
             if r \<noteq> [] \<and> hd r \<in> set ''.eE'' then None
             else Some (JNum (if neg then - int n else int n), r))"

definition strip_prefix :: "string \<Rightarrow> string \<Rightarrow> string option" where
  "strip_prefix p t = (if take (length p) t = p then Some (drop (length p) t) else None)"

definition load_atom :: "string \<Rightarrow> (json \<times> string) option" where
  "load_atom t =
     (case strip_prefix ''null'' t of
        Some r \<Rightarrow> Some (JNull, r)
      | None \<Rightarrow>
          (case strip_prefix ''true'' t of
             Some r \<Rightarrow> Some (JBool True, r)
           | None \<Rightarrow>
               (case strip_prefix ''false'' t of
                  Some r \<Rightarrow> Some (JBool False, r)
                | None \<Rightarrow> load_number t)))"

text \<open>
  Values, the elements of an array up to its bracket and the members of an object up to its brace;
  the number bounds the depth of the recursion, and the length of the text is always enough. A
  repeated key keeps its last value.
\<close>

fun load_value :: "nat \<Rightarrow> string \<Rightarrow> (json \<times> string) option"
  and load_elements :: "nat \<Rightarrow> string \<Rightarrow> (json list \<times> string) option"
  and load_members :: "nat \<Rightarrow> string \<Rightarrow> ((string \<times> json) list \<times> string) option"
where
  "load_value 0 t = None"
| "load_value (Suc n) t =
     (case skip_ws t of
        [] \<Rightarrow> None
      | c # cs \<Rightarrow>
          if c = quote_char then map_option (apfst JStr) (load_string cs)
          else if c = CHR ''['' then
            (case skip_ws cs of
               d # r \<Rightarrow> if d = CHR '']'' then Some (JArr [], r) else map_option (apfst JArr) (load_elements n cs)
             | [] \<Rightarrow> None)
          else if c = CHR ''{'' then
            (case skip_ws cs of
               d # r \<Rightarrow>
                 if d = CHR ''}'' then Some (JObj [], r)
                 else map_option (apfst (\<lambda>kvs. JObj (fold (\<lambda>(k, v). AList.update k v) kvs []))) (load_members n cs)
             | [] \<Rightarrow> None)
          else load_atom (c # cs))"
| "load_elements 0 t = None"
| "load_elements (Suc n) t =
     (case load_value n t of
        None \<Rightarrow> None
      | Some (v, r) \<Rightarrow>
          (case skip_ws r of
             [] \<Rightarrow> None
           | c # r' \<Rightarrow>
               if c = CHR '']'' then Some ([v], r')
               else if c = CHR '','' then map_option (apfst (Cons v)) (load_elements n r')
               else None))"
| "load_members 0 t = None"
| "load_members (Suc n) t =
     (case skip_ws t of
        [] \<Rightarrow> None
      | q # cs \<Rightarrow>
          if q \<noteq> quote_char then None
          else
            (case load_string cs of
               None \<Rightarrow> None
             | Some (k, r) \<Rightarrow>
                 (case skip_ws r of
                    [] \<Rightarrow> None
                  | c # r1 \<Rightarrow>
                      if c \<noteq> CHR '':'' then None
                      else
                        (case load_value n r1 of
                           None \<Rightarrow> None
                         | Some (v, r2) \<Rightarrow>
                             (case skip_ws r2 of
                                [] \<Rightarrow> None
                              | e # r3 \<Rightarrow>
                                  if e = CHR ''}'' then Some ([(k, v)], r3)
                                  else if e = CHR '','' then map_option (apfst (Cons (k, v))) (load_members n r3)
                                  else None)))))"

definition json_loads :: "string \<Rightarrow> json option" where
  "json_loads t =
     (case load_value (Suc (length t)) t of
        None \<Rightarrow> None
      | Some (v, r) \<Rightarrow> if skip_ws r = [] then Some v else None)"

section \<open>Reading what was printed\<close>

subsection \<open>Strings\<close>

lemma hex_vals: "map hex_val hex_digits = map Some [0..<16]"
  by code_simp

lemma hex_val_digit:
  assumes "d < 16"
  shows "hex_val (hex_digit d) = Some d"
proof -
  have "map hex_val hex_digits ! d = Some d" using assms by (simp add: hex_vals)
  moreover have "d < length hex_digits" using assms by (simp add: hex_digits_def)
  ultimately show ?thesis by (simp add: hex_digit_def)
qed

lemma hex4_escape:
  assumes "n < 256"
  shows "hex4 [CHR ''0'', CHR ''0'', hex_digit (n div 16), hex_digit (n mod 16)] = Some n"
proof -
  have "hex_val (CHR ''0'') = Some 0" using hex_val_digit [of 0] by (simp add: hex_digit_def hex_digits_def)
  moreover have "n div 16 < 16" "n mod 16 < 16" using assms by auto
  ultimately show ?thesis by (simp add: hex4_def hex_val_digit)
qed

lemma of_char_256: "(of_char c :: nat) < 256"
  using range_nat_of_char by (metis atLeastLessThan_iff rangeI)

lemma load_escaped:
  "load_string (escape_char c @ rest) = map_option (apfst (Cons c)) (load_string rest)"
  using hex4_escape [OF of_char_256 [of c]] of_char_256 [of c]
  by (auto simp: escape_char_def unescape_def quote_char_def backslash_def)

lemma load_dumped_string: "load_string (concat (map escape_char t) @ quote_char # r) = Some (t, r)"
  by (induction t) (simp_all add: load_escaped)

subsection \<open>Numbers\<close>

text \<open>What may follow a value inside a printed text: a separator, a closing bracket, nothing.\<close>

definition ends_value :: "string \<Rightarrow> bool" where
  "ends_value r \<longleftrightarrow> r = [] \<or> hd r \<in> set '',]}''"

lemma digit_eq: "d < 10 \<Longrightarrow> digit d \<in> set digits \<and> (digit d = CHR ''0'' \<longleftrightarrow> d = 0)"
  by (drule less_10_cases) (auto simp: digit_def digits_def)

lemma hd_str_of_nat_zero: "hd (str_of_nat n) = CHR ''0'' \<longleftrightarrow> n = 0"
proof (induction n rule: str_of_nat.induct)
  case (1 n)
  show ?case
    by (cases "n < 10") (use 1 in \<open>auto simp: str_of_nat.simps [of n] digit_eq\<close>)
qed

lemma load_digits_of_nat:
  assumes "ends_value r"
  shows "load_digits (str_of_nat n @ r) = Some (n, r)"
proof -
  obtain c cs where c: "str_of_nat n = c # cs" by (cases "str_of_nat n") auto
  have all: "x \<in> set (str_of_nat n) \<Longrightarrow> is_digit x" for x
    using set_str_of_nat by (auto simp: is_digit_def)
  have stop: "r \<noteq> [] \<Longrightarrow> \<not> is_digit (hd r)"
    using assms by (auto simp: ends_value_def is_digit_def digits_def)
  have t: "takeWhile is_digit (str_of_nat n @ r) = str_of_nat n" "dropWhile is_digit (str_of_nat n @ r) = r"
    using all stop by (cases r; simp add: takeWhile_append2 dropWhile_append2)+
  show ?thesis
  proof (cases "n = 0")
    case True
    then show ?thesis by (simp add: str_of_nat.simps load_digits_def digit_def digits_def)
  next
    case False
    then have "c \<noteq> CHR ''0''" using hd_str_of_nat_zero [of n] c by simp
    moreover have "is_digit c" using all c by simp
    ultimately show ?thesis using t c nat_in_str_of_nat [of n] by (simp add: load_digits_def)
  qed
qed

lemma load_number_of_int:
  assumes "ends_value r"
  shows "load_number (str_of_int i @ r) = Some (JNum i, r)"
proof -
  obtain c cs where c: "str_of_nat (nat i) = c # cs" by (cases "str_of_nat (nat i)") auto
  have r: "\<not> (r \<noteq> [] \<and> hd r \<in> set ''.eE'')" using assms by (auto simp: ends_value_def)
  show ?thesis
    using load_digits_of_nat [OF assms, of "nat i"] load_digits_of_nat [OF assms, of "nat (- i)"]
      hd_str_of_nat [OF c] c r
    by (auto simp: load_number_def str_of_int_def Let_def)
qed

lemma str_of_int_head:
  obtains c cs where "str_of_int i = c # cs" "c = CHR ''-'' \<or> c \<in> set digits"
proof (cases "i < 0")
  case False
  with that set_str_of_nat [of "nat i"] show thesis
    by (cases "str_of_nat (nat i)") (auto simp: str_of_int_def)
qed (auto simp: str_of_int_def intro: that)

lemma load_atom_number:
  assumes "ends_value r"
  shows "load_atom (str_of_int i @ r) = Some (JNum i, r)"
proof -
  obtain c cs where "str_of_int i = c # cs" "c = CHR ''-'' \<or> c \<in> set digits"
    by (rule str_of_int_head)
  then have "strip_prefix (d # ds) (str_of_int i @ r) = None" if "d \<in> set ''ntf''" for d ds
    using that by (auto simp: strip_prefix_def digits_def)
  then show ?thesis by (simp add: load_atom_def load_number_of_int [OF assms])
qed

subsection \<open>Values\<close>

text \<open>A Python dict has each key once.\<close>

fun wf_json :: "json \<Rightarrow> bool" where
  "wf_json (JArr vs) \<longleftrightarrow> (\<forall>v \<in> set vs. wf_json v)"
| "wf_json (JObj kvs) \<longleftrightarrow> distinct (map fst kvs) \<and> (\<forall>(k, v) \<in> set kvs. wf_json v)"
| "wf_json _ \<longleftrightarrow> True"

definition opens_value :: "string \<Rightarrow> bool" where
  "opens_value t \<longleftrightarrow> (\<exists>c cs. t = c # cs \<and> (c \<in> {quote_char, CHR ''['', CHR ''{''} \<union> set ''-0123456789ntf''))"

lemma opens_dumps: "opens_value (json_dumps v)"
proof (cases v)
  case (JNum i)
  then show ?thesis
    by (auto simp: opens_value_def digits_def intro: str_of_int_head [of i])
qed (auto simp: opens_value_def dump_string_def)

lemma opens_append: "opens_value t \<Longrightarrow> opens_value (t @ r)"
  by (auto simp: opens_value_def)

lemma skip_ws_opens: "opens_value t \<Longrightarrow> skip_ws t = t"
  by (auto simp: opens_value_def skip_ws_def quote_char_def)

lemma skip_ws_ends: "ends_value r \<Longrightarrow> skip_ws r = r"
  by (cases r) (auto simp: ends_value_def skip_ws_def)

lemma skip_ws_dumps [simp]: "skip_ws (json_dumps v @ r) = json_dumps v @ r"
  by (intro skip_ws_opens opens_append opens_dumps)

lemma skip_ws_space [simp]: "skip_ws (CHR '' '' # t) = skip_ws t"
  by (simp add: skip_ws_def)

lemma load_space [simp]:
  "load_value n (CHR '' '' # t) = load_value n t"
  "load_elements n (CHR '' '' # t) = load_elements n t"
  "load_members n (CHR '' '' # t) = load_members n t"
proof -
  show v: "load_value n (CHR '' '' # t) = load_value n t" for n by (cases n) simp_all
  show "load_elements n (CHR '' '' # t) = load_elements n t" by (cases n) (simp_all add: v)
  show "load_members n (CHR '' '' # t) = load_members n t" by (cases n) simp_all
qed

lemma joined_Cons: "joined (x # xs) = x @ (if xs = [] then [] else '', '' @ joined xs)"
  by (cases xs) simp_all

lemma length_dumps: "0 < length (json_dumps v)"
  using opens_dumps [of v] by (auto simp: opens_value_def)

text \<open>\<open>reads v\<close>: wherever the printed value stands, reading gives it back.\<close>

definition reads :: "json \<Rightarrow> bool" where
  "reads v \<longleftrightarrow> (\<forall>n r. length (json_dumps v) \<le> n \<and> ends_value r \<longrightarrow> load_value n (json_dumps v @ r) = Some (v, r))"

lemma readsD: "reads v \<Longrightarrow> length (json_dumps v) \<le> n \<Longrightarrow> ends_value r \<Longrightarrow> load_value n (json_dumps v @ r) = Some (v, r)"
  by (simp add: reads_def)

lemma load_dumped_elements:
  assumes "\<forall>v \<in> set vs. reads v" "vs \<noteq> []" "length (joined (map json_dumps vs)) < n"
  shows "load_elements n (joined (map json_dumps vs) @ '']'' @ r) = Some (vs, r)"
  using assms
proof (induction vs arbitrary: n)
  case (Cons v vs)
  obtain m where n: "n = Suc m" using Cons.prems by (cases n) auto
  have v: "reads v" "length (json_dumps v) \<le> m"
    using Cons.prems by (auto simp: n joined_Cons split: if_splits)
  show ?case
  proof (cases "vs = []")
    case True
    have "ends_value ('']'' @ r)" by (simp add: ends_value_def)
    from readsD [OF v this] True show ?thesis by (simp add: n skip_ws_def)
  next
    case False
    let ?t = "joined (map json_dumps vs) @ '']'' @ r"
    have "ends_value ('', '' @ ?t)" by (simp add: ends_value_def)
    from readsD [OF v this] False have "load_value m (joined (map json_dumps (v # vs)) @ '']'' @ r) = Some (v, '', '' @ ?t)"
      by (simp add: joined_Cons)
    moreover have "load_elements m ?t = Some (vs, r)"
      using Cons.IH [of m] Cons.prems False by (auto simp: n joined_Cons)
    ultimately show ?thesis by (simp add: n skip_ws_def)
  qed
qed simp

definition member_text :: "string \<times> json \<Rightarrow> string" where
  "member_text kv = dump_string (fst kv) @ '': '' @ json_dumps (snd kv)"

lemma dumps_object: "json_dumps (JObj kvs) = ''{'' @ joined (map member_text kvs) @ ''}''"
  by (simp add: member_text_def [abs_def] case_prod_unfold)

text \<open>The members after the key and the colon: the first value and what the text behind it gives.\<close>

lemma load_members_step:
  assumes "reads v" "length (json_dumps v) \<le> m" "ends_value r"
  shows "load_members (Suc m) (member_text (k, v) @ r) =
    (if hd r = CHR ''}'' \<and> r \<noteq> [] then Some ([(k, v)], tl r)
     else if hd r = CHR '','' \<and> r \<noteq> [] then map_option (apfst (Cons (k, v))) (load_members m (tl r))
     else None)"
proof -
  have "skip_ws (quote_char # t) = quote_char # t" for t by (simp add: skip_ws_def quote_char_def)
  moreover have "skip_ws (CHR '':'' # t) = CHR '':'' # t" for t by (simp add: skip_ws_def)
  ultimately show ?thesis
    by (simp add: member_text_def dump_string_def load_dumped_string readsD [OF assms] skip_ws_ends [OF assms(3)]
        split: list.split)
qed

lemma length_member: "length (json_dumps v) + 4 \<le> length (member_text (k, v))"
  by (simp add: member_text_def dump_string_def)

lemma load_dumped_members:
  assumes "\<forall>kv \<in> set kvs. reads (snd kv)" "kvs \<noteq> []" "length (joined (map member_text kvs)) < n"
  shows "load_members n (joined (map member_text kvs) @ ''}'' @ r) = Some (kvs, r)"
  using assms
proof (induction kvs arbitrary: n)
  case (Cons kv kvs)
  obtain k v where kv: "kv = (k, v)" by (cases kv)
  obtain m where n: "n = Suc m" using Cons.prems by (cases n) auto
  have v: "reads v" "length (json_dumps v) \<le> m"
    using Cons.prems length_member [of v k] by (auto simp: n kv joined_Cons split: if_splits)
  show ?case
  proof (cases "kvs = []")
    case True
    have "ends_value (''}'' @ r)" by (simp add: ends_value_def)
    from load_members_step [OF v this] True show ?thesis by (simp add: n kv)
  next
    case False
    let ?t = "joined (map member_text kvs) @ ''}'' @ r"
    have "ends_value ('', '' @ ?t)" by (simp add: ends_value_def)
    from load_members_step [OF v this]
    have "load_members n (member_text kv @ '', '' @ ?t) = map_option (apfst (Cons kv)) (load_members m ?t)"
      by (simp add: n kv)
    moreover have "load_members m ?t = Some (kvs, r)"
      using Cons.IH [of m] Cons.prems False by (auto simp: n joined_Cons)
    ultimately show ?thesis using False by (simp add: joined_Cons)
  qed
qed simp

lemma update_new: "k \<notin> fst ` set al \<Longrightarrow> AList.update k v al = al @ [(k, v)]"
  by (induction al) auto

lemma fold_update_distinct:
  "distinct (map fst (al @ kvs)) \<Longrightarrow> fold (\<lambda>(k, v). AList.update k v) kvs al = al @ kvs"
proof (induction kvs arbitrary: al)
  case (Cons kv kvs)
  then have "AList.update (fst kv) (snd kv) al = al @ [kv]" by (subst update_new) auto
  moreover have "fold (\<lambda>(k, v). AList.update k v) kvs (al @ [kv]) = al @ kv # kvs"
    using Cons.IH [of "al @ [kv]"] Cons.prems by simp
  ultimately show ?case by (simp add: case_prod_unfold)
qed simp

lemma reads_array:
  assumes "\<forall>v \<in> set vs. reads v"
  shows "reads (JArr vs)"
  unfolding reads_def
proof (intro allI impI, elim conjE)
  fix n r assume n: "length (json_dumps (JArr vs)) \<le> n" and "ends_value r"
  then obtain m where m: "n = Suc m" by (cases n) auto
  show "load_value n (json_dumps (JArr vs) @ r) = Some (JArr vs, r)"
  proof (cases vs)
    case Nil
    then show ?thesis by (simp add: m skip_ws_def quote_char_def)
  next
    case (Cons v us)
    have "opens_value (joined (map json_dumps vs) @ '']'' @ r)"
      using Cons opens_dumps [of v] by (auto simp: joined_Cons opens_append)
    moreover have "load_elements m (joined (map json_dumps vs) @ '']'' @ r) = Some (vs, r)"
      using n by (intro load_dumped_elements) (auto simp: assms Cons m)
    ultimately show ?thesis
      by (auto simp: m skip_ws_def quote_char_def opens_value_def)
  qed
qed

lemma reads_object:
  assumes "\<forall>kv \<in> set kvs. reads (snd kv)" "distinct (map fst kvs)"
  shows "reads (JObj kvs)"
  unfolding reads_def
proof (intro allI impI, elim conjE)
  fix n r assume n: "length (json_dumps (JObj kvs)) \<le> n" and "ends_value r"
  then obtain m where m: "n = Suc m" by (cases n) auto
  show "load_value n (json_dumps (JObj kvs) @ r) = Some (JObj kvs, r)"
  proof (cases kvs)
    case Nil
    then show ?thesis by (simp add: m skip_ws_def quote_char_def)
  next
    case (Cons kv us)
    have "opens_value (joined (map member_text kvs) @ ''}'' @ r)"
      using Cons by (auto simp: joined_Cons opens_value_def member_text_def dump_string_def)
    moreover have "load_members m (joined (map member_text kvs) @ ''}'' @ r) = Some (kvs, r)"
      using n unfolding dumps_object by (intro load_dumped_members) (auto simp: assms Cons m)
    ultimately show ?thesis
      using fold_update_distinct [of "[]" kvs] assms(2)
      by (auto simp: m dumps_object skip_ws_def quote_char_def opens_value_def simp del: json_dumps.simps)
  qed
qed

lemma skip_ws_quote [simp]: "skip_ws (quote_char # t) = quote_char # t"
  by (simp add: skip_ws_def quote_char_def)

lemma reads_string: "reads (JStr t)"
  unfolding reads_def
proof (intro allI impI, elim conjE)
  fix n r assume "length (json_dumps (JStr t)) \<le> n"
  then show "load_value n (json_dumps (JStr t) @ r) = Some (JStr t, r)"
    by (cases n) (auto simp: dump_string_def load_dumped_string)
qed

lemma reads_number: "reads (JNum i)"
  unfolding reads_def
proof (intro allI impI, elim conjE)
  fix n r assume n: "length (json_dumps (JNum i)) \<le> n" and r: "ends_value r"
  then obtain m where m: "n = Suc m" using length_dumps [of "JNum i"] by (cases n) auto
  obtain c cs where c: "str_of_int i = c # cs" "c = CHR ''-'' \<or> c \<in> set digits"
    by (rule str_of_int_head)
  moreover have "c \<noteq> quote_char \<and> c \<noteq> CHR ''['' \<and> c \<noteq> CHR ''{''"
    using c(2) by (auto simp: quote_char_def digits_def)
  ultimately show "load_value n (json_dumps (JNum i) @ r) = Some (JNum i, r)"
    using load_atom_number [OF r, of i] skip_ws_dumps [of "JNum i" r] by (simp add: m)
qed

lemma reads_word: "reads JNull" "reads (JBool b)"
proof -
  have load: "load_value n (json_dumps v @ r) = Some (v, r)"
    if "v = JNull \<or> v = JBool b" "length (json_dumps v) \<le> n" for n r v
    using that by (cases n; cases b) (auto simp: skip_ws_def quote_char_def load_atom_def strip_prefix_def)
  then show "reads JNull" "reads (JBool b)" by (simp_all add: reads_def del: json_dumps.simps)
qed

lemma reads_wf: "wf_json v \<Longrightarrow> reads v"
proof (induction v)
  case (JObj kvs)
  then show ?case by (intro reads_object) (fastforce simp: snds.simps)+
qed (auto intro: reads_array reads_string reads_number reads_word)

lemma json_loads_dumps: "wf_json v \<Longrightarrow> json_loads (json_dumps v) = Some v"
  using readsD [OF reads_wf, of v "Suc (length (json_dumps v))" "[]"]
  by (simp add: json_loads_def ends_value_def skip_ws_def)

end
