(* ===== verification/Db_Access.thy ===== *)
theory Db_Access
  imports Payload Lifecycle Json_Text
begin

text \<open>
  \<^verbatim>\<open>Database\<close> of \<^verbatim>\<open>underboss/db.py\<close>: the pool, its JSON codecs, and statements run on it. A pool the caller
  supplied has the codecs or not; the pool \<open>open\<close> creates always has them. Without them asyncpg hands
  out a jsonb value as the server's text of it, and takes nothing but such text for a jsonb parameter.
\<close>

section \<open>The connection pool\<close>

text \<open>What \<open>open\<close> passes to \<^verbatim>\<open>asyncpg.create_pool\<close> beside the DSN.\<close>

record pool_options =
  po_min_size :: int
  po_max_size :: int
  po_codecs :: bool
  po_search_path :: "string option"

datatype pool = Supplied bool | Created "string option" pool_options

record Database =
  db_dsn :: "string option"
  db_pool :: "pool option"
  db_owns_pool :: bool
  db_min_size :: int
  db_max_size :: int
  db_schema :: "string option"

text \<open>\<open>pool\<close> is the caller's, with or without the codecs, if there is one.\<close>

definition Database_new ::
  "string option \<Rightarrow> bool option \<Rightarrow> int \<Rightarrow> int \<Rightarrow> string option \<Rightarrow> error + Database" where
  "Database_new dsn pool min_size max_size schema =
     (if dsn = None \<and> pool = None
      then Inl (ValueError ''Database requires either a dsn or an existing pool'')
      else Inr \<lparr>db_dsn = dsn, db_pool = map_option Supplied pool, db_owns_pool = (pool = None),
                db_min_size = min_size, db_max_size = max_size, db_schema = schema\<rparr>)"

definition pool_kwargs :: "Database \<Rightarrow> pool_options" where
  "pool_kwargs b =
     \<lparr>po_min_size = db_min_size b, po_max_size = db_max_size b, po_codecs = True,
      po_search_path =
        (case db_schema b of
           None \<Rightarrow> None
         | Some n \<Rightarrow> if n = [] then None else Some (n @ '', public''))\<rparr>"

definition Database_open :: "Database \<Rightarrow> Database" where
  "Database_open b =
     (if db_pool b \<noteq> None then b else b\<lparr>db_pool := Some (Created (db_dsn b) (pool_kwargs b))\<rparr>)"

text \<open>\<open>close\<close>, with the pool it closes, if any.\<close>

definition Database_close :: "Database \<Rightarrow> Database \<times> pool option" where
  "Database_close b =
     (b\<lparr>db_pool := None\<rparr>, if db_pool b \<noteq> None \<and> db_owns_pool b then db_pool b else None)"

lemma Database_open_pool [simp]: "db_pool (Database_open b) \<noteq> None"
  by (simp add: Database_open_def)

section \<open>Running a statement\<close>

text \<open>
  On the caller's connection when there is one, else on the pool, which must be open. A statement
  that raises changes nothing.
\<close>

definition execute ::
  "Database \<Rightarrow> bool \<Rightarrow> (db \<Rightarrow> db_error + db \<times> 'a) \<Rightarrow> db \<Rightarrow> (error + 'a) \<times> db" where
  "execute b connection f d =
     (if \<not> connection \<and> db_pool b = None
      then (Inl (RuntimeError ''Database is not open; call open() first''), d)
      else case f d of Inl e \<Rightarrow> (Inl (Db e), d) | Inr (d', x) \<Rightarrow> (Inr x, d'))"

definition no_rows :: "(db \<Rightarrow> db_error + db) \<Rightarrow> db \<Rightarrow> db_error + db \<times> unit" where
  "no_rows f d = bindr (f d) (\<lambda>d'. Inr (d', ()))"

definition reading :: "(db \<Rightarrow> db_error + 'a) \<Rightarrow> db \<Rightarrow> db_error + db \<times> 'a" where
  "reading f d = bindr (f d) (\<lambda>x. Inr (d, x))"

text \<open>Continue with a value, at the tables the statement left.\<close>

definition and_then :: "(error + 'a) \<times> db \<Rightarrow> ('a \<Rightarrow> error + 'b) \<Rightarrow> (error + 'b) \<times> db" where
  "and_then r f = (bindr (fst r) f, snd r)"

section \<open>JSON columns and parameters\<close>

definition has_codecs :: "Database \<Rightarrow> bool" where
  "has_codecs b =
     (case db_pool b of
        None \<Rightarrow> True
      | Some (Supplied codecs) \<Rightarrow> codecs
      | Some (Created dsn options) \<Rightarrow> po_codecs options)"

text \<open>A jsonb value of a row as Python gets it, and the rows that hold some.\<close>

definition received :: "Database \<Rightarrow> pg \<Rightarrow> json option \<Rightarrow> json option" where
  "received b s v = (if has_codecs b then v else map_option (\<lambda>x. JStr (pg_jsonb_out s x)) v)"

definition received_row :: "Database \<Rightarrow> pg \<Rightarrow> job_row \<Rightarrow> job_row" where
  "received_row b s r = r\<lparr>j_data := received b s (j_data r), j_output := received b s (j_output r)\<rparr>"

definition received_schedule :: "Database \<Rightarrow> pg \<Rightarrow> schedule_row \<Rightarrow> schedule_row" where
  "received_schedule b s r =
     r\<lparr>sch_data := received b s (sch_data r), sch_options := received b s (sch_options r)\<rparr>"

text \<open>
  A Python value bound to a jsonb parameter: the codec dumps it; without one asyncpg wants text and
  raises \<^verbatim>\<open>DataError\<close> for anything else. \<^verbatim>\<open>None\<close> is NULL either way.
\<close>

definition bind_jsonb :: "Database \<Rightarrow> pg \<Rightarrow> json option \<Rightarrow> error + json option" where
  "bind_jsonb b s v =
     (case v of
        None \<Rightarrow> Inr None
      | Some x \<Rightarrow>
          if has_codecs b then Inr (Some x)
          else (case x of
                  JStr t \<Rightarrow> map_sum Db Some (of_option InvalidTextRepresentation (pg_jsonb_in s t))
                | _ \<Rightarrow> Inl DataError))"

lemma received_codecs [simp]:
  assumes "has_codecs b"
  shows "received b s v = v" "received_row b s r = r" "received_schedule b s sch = sch" "bind_jsonb b s v = Inr v"
  using assms by (simp_all add: received_def received_row_def received_schedule_def bind_jsonb_def split: option.split)

lemma received_row_simps [simp]:
  "j_id (received_row b s r) = j_id r" "j_name (received_row b s r) = j_name r"
  by (simp_all add: received_row_def)

lemma received_schedule_simps [simp]:
  "sch_name (received_schedule b s r) = sch_name r" "sch_key (received_schedule b s r) = sch_key r"
  "sch_cron (received_schedule b s r) = sch_cron r" "sch_timezone (received_schedule b s r) = sch_timezone r"
  by (simp_all add: received_schedule_def)

lemma bind_jsonb_None [simp]: "bind_jsonb b s None = Inr None"
  by (simp add: bind_jsonb_def)

text \<open>A database with its own pool, as an object with a DSN makes it.\<close>

definition own_database :: "string \<Rightarrow> Database" where
  "own_database dsn =
     \<lparr>db_dsn = Some dsn, db_pool = None, db_owns_pool = True, db_min_size = 2, db_max_size = 10,
      db_schema = Some ''underboss''\<rparr>"

definition own_pool :: Database where
  "own_pool = Database_open (own_database ''dsn'')"

lemma own_pool_open [simp]: "db_pool own_pool \<noteq> None" "has_codecs own_pool"
  by (simp_all add: own_pool_def has_codecs_def Database_open_def own_database_def pool_kwargs_def)

section \<open>The text of the parameters\<close>

text \<open>
  Payloads, options, ids and outputs are bound as text, which the server casts to jsonb; the statements
  of this development take the values. The keys of a payload are distinct, so nothing is lost between.
\<close>

definition new_key :: "string \<Rightarrow> (string \<times> json) list \<Rightarrow> bool" where
  "new_key k kvs \<longleftrightarrow> k \<notin> fst ` set kvs"

lemma new_key_simps:
  "new_key k []" "new_key k ((k', v) # kvs) \<longleftrightarrow> k \<noteq> k' \<and> new_key k kvs"
  "new_key k (xs @ ys) \<longleftrightarrow> new_key k xs \<and> new_key k ys"
  "k \<noteq> k' \<Longrightarrow> new_key k (opt_entry k' w)"
  by (auto simp: new_key_def opt_entry_def split: option.splits)

lemma wf_entries:
  "wf_json (JObj [])"
  "wf_json v \<Longrightarrow> new_key k kvs \<Longrightarrow> wf_json (JObj kvs) \<Longrightarrow> wf_json (JObj ((k, v) # kvs))"
  "(\<And>v. w = Some v \<Longrightarrow> wf_json v) \<Longrightarrow> wf_json (JObj (opt_entry k w))"
  "(\<And>v. w = Some v \<Longrightarrow> wf_json v) \<Longrightarrow> new_key k kvs \<Longrightarrow> wf_json (JObj kvs) \<Longrightarrow> wf_json (JObj (opt_entry k w @ kvs))"
  by (auto simp: new_key_def opt_entry_def split: option.splits)

lemma wf_job_payload:
  assumes "\<And>kvs. data = Some kvs \<Longrightarrow> wf_json (JObj kvs)"
  shows "wf_json (JObj (job_payload data options))"
  unfolding job_payload_def group_entries_def append_Cons append_Nil
  using assms
  by (cases "so_singleton_seconds options"; cases "so_group options"; simp del: wf_json.simps(2))
    (auto intro!: wf_entries simp: new_key_simps simp del: wf_json.simps(2))

lemma wf_job_insert_payload:
  assumes "\<And>kvs. ji_data job = Some kvs \<Longrightarrow> wf_json (JObj kvs)"
  shows "wf_json (JObj (job_insert_payload job))"
  unfolding job_insert_payload_def group_entries_def append_Cons append_Nil
  using assms
  by (cases "ji_group job"; simp del: wf_json.simps(2))
    (auto intro!: wf_entries simp: new_key_simps simp del: wf_json.simps(2))

lemma wf_queue_options_payload: "wf_json (JObj (queue_options_payload o'))"
  unfolding queue_options_payload_def append_Cons append_Nil
  by (auto intro!: wf_entries simp: new_key_simps simp del: wf_json.simps(2))

text \<open>The text of the parameters loses nothing: what \<^verbatim>\<open>send\<close>, \<^verbatim>\<open>insert\<close>, \<^verbatim>\<open>create_queue\<close> and the settling and
  state-changing calls dump as JSON text determines the payloads, options and ids they built,
  whatever characters the strings hold, provided each mapping of the caller's data has its keys
  once, as every Python dict has. The reader here is Python's own; the statements of the model take
  the values, that is, the server's cast to jsonb is taken to read JSON text the same way.\<close>
theorem bound_text_read:
  assumes "\<And>kvs. data = Some kvs \<Longrightarrow> wf_json (JObj kvs)"
    "\<And>job kvs. job \<in> set js \<Longrightarrow> ji_data job = Some kvs \<Longrightarrow> wf_json (JObj kvs)"
  shows "json_loads (json_dumps (JArr [JObj (job_payload data options)])) = Some (JArr [JObj (job_payload data options)]) \<and>
    json_loads (json_dumps (JArr (map (\<lambda>job. JObj (job_insert_payload job)) js))) =
      Some (JArr (map (\<lambda>job. JObj (job_insert_payload job)) js)) \<and>
    json_loads (json_dumps (JObj (queue_options_payload o'))) = Some (JObj (queue_options_payload o')) \<and>
    json_loads (json_dumps (JArr (map JStr ids))) = Some (JArr (map JStr ids))"
proof (intro conjI json_loads_dumps)
  show "wf_json (JArr [JObj (job_payload data options)])"
    using wf_job_payload [OF assms(1), of data options] by simp
  show "wf_json (JArr (map (\<lambda>job. JObj (job_insert_payload job)) js))"
    using wf_job_insert_payload assms(2) by (simp del: wf_json.simps(2))
qed (simp_all add: wf_queue_options_payload del: wf_json.simps(2))

theorem bound_text_read_witness:
  "json_loads (json_dumps (JArr [JObj (job_payload (Some [(''a'', JArr [JNum (-7), JStr [CHR 0x0A, CHR 0x22]])]) SendOptions_default)])) =
     Some (JArr [JObj (job_payload (Some [(''a'', JArr [JNum (-7), JStr [CHR 0x0A, CHR 0x22]])]) SendOptions_default)])"
  using bound_text_read [of "Some [(''a'', JArr [JNum (-7), JStr [CHR 0x0A, CHR 0x22]])]" "[]"] by simp

end
