(* ===== verification/Boss_Calls.thy ===== *)
theory Boss_Calls
  imports Db_Access
begin

text \<open>
  The methods of \<^verbatim>\<open>Underboss\<close> (\<^verbatim>\<open>underboss/underboss.py\<close>) that run one statement: \<^verbatim>\<open>create_queue\<close>, \<^verbatim>\<open>send\<close>, \<^verbatim>\<open>insert\<close>, \<^verbatim>\<open>fetch\<close>, \<^verbatim>\<open>get_job\<close>, \<^verbatim>\<open>complete\<close>, \<^verbatim>\<open>cancel\<close>, \<^verbatim>\<open>resume\<close>, \<^verbatim>\<open>retry\<close>,
  \<^verbatim>\<open>delete_job\<close>, \<^verbatim>\<open>get_queue\<close>, \<^verbatim>\<open>get_queues\<close>. A call takes the server its statement runs on and the
  tables and gives its result, a value or the exception, with the tables after it. They need of
  the object only its \<^verbatim>\<open>_started\<close> flag and its \<^verbatim>\<open>Database\<close>, the record \<open>core\<close>, which the whole object
  extends.
\<close>

record core =
  ub_started :: bool
  ub_db :: Database

definition require_started :: "('z core_scheme) \<Rightarrow> (error + 'a) \<times> db \<Rightarrow> db \<Rightarrow> (error + 'a) \<times> db" where
  "require_started b r d = (if \<not> ub_started b then (Inl NotStartedError, d) else r)"

section \<open>The calls\<close>

definition boss_create_queue ::
  "('z core_scheme) \<Rightarrow> pg \<Rightarrow> bool \<Rightarrow> string \<Rightarrow> QueueOptions option \<Rightarrow> db \<Rightarrow> (error + unit) \<times> db" where
  "boss_create_queue b s connection name options d =
     require_started b
       (let payload = queue_options_payload (coalesce options QueueOptions_default)
        in execute (ub_db b) connection (no_rows (create_queue s name (JObj payload))) d) d"

definition boss_send ::
  "('z core_scheme) \<Rightarrow> pg \<Rightarrow> bool \<Rightarrow> string \<Rightarrow> (string \<times> json) list option \<Rightarrow> SendOptions option \<Rightarrow> db \<Rightarrow>
     (error + string option) \<times> db" where
  "boss_send b s connection name data options d =
     require_started b
       (let payload = job_payload data (coalesce options SendOptions_default)
        in and_then (execute (ub_db b) connection (insert_jobs s [JObj payload] name) d) (\<lambda>rows.
             Inr (case rows of [] \<Rightarrow> None | u # us \<Rightarrow> Some (pg_uuid_out s u)))) d"

definition boss_insert ::
  "('z core_scheme) \<Rightarrow> pg \<Rightarrow> bool \<Rightarrow> string \<Rightarrow> JobInsert list \<Rightarrow> db \<Rightarrow> (error + string list) \<times> db" where
  "boss_insert b s connection name js d =
     require_started b
       (let payloads = map (\<lambda>j. JObj (job_insert_payload j)) js
        in and_then (execute (ub_db b) connection (insert_jobs s payloads name) d) (\<lambda>rows.
             Inr (map (pg_uuid_out s) rows))) d"

definition boss_fetch ::
  "('z core_scheme) \<Rightarrow> pg \<Rightarrow> string \<Rightarrow> int \<Rightarrow> bool \<Rightarrow> int option \<Rightarrow> db \<Rightarrow> (error + Job list) \<times> db" where
  "boss_fetch b s name batch_size include_metadata group_concurrency d =
     require_started b
       (and_then (execute (ub_db b) False (fetch_next_job s name batch_size group_concurrency) d)
          (traverse (\<lambda>r. row_to_job s include_metadata (received_row (ub_db b) s r)))) d"

definition boss_get_job ::
  "('z core_scheme) \<Rightarrow> pg \<Rightarrow> string \<Rightarrow> string \<Rightarrow> db \<Rightarrow> (error + Job option) \<times> db" where
  "boss_get_job b s name jid d =
     require_started b
       (and_then (execute (ub_db b) False (reading (get_job_by_id s name jid)) d) (\<lambda>row.
          case row of
            None \<Rightarrow> Inr None
          | Some r \<Rightarrow> bindr (row_to_job s True (received_row (ub_db b) s r)) (\<lambda>j. Inr (Some j)))) d"

definition boss_complete ::
  "('z core_scheme) \<Rightarrow> pg \<Rightarrow> string \<Rightarrow> string \<Rightarrow> (string \<times> json) list option \<Rightarrow> db \<Rightarrow> (error + unit) \<times> db" where
  "boss_complete b s name jid out d =
     require_started b
       (and_then (execute (ub_db b) False (complete_jobs s name [jid] (map_option JObj out)) d) (\<lambda>rows.
          Inr ())) d"

definition boss_cancel ::
  "('z core_scheme) \<Rightarrow> pg \<Rightarrow> string \<Rightarrow> string \<Rightarrow> db \<Rightarrow> (error + unit) \<times> db" where
  "boss_cancel b s name jid d =
     require_started b
       (and_then (execute (ub_db b) False (cancel_jobs s name [jid]) d) (\<lambda>rows. Inr ())) d"

definition boss_resume ::
  "('z core_scheme) \<Rightarrow> pg \<Rightarrow> string \<Rightarrow> string \<Rightarrow> db \<Rightarrow> (error + unit) \<times> db" where
  "boss_resume b s name jid d =
     require_started b
       (and_then (execute (ub_db b) False (resume_jobs s name [jid]) d) (\<lambda>rows. Inr ())) d"

definition boss_retry ::
  "('z core_scheme) \<Rightarrow> pg \<Rightarrow> string \<Rightarrow> string \<Rightarrow> db \<Rightarrow> (error + unit) \<times> db" where
  "boss_retry b s name jid d =
     require_started b
       (and_then (execute (ub_db b) False (retry_jobs s name [jid]) d) (\<lambda>rows. Inr ())) d"

definition boss_delete_job ::
  "('z core_scheme) \<Rightarrow> pg \<Rightarrow> string \<Rightarrow> string \<Rightarrow> db \<Rightarrow> (error + unit) \<times> db" where
  "boss_delete_job b s name jid d =
     require_started b (execute (ub_db b) False (no_rows (delete_jobs s name [jid])) d) d"

definition boss_get_queue ::
  "('z core_scheme) \<Rightarrow> string \<Rightarrow> db \<Rightarrow> (error + Queue option) \<times> db" where
  "boss_get_queue b name d =
     require_started b
       (and_then (execute (ub_db b) False (reading (\<lambda>d. Inr (get_queue name d))) d) (\<lambda>row.
          case row of None \<Rightarrow> Inr None | Some r \<Rightarrow> bindr (row_to_queue r) (\<lambda>q. Inr (Some q)))) d"

definition boss_get_queues :: "('z core_scheme) \<Rightarrow> db \<Rightarrow> (error + Queue list) \<times> db" where
  "boss_get_queues b d =
     require_started b
       (and_then (execute (ub_db b) False (reading (\<lambda>d. Inr (get_queues d))) d) (traverse row_to_queue)) d"

lemmas boss_calls =
  boss_create_queue_def boss_send_def boss_insert_def boss_fetch_def boss_get_job_def boss_complete_def
  boss_cancel_def boss_resume_def boss_retry_def boss_delete_job_def boss_get_queue_def boss_get_queues_def

section \<open>Every call is a step or none\<close>

lemma execute_cases:
  assumes "execute b c f d = (r, d')"
  obtains (raised) e where "r = Inl e" "d' = d" | (ran) x where "f d = Inr (d', x)" "r = Inr x"
  using assms by (auto simp: execute_def split: if_splits sum.splits prod.splits)

lemma snd_and_then [simp]: "snd (and_then r f) = snd r"
  by (simp add: and_then_def)

context runs
begin

lemma execute_runs: "(\<And>d' x. f d = Inr (d', x) \<Longrightarrow> R d d') \<Longrightarrow> R d (snd (execute b c f d))"
  by (cases "execute b c f d") (auto elim: execute_cases simp: R_refl)

lemma require_started_runs: "R d (snd r) \<Longrightarrow> R d (snd (require_started b r d))"
  by (simp add: require_started_def R_refl)

lemma create_queue_runs: "R d (snd (boss_create_queue b s c name qopts d))"
  by (auto simp: boss_create_queue_def no_rows_def Let_def intro!: require_started_runs execute_runs
      elim!: R_create simp: queue_options_policy)

lemma boss_calls_run:
  "R d (snd (boss_send b s c name data sopts d))"
  "R d (snd (boss_insert b s c name js d))"
  "R d (snd (boss_fetch b s name n m gc d))"
  "R d (snd (boss_get_job b s name i d))"
  "R d (snd (boss_complete b s name i out d))"
  "R d (snd (boss_cancel b s name i d))"
  "R d (snd (boss_resume b s name i d))"
  "R d (snd (boss_retry b s name i d))"
  "R d (snd (boss_delete_job b s name i d))"
  "R d (snd (boss_get_queue b name d))"
  "R d (snd (boss_get_queues b d))"
  by (auto simp: boss_calls no_rows_def reading_def Let_def R_refl
      intro!: require_started_runs execute_runs
      intro: step.intros [THEN R_step] fetch_runs)

end

section \<open>Properties\<close>

text \<open>Nothing happens before \<^verbatim>\<open>start()\<close> or after \<^verbatim>\<open>stop()\<close>: on an object that is not started every call
  raises \<^verbatim>\<open>NotStartedError\<close>, also one with a connection of the caller's, and the tables stay as they
  are.\<close>
theorem not_started_refuses:
  assumes "\<not> ub_started b"
  shows "boss_create_queue b s c name qopts d = (Inl NotStartedError, d) \<and>
    boss_send b s c name data sopts d = (Inl NotStartedError, d) \<and>
    boss_insert b s c name js d = (Inl NotStartedError, d) \<and>
    boss_fetch b s name n m gc d = (Inl NotStartedError, d) \<and>
    boss_get_job b s name i d = (Inl NotStartedError, d) \<and>
    boss_complete b s name i out d = (Inl NotStartedError, d) \<and>
    boss_cancel b s name i d = (Inl NotStartedError, d) \<and>
    boss_resume b s name i d = (Inl NotStartedError, d) \<and>
    boss_retry b s name i d = (Inl NotStartedError, d) \<and>
    boss_delete_job b s name i d = (Inl NotStartedError, d) \<and>
    boss_get_queue b name d = (Inl NotStartedError, d) \<and>
    boss_get_queues b d = (Inl NotStartedError, d)"
  using assms by (simp add: boss_calls require_started_def)

definition running_core :: core where
  "running_core = \<lparr>ub_started = True, ub_db = own_pool\<rparr>"

theorem not_started_refuses_witness:
  "boss_send (running_core\<lparr>ub_started := False\<rparr>) sample_pg True ''q'' None None (sample_db [] []) =
     (Inl NotStartedError, sample_db [] [])"
  using not_started_refuses [of "running_core\<lparr>ub_started := False\<rparr>"] by simp

text \<open>The object is started and its pool open, as \<^verbatim>\<open>start()\<close> leaves it.\<close>

definition running :: "('z core_scheme) \<Rightarrow> bool" where
  "running b \<longleftrightarrow> ub_started b \<and> db_pool (ub_db b) \<noteq> None"

lemma running_execute:
  "running b \<Longrightarrow> require_started b r d = r"
  "running b \<Longrightarrow> execute (ub_db b) c f d =
     (case f d of Inl e \<Rightarrow> (Inl (Db e), d) | Inr (d', x) \<Rightarrow> (Inr x, d'))"
  by (auto simp: running_def require_started_def execute_def)

lemma boss_fetch_rows:
  assumes "running b" "fetch_next_job s name n gc d = Inr (d', rows)"
  shows "boss_fetch b s name n m gc d = (Inr (map (\<lambda>r. job_of_row s m (received_row (ub_db b) s r)) rows), d')"
proof -
  have "traverse (\<lambda>r. row_to_job s m (received_row (ub_db b) s r)) rows =
      Inr (map (\<lambda>r. job_of_row s m (received_row (ub_db b) s r)) rows)"
    by (rule traverse_eq_map) simp
  with assms show ?thesis by (simp add: boss_fetch_def running_execute and_then_def del: row_to_job_total)
qed

lemma running_core [simp]: "running running_core"
  by (simp add: running_def running_core_def)

text \<open>The row \<open>send\<close> inserts: the options given, the queue's settings where none are.\<close>

definition throttle_slot :: "pg \<Rightarrow> SendOptions \<Rightarrow> int option" where
  "throttle_slot s options =
     (case so_singleton_seconds options of
        None \<Rightarrow> None
      | Some n \<Rightarrow> Some (n * ((pg_now s + (if so_singleton_next_slot options then n else 0) * second) div (n * second))
                   * second))"

definition sent_row :: "pg \<Rightarrow> queue_row \<Rightarrow> (string \<times> json) list option \<Rightarrow> SendOptions \<Rightarrow> int \<Rightarrow> job_row" where
  "sent_row s q data options start =
     \<lparr>j_id = pg_gen_uuid s 0, j_name = q_name q, j_priority = so_priority options,
      j_data = map_option JObj data, j_state = CREATED,
      j_retry_limit = coalesce (so_retry_limit options) (q_retry_limit q), j_retry_count = 0,
      j_retry_delay = coalesce (so_retry_delay options) (q_retry_delay q),
      j_retry_backoff = coalesce (so_retry_backoff options) (q_retry_backoff q),
      j_retry_delay_max = q_retry_delay_max q,
      j_expire_seconds = coalesce (so_expire_in_seconds options) (q_expire_seconds q),
      j_deletion_seconds = q_deletion_seconds q,
      j_singleton_key = so_singleton_key options, j_singleton_on = throttle_slot s options,
      j_group_id = map_option group_id (so_group options),
      j_group_tier = Option.bind (so_group options) group_tier,
      j_start_after = start, j_created_on = pg_now s, j_started_on = None, j_completed_on = None,
      j_keep_until = start + q_retention_seconds q * second, j_output = None,
      j_dead_letter = coalesce2 (so_dead_letter options) (q_dead_letter q),
      j_policy = Some (q_policy q), j_heartbeat_on = None,
      j_heartbeat_seconds = q_heartbeat_seconds q\<rparr>"

definition sendable :: "pg \<Rightarrow> SendOptions \<Rightarrow> int \<Rightarrow> bool" where
  "sendable s options start \<longleftrightarrow>
     SendOptions_ok options \<and> so_singleton_seconds options \<noteq> Some 0 \<and>
     start_after_of s (encode_start_after (so_start_after options)) = Inr start"

lemma sent_row_of:
  assumes "sendable s options start"
  shows "\<exists>x. job_spec_of s (JObj (job_payload data options)) = Inr x \<and>
    job_row_of s q 0 x = Inr (sent_row s q data options start)"
  using job_payload_spec [of options s start data] assms
  by (auto simp: sendable_def job_row_of_def job_defaults_def sent_row_def throttle_slot_def singleton_on_def
      split: option.split)

lemma rows_of_one_spec:
  "job_spec_of s x = Inr y \<Longrightarrow> job_row_of s q 0 y = Inr r \<Longrightarrow> rows_of_specs s q 0 [x] = Inr [r]"
  by simp

lemma insert_sent_row:
  fixes data :: "(string \<times> json) list option"
  assumes "sendable s options start" "find_queue name d = Some q"
  shows "insert_jobs s [JObj (job_payload data options)] name d =
    (let j = sent_row s q data options start in if \<not> job_check j then Inl CheckViolation
     else if conflicts (jobs d) j then Inr (d, [])
     else if \<not> fk_ok (j_dead_letter j) d then Inl ForeignKeyViolation
     else Inr (d\<lparr>jobs := jobs d @ [j]\<rparr>, [j_id j]))"
proof -
  from sent_row_of [OF assms(1)]
  have "rows_of_specs s q 0 [JObj (job_payload data options)] = Inr [sent_row s q data options start]"
    by (blast intro: rows_of_one_spec)
  with assms(2) show ?thesis by (simp add: insert_jobs_def Let_def del: rows_of_specs.simps)
qed

text \<open>C12. What \<open>send\<close> does on a running object, case by case. No such queue: it returns \<^verbatim>\<open>None\<close> and inserts
  nothing, without an error. A strict-FIFO queue and no key: a check violation. A policy index, the
  throttle or an id in the way: \<^verbatim>\<open>None\<close>, nothing inserted. A dead-letter queue that does not exist: a
  foreign key violation. Otherwise exactly one new \<^verbatim>\<open>created\<close> job, with the options given and the
  queue's settings for the rest, and its id is returned.\<close>
theorem send_outcome:
  assumes "running b" "sendable s options start"
  shows "boss_send b s c name data (Some options) d =
    (case find_queue name d of
       None \<Rightarrow> (Inr None, d)
     | Some q \<Rightarrow>
         let j = sent_row s q data options start
         in if \<not> job_check j then (Inl (Db CheckViolation), d)
            else if conflicts (jobs d) j then (Inr None, d)
            else if \<not> fk_ok (j_dead_letter j) d then (Inl (Db ForeignKeyViolation), d)
            else (Inr (Some (pg_uuid_out s (j_id j))), d\<lparr>jobs := jobs d @ [j]\<rparr>))"
proof (cases "find_queue name d")
  case None
  then show ?thesis
    by (simp add: boss_send_def running_execute [OF assms(1)] insert_jobs_def and_then_def)
next
  case (Some q)
  from insert_sent_row [OF assms(2) this] Some show ?thesis
    by (simp add: boss_send_def running_execute [OF assms(1)] and_then_def Let_def)
qed

definition throttled_options :: SendOptions where
  "throttled_options = SendOptions_default\<lparr>so_singleton_seconds := Some 60\<rparr>"

lemma throttled_options_sendable: "sendable sample_pg throttled_options 1000000000"
  by code_simp

theorem send_outcome_witness:
  "\<exists>j. boss_send running_core sample_pg False ''q'' None (Some throttled_options)
     (sample_db [sample_queue ''q'' ''standard''] []) =
     (Inr (Some ''1000''), sample_db [sample_queue ''q'' ''standard''] [j]) \<and>
   j_retry_limit j = 2 \<and> j_singleton_on j = Some 960000000"
proof -
  let ?d = "sample_db [sample_queue ''q'' ''standard''] []"
  let ?j = "sent_row sample_pg (sample_queue ''q'' ''standard'') None throttled_options 1000000000"
  have "find_queue ''q'' ?d = Some (sample_queue ''q'' ''standard'')" by code_simp
  moreover have "job_check ?j" "\<not> conflicts (jobs ?d) ?j" "fk_ok (j_dead_letter ?j) ?d"
    "pg_uuid_out sample_pg (j_id ?j) = ''1000''" "j_retry_limit ?j = 2" "j_singleton_on ?j = Some 960000000"
    by code_simp+
  ultimately show ?thesis
    using send_outcome [OF running_core throttled_options_sendable, of False "''q''" None ?d]
    by (intro exI [of _ ?j]) (simp add: Let_def sample_db_def)
qed

text \<open>C16. Throttling: while a job of the queue with the same singleton key sits in a throttle slot, in
  any state but cancelled, a \<open>send\<close> whose slot is the same one is suppressed: it returns \<^verbatim>\<open>None\<close> and
  changes nothing. So per key and slot of \<^verbatim>\<open>singleton_seconds\<close> at most one job is sent.\<close>
theorem send_throttled:
  assumes "running b" "sendable s options start" "find_queue name d = Some q"
    "j \<in> set (jobs d)" "j_name j = name" "j_state j \<noteq> CANCELLED"
    "coalesce (j_singleton_key j) [] = coalesce (so_singleton_key options) []"
    "j_singleton_on j = Some slot" "throttle_slot s options = Some slot"
    "q_policy q \<noteq> ''key_strict_fifo'' \<or> so_singleton_key options \<noteq> None"
  shows "boss_send b s c name data (Some options) d = (Inr None, d)"
proof -
  let ?r = "sent_row s q data options start"
  have n: "j_name ?r = name" using find_queue_Some [OF assms(3)] by (simp add: sent_row_def)
  have "index_key Job_i4 ?r = Some (name, None, Some slot, coalesce (so_singleton_key options) [])"
    using assms(9) n by (simp add: index_defs) (simp add: sent_row_def)
  moreover have "index_key Job_i4 j = Some (name, None, Some slot, coalesce (so_singleton_key options) [])"
    using assms(5-8) by (simp add: index_defs)
  ultimately have "conflicts (jobs d) ?r"
    using assms(4) unfolding conflicts_def set_all_indexes by (metis UNIV_I image_eqI list.set_map option.distinct(1))
  moreover have "job_check ?r" using assms(10) by (auto simp: job_check_def sent_row_def)
  ultimately have "insert_jobs s [JObj (job_payload data options)] name d = Inr (d, [])"
    using insert_sent_row [OF assms(2,3)] by (simp add: Let_def)
  then show ?thesis by (simp add: boss_send_def running_execute [OF assms(1)] and_then_def)
qed

theorem send_throttled_witness:
  "\<exists>d. boss_send running_core sample_pg False ''q'' None (Some throttled_options)
      (sample_db [sample_queue ''q'' ''standard''] []) = (Inr (Some ''1000''), d) \<and>
    boss_send running_core sample_pg False ''q'' None (Some throttled_options) d = (Inr None, d)"
proof -
  let ?j = "sent_row sample_pg (sample_queue ''q'' ''standard'') None throttled_options 1000000000"
  let ?d = "sample_db [sample_queue ''q'' ''standard''] [?j]"
  have "boss_send running_core sample_pg False ''q'' None (Some throttled_options)
      (sample_db [sample_queue ''q'' ''standard''] []) = (Inr (Some ''1000''), ?d)" by code_simp
  moreover have "find_queue ''q'' ?d = Some (sample_queue ''q'' ''standard'')" "?j \<in> set (jobs ?d)"
    "j_name ?j = ''q''" "j_state ?j \<noteq> CANCELLED"
    "coalesce (j_singleton_key ?j) [] = coalesce (so_singleton_key throttled_options) []"
    "j_singleton_on ?j = Some 960000000" "throttle_slot sample_pg throttled_options = Some 960000000"
    "q_policy (sample_queue ''q'' ''standard'') \<noteq> ''key_strict_fifo''"
    by code_simp+
  ultimately show ?thesis
    using send_throttled [OF running_core throttled_options_sendable, of "''q''" ?d _ ?j 960000000] by blast
qed

lemma find_skip: "\<forall>x\<in>set xs. \<not> P x \<Longrightarrow> find P (xs @ ys) = find P ys"
  by (induction xs) auto

lemma get_queue_new:
  "\<not> queue_exists name d \<Longrightarrow> q_name q = name \<Longrightarrow> get_queue name (d\<lparr>queues := queues d @ [q]\<rparr>) = Some q"
  by (simp add: get_queue_def find_queue_def queue_exists_def find_skip)

text \<open>C36. Queue options survive: \<open>create_queue\<close> with options that fit their columns, a dead-letter queue
  that exists and is not the queue itself, makes a queue whose \<open>get_queue\<close> gives back exactly those
  options; creating it again, with whatever options, succeeds and changes nothing.\<close>
theorem create_queue_roundtrip:
  assumes "running b" "\<not> queue_exists name d" "QueueOptions_ok o'" "QueueOptions_ok o''"
    "qo_dead_letter o' \<noteq> Some name" "fk_ok (qo_dead_letter o') d" "qo_dead_letter o'' \<noteq> Some name"
  shows "\<exists>d'. boss_create_queue b s c name (Some o') d = (Inr (), d') \<and>
    boss_get_queue b name d' = (Inr (Some \<lparr>queue_name = name, queue_options = o'\<rparr>), d') \<and>
    boss_create_queue b s' c' name (Some o'') d' = (Inr (), d')"
proof -
  from queue_options_roundtrip [OF assms(3), of s name] obtain q
    where q: "queue_row_of s name (JObj (queue_options_payload o')) = Inr q"
      "row_to_queue q = Inr \<lparr>queue_name = name, queue_options = o'\<rparr>" "q_name q = name"
      "q_dead_letter q = qo_dead_letter o'" by metis
  from queue_options_roundtrip [OF assms(4), of s' name] obtain q2
    where q2: "queue_row_of s' name (JObj (queue_options_payload o'')) = Inr q2" "q_name q2 = name"
      "q_dead_letter q2 = qo_dead_letter o''" by metis
  let ?d = "d\<lparr>queues := queues d @ [q]\<rparr>"
  note run = running_execute [OF assms(1)]
  have "create_queue s name (JObj (queue_options_payload o')) d = Inr ?d"
    using q assms by (simp add: create_queue_def)
  then have "boss_create_queue b s c name (Some o') d = (Inr (), ?d)"
    by (simp add: boss_create_queue_def run no_rows_def)
  moreover have "boss_get_queue b name ?d = (Inr (Some \<lparr>queue_name = name, queue_options = o'\<rparr>), ?d)"
    using get_queue_new [OF assms(2) q(3)] q(2)
    by (simp add: boss_get_queue_def run reading_def and_then_def)
  moreover have "queue_exists name ?d" using q(3) by (auto simp: queue_exists_def)
  then have "create_queue s' name (JObj (queue_options_payload o'')) ?d = Inr ?d"
    using q2 assms(7) by (simp add: create_queue_def)
  then have "boss_create_queue b s' c' name (Some o'') ?d = (Inr (), ?d)"
    by (simp add: boss_create_queue_def run no_rows_def)
  ultimately show ?thesis by blast
qed

theorem create_queue_roundtrip_witness:
  "\<exists>d'. boss_create_queue running_core sample_pg False ''q'' (Some (QueueOptions_default\<lparr>qo_policy := STATELY\<rparr>))
      (sample_db [] []) = (Inr (), d') \<and>
    boss_get_queue running_core ''q'' d' =
      (Inr (Some \<lparr>queue_name = ''q'', queue_options = QueueOptions_default\<lparr>qo_policy := STATELY\<rparr>\<rparr>), d')"
proof -
  have "\<not> queue_exists ''q'' (sample_db [] [])" "QueueOptions_ok (QueueOptions_default\<lparr>qo_policy := STATELY\<rparr>)"
    "QueueOptions_ok QueueOptions_default"
    "qo_dead_letter (QueueOptions_default\<lparr>qo_policy := STATELY\<rparr>) \<noteq> Some ''q''"
    "fk_ok (qo_dead_letter (QueueOptions_default\<lparr>qo_policy := STATELY\<rparr>)) (sample_db [] [])"
    "qo_dead_letter QueueOptions_default \<noteq> Some ''q''"
    by code_simp+
  from create_queue_roundtrip [OF running_core this] show ?thesis by blast
qed

end
