(* ===== verification/Worker_Loop.thy ===== *)
theory Worker_Loop
  imports Db_Access
begin

text \<open>
  \<^verbatim>\<open>underboss/worker.py\<close>: the poll loop, claim, execute, settle. The loop is unrolled over the list of
  its turns. A turn names what the outside does in it: whether \<^verbatim>\<open>notify()\<close> or \<^verbatim>\<open>stop()\<close> was called
  since the last turn began, what other nodes made of the tables meanwhile, the servers of the two
  statements, and what became of their replies. The handler is a parameter: it reads the batch, may
  change the tables (by sending jobs, or merely by taking time while others do) and returns, raises
  or is cancelled. A pause is the number of seconds \<^verbatim>\<open>_idle\<close> was asked for.
\<close>

section \<open>State and environment\<close>

text \<open>
  The task of a worker runs until its loop ends, by its test or by an exception, which the task keeps
  (\<open>wk_raised\<close>) until somebody awaits it.
\<close>

record worker =
  wk_task :: bool
  wk_raised :: "error option"
  wk_stopping :: bool
  wk_wake :: bool
  wk_fast_retries :: nat

definition worker_new :: worker where
  "worker_new = \<lparr>wk_task = False, wk_raised = None, wk_stopping = False, wk_wake = False, wk_fast_retries = 0\<rparr>"

definition worker_start :: "worker \<Rightarrow> error + worker" where
  "worker_start w =
     (if wk_task w then Inl (RuntimeError ''worker already started'')
      else Inr (w\<lparr>wk_task := True, wk_raised := None, wk_fast_retries := 0\<rparr>))"

text \<open>\<^verbatim>\<open>stop()\<close> awaits the task, so an exception the task ended with comes out of it, a cancellation apart.\<close>

definition worker_stop :: "worker \<Rightarrow> (error + unit) \<times> worker" where
  "worker_stop w =
     (let w1 = w\<lparr>wk_stopping := True, wk_wake := True\<rparr>
      in if \<not> wk_task w then (Inr (), w1)
         else case wk_raised w of
           None \<Rightarrow> (Inr (), w1\<lparr>wk_task := False\<rparr>)
         | Some e \<Rightarrow> if e = CancelledError then (Inr (), w1\<lparr>wk_task := False\<rparr>) else (Inl e, w1))"

definition worker_notify :: "worker \<Rightarrow> worker" where
  "worker_notify w = w\<lparr>wk_wake := True\<rparr>"

text \<open>
  A result that is a mapping is the batch's output, any other value is dropped. \<open>Cancelled\<close> is a
  \<^verbatim>\<open>CancelledError\<close> out of the handler: \<^verbatim>\<open>stop()\<close> ran into its time limit and cancelled the task, or
  the handler awaited something that was cancelled; it is no \<^verbatim>\<open>Exception\<close>. \<open>Unserializable\<close> is a
  returned mapping with a value \<^verbatim>\<open>json.dumps\<close> refuses, a datetime or a uuid say.
\<close>

datatype handler_result = Returned json | Raised string string | Cancelled | Unserializable

type_synonym handler = "Job list \<Rightarrow> db \<Rightarrow> handler_result \<times> db"

text \<open>
  What becomes of a statement the worker awaits: its reply comes; the client raises instead, for a
  lost connection or a time limit; or the task is cancelled while it waits. In the last two the
  server may have run the statement all the same (\<open>True\<close>) or not.
\<close>

datatype reply = Answered | Failed bool | Interrupted bool

definition ran :: "reply \<Rightarrow> bool" where
  "ran r = (case r of Answered \<Rightarrow> True | Failed x \<Rightarrow> x | Interrupted x \<Rightarrow> x)"

definition interrupted :: "reply \<Rightarrow> bool" where
  "interrupted r = (case r of Interrupted x \<Rightarrow> True | _ \<Rightarrow> False)"

lemma reply_simps [simp]:
  "ran Answered" "ran (Failed x) = x" "ran (Interrupted x) = x"
  "\<not> interrupted Answered" "\<not> interrupted (Failed x)" "interrupted (Interrupted x)"
  by (simp_all add: ran_def interrupted_def)

record turn =
  tn_notified :: bool
  tn_stopped :: bool
  tn_others :: "db \<Rightarrow> db"
  tn_fetch :: pg
  tn_fetch_reply :: reply
  tn_settle :: pg
  tn_settle_reply :: reply

definition NOTIFY_RETRY_SECONDS :: rat where
  "NOTIFY_RETRY_SECONDS = 1 / 20"

definition NOTIFY_RETRIES :: nat where
  "NOTIFY_RETRIES = 10"

section \<open>One batch\<close>

text \<open>
  Settling swallows every \<^verbatim>\<open>Exception\<close>: the error is logged and the loop goes on. A cancellation ends it.
\<close>

definition swallow :: "reply \<Rightarrow> error + unit" where
  "swallow r = (if interrupted r then Inl CancelledError else Inr ())"

definition worker_complete ::
  "turn \<Rightarrow> string \<Rightarrow> uuid list \<Rightarrow> json option \<Rightarrow> db \<Rightarrow> (error + unit) \<times> db" where
  "worker_complete t name us output' d =
     (swallow (tn_settle_reply t),
      if ran (tn_settle_reply t)
      then case complete_jobs (tn_settle t) name (map (pg_uuid_out (tn_settle t)) us) output' d of
             Inl e \<Rightarrow> d
           | Inr (d', rows) \<Rightarrow> d'
      else d)"

definition worker_fail ::
  "turn \<Rightarrow> string \<Rightarrow> uuid list \<Rightarrow> (string \<times> json) list \<Rightarrow> db \<Rightarrow> (error + unit) \<times> db" where
  "worker_fail t name us output' d =
     (swallow (tn_settle_reply t),
      if ran (tn_settle_reply t) then snd (fail_by_id (tn_settle t) name us output' d) else d)"

definition mapping_output :: "json \<Rightarrow> json option" where
  "mapping_output v = (case v of JObj kvs \<Rightarrow> Some v | _ \<Rightarrow> None)"

text \<open>
  The \<^verbatim>\<open>try\<close> covers the call of the handler only, and \<^verbatim>\<open>_complete\<close> dumps the output before its own.
\<close>

definition worker_process ::
  "Database \<Rightarrow> WorkOptions \<Rightarrow> handler \<Rightarrow> string \<Rightarrow> turn \<Rightarrow> job_row list \<Rightarrow> db \<Rightarrow> (error + unit) \<times> db" where
  "worker_process b options h name t rows d =
     (case traverse (\<lambda>r. row_to_job (tn_fetch t) (wo_include_metadata options) (received_row b (tn_fetch t) r)) rows of
        Inl e \<Rightarrow> (Inl e, d)
      | Inr js \<Rightarrow>
          (case h js d of
             (Raised message type, d') \<Rightarrow>
               worker_fail t name (map j_id rows) [(''message'', JStr message), (''type'', JStr type)] d'
           | (Cancelled, d') \<Rightarrow> (Inl CancelledError, d')
           | (Unserializable, d') \<Rightarrow> (Inl TypeError, d')
           | (Returned v, d') \<Rightarrow> worker_complete t name (map j_id rows) (mapping_output v) d'))"

section \<open>The loop\<close>

text \<open>What happened to the worker since the last turn began.\<close>

definition worker_signals :: "turn \<Rightarrow> worker \<Rightarrow> worker" where
  "worker_signals t w =
     w\<lparr>wk_wake := wk_wake w \<or> tn_notified t \<or> tn_stopped t,
       wk_stopping := wk_stopping w \<or> tn_stopped t\<rparr>"

definition worker_fetch ::
  "WorkOptions \<Rightarrow> string \<Rightarrow> turn \<Rightarrow> db \<Rightarrow> db_error + db \<times> job_row list" where
  "worker_fetch options name t d =
     fetch_next_job (tn_fetch t) name (wo_batch_size options) (wo_group_concurrency options) d"

text \<open>The body of the loop, after its test: the pause it asks for, if any, and whether it raised.\<close>

definition worker_turn ::
  "Database \<Rightarrow> WorkOptions \<Rightarrow> handler \<Rightarrow> string \<Rightarrow> turn \<Rightarrow> worker \<Rightarrow> db \<Rightarrow> worker \<times> (error + rat option) \<times> db" where
  "worker_turn b options h name t w d =
     (let poll = wo_poll_interval_seconds options;
          w1 = (if wk_wake w then w\<lparr>wk_fast_retries := NOTIFY_RETRIES\<rparr> else w)\<lparr>wk_wake := False\<rparr>
      in if tn_fetch_reply t \<noteq> Answered then
           (w1, if interrupted (tn_fetch_reply t) then Inl CancelledError else Inr (Some poll),
            if ran (tn_fetch_reply t)
            then (case worker_fetch options name t d of Inl e \<Rightarrow> d | Inr (d', rows) \<Rightarrow> d') else d)
         else case worker_fetch options name t d of
           Inl e \<Rightarrow> (w1, Inr (Some poll), d)
         | Inr (d', rows) \<Rightarrow>
             if rows = [] then
               if 0 < wk_fast_retries w1
               then (w1\<lparr>wk_fast_retries := wk_fast_retries w1 - 1\<rparr>,
                     Inr (Some (min poll NOTIFY_RETRY_SECONDS)), d')
               else (w1, Inr (Some poll), d')
             else
               (case worker_process b options h name t rows d' of
                  (Inl e, d'') \<Rightarrow> (w1\<lparr>wk_fast_retries := 0\<rparr>, Inl e, d'')
                | (Inr u, d'') \<Rightarrow> (w1\<lparr>wk_fast_retries := 0\<rparr>, Inr None, d'')))"

fun worker_run ::
  "Database \<Rightarrow> WorkOptions \<Rightarrow> handler \<Rightarrow> string \<Rightarrow> turn list \<Rightarrow> worker \<Rightarrow> db \<Rightarrow> worker \<times> rat option list \<times> db" where
  "worker_run b options h name [] w d = (w, [], d)"
| "worker_run b options h name (t # ts) w d =
     (let w0 = worker_signals t w; d0 = tn_others t d
      in if wk_stopping w0 then (w0, [], d0)
         else case worker_turn b options h name t w0 d0 of
           (w1, Inl e, d1) \<Rightarrow> (w1\<lparr>wk_raised := Some e\<rparr>, [], d1)
         | (w1, Inr pause, d1) \<Rightarrow>
             (case worker_run b options h name ts w1 d1 of (w2, pauses, d2) \<Rightarrow> (w2, pause # pauses, d2)))"

section \<open>The loop does not die and its turns are steps\<close>

text \<open>The batch as the handler gets it.\<close>

definition jobs_of :: "Database \<Rightarrow> WorkOptions \<Rightarrow> turn \<Rightarrow> job_row list \<Rightarrow> Job list" where
  "jobs_of b options t rows =
     map (\<lambda>r. job_of_row (tn_fetch t) (wo_include_metadata options) (received_row b (tn_fetch t) r)) rows"

lemma worker_process_jobs:
  "worker_process b options h name t rows d =
     (case h (jobs_of b options t rows) d of
        (Raised message type, d') \<Rightarrow>
          worker_fail t name (map j_id rows) [(''message'', JStr message), (''type'', JStr type)] d'
      | (Cancelled, d') \<Rightarrow> (Inl CancelledError, d')
      | (Unserializable, d') \<Rightarrow> (Inl TypeError, d')
      | (Returned v, d') \<Rightarrow> worker_complete t name (map j_id rows) (mapping_output v) d')"
proof -
  have "traverse (\<lambda>r. row_to_job (tn_fetch t) (wo_include_metadata options) (received_row b (tn_fetch t) r)) rows =
      Inr (jobs_of b options t rows)"
    unfolding jobs_of_def by (rule traverse_eq_map) simp
  then show ?thesis by (simp add: worker_process_def del: row_to_job_total)
qed

text \<open>Nothing but a cancellation or an output that cannot be dumped ends the loop.\<close>

lemma worker_process_error:
  "worker_process b options h name t rows d = (Inl e, d') \<Longrightarrow> e = CancelledError \<or> e = TypeError"
  by (auto simp: worker_process_jobs worker_fail_def worker_complete_def swallow_def
      split: prod.splits handler_result.splits if_splits)

lemma worker_turn_error: "worker_turn b options h name t w d = (w', Inl e, d') \<Longrightarrow> e = CancelledError \<or> e = TypeError"
  by (auto simp: worker_turn_def Let_def split: sum.splits prod.splits if_splits dest: worker_process_error)

context runs
begin

lemma worker_complete_runs: "R d (snd (worker_complete t name us out d))"
proof (cases "complete_jobs (tn_settle t) name (map (pg_uuid_out (tn_settle t)) us) out d")
  case (Inr p)
  obtain d' rows where "p = (d', rows)" by (cases p)
  with Inr have "R d d'" by (auto intro: R_step [OF step.complete])
  with Inr \<open>p = (d', rows)\<close> show ?thesis by (simp add: worker_complete_def R_refl)
qed (simp add: worker_complete_def R_refl)

lemma worker_fail_runs: "R d (snd (worker_fail t name us out d))"
  by (simp add: worker_fail_def fail_by_id_runs R_refl)

lemma worker_fetch_runs: "worker_fetch options name t d = Inr (d', rows) \<Longrightarrow> R d d'"
  unfolding worker_fetch_def by (rule fetch_runs)

end

text \<open>
  A handler keeps the contract when its work on the tables does, its own and other nodes'. Every
  worker that runs such a handler then keeps it too.
\<close>

locale job_handler = runs +
  fixes h :: handler
  assumes handler_runs: "R d (snd (h js d))"
begin

lemma process_runs: "R d (snd (worker_process b options h name t rows d))"
proof -
  let ?js = "jobs_of b options t rows"
  have "R d (snd (h ?js d))" by (rule handler_runs)
  then show ?thesis
    by (auto simp: worker_process_jobs split: prod.split handler_result.split
        intro: R_trans worker_complete_runs worker_fail_runs)
qed

lemma turn_runs: "worker_turn b options h name t w d = (w', r, d') \<Longrightarrow> R d d'"
proof -
  have "R d1 (snd (worker_process b options h name t rows d1))" for rows d1
    by (rule process_runs)
  then show "worker_turn b options h name t w d = (w', r, d') \<Longrightarrow> R d d'"
    by (auto simp: worker_turn_def Let_def worker_fetch_def R_refl
        split: sum.splits prod.splits if_splits
        dest: fetch_runs) (metis R_trans fetch_runs snd_conv)+
qed

lemma loop_runs:
  "(\<And>t d. t \<in> set ts \<Longrightarrow> R d (tn_others t d)) \<Longrightarrow> worker_run b options h name ts w d = (w', ps, d') \<Longrightarrow>
   R d d'"
proof (induction ts arbitrary: w d w' ps d')
  case (Cons t ts)
  let ?w = "worker_signals t w" and ?d = "tn_others t d"
  have others: "R d ?d" using Cons.prems(1) by simp
  obtain w1 r d1 where turn: "worker_turn b options h name t ?w ?d = (w1, r, d1)"
    by (cases "worker_turn b options h name t ?w ?d") auto
  from turn_runs [OF this] others have d1: "R d d1" by (rule R_trans [rotated])
  show ?case
  proof (cases "wk_stopping ?w")
    case True
    with Cons.prems(2) others show ?thesis by (simp add: Let_def)
  next
    case False
    obtain w2 ps2 d2 where rest: "worker_run b options h name ts w1 d1 = (w2, ps2, d2)"
      by (cases "worker_run b options h name ts w1 d1") auto
    have "R d1 d2"
      by (rule Cons.IH [OF _ rest]) (use Cons.prems(1) in simp)
    with Cons.prems(2) False turn rest d1 show ?thesis by (auto simp: Let_def intro: R_trans split: sum.splits)
  qed
qed (simp add: R_refl)

end

section \<open>Settling a batch\<close>

text \<open>The rows of a batch, as the settling statements find them again.\<close>

definition in_batch :: "job_row list \<Rightarrow> job_row \<Rightarrow> bool" where
  "in_batch rows j \<longleftrightarrow> job_pk j \<in> job_pk ` set rows"

lemma fetched_batch:
  assumes "db_ok d" "fetch_next_job s name n gc d = Inr (d1, rows)"
  shows "db_ok d1"
    "j \<in> set (jobs d1) \<Longrightarrow> id_in name (map j_id rows) j \<and> j_state j = ACTIVE \<longleftrightarrow> in_batch rows j"
proof -
  note at = assms(2) [unfolded fetch_next_job_def]
  show d1: "db_ok d1" using fetch_db_ok [OF assms(1) at] .
  from at obtain us where claim: "claim_jobs s name us d = Inr (d1, rows)"
    by (auto simp: fetch_next_job_at_plan)
  assume j: "j \<in> set (jobs d1)"
  have pks: "distinct (map job_pk (jobs d1))" using d1 by (simp add: db_ok_def jobs_ok_def)
  have rows: "r \<in> set (jobs d1)" "j_name r = name" "j_state r = ACTIVE" if r: "r \<in> set rows" for r
  proof -
    from returned_rows [OF claim r] obtain i where i: "r \<in> set (jobs d1)" "claim_where name us i" "claimed_to s i r"
      by blast
    then have "j_name r = j_name i" using same_frame(2) unfolding claimed_to_def by blast
    with i show "r \<in> set (jobs d1)" "j_name r = name" "j_state r = ACTIVE"
      by (simp_all add: claim_where_def claimed_to_def)
  qed
  show "id_in name (map j_id rows) j \<and> j_state j = ACTIVE \<longleftrightarrow> in_batch rows j"
  proof
    assume "id_in name (map j_id rows) j \<and> j_state j = ACTIVE"
    then obtain r where "r \<in> set rows" "j_id r = j_id j" "j_name j = name" by (auto simp: id_in_def)
    then show "in_batch rows j" using rows(2) [of r]
      by (auto simp: in_batch_def job_pk_def intro!: image_eqI [of _ _ r])
  next
    assume "in_batch rows j"
    then obtain r where r: "r \<in> set rows" "job_pk j = job_pk r" by (auto simp: in_batch_def)
    with pk_inj [OF pks j rows(1) [OF r(1)]] have "j = r" by blast
    with r rows show "id_in name (map j_id rows) j \<and> j_state j = ACTIVE" by (simp add: id_in_def)
  qed
qed

text \<open>The turn of a worker whose fetch returned jobs.\<close>

lemma turn_with_batch:
  assumes "tn_fetch_reply t = Answered" "worker_fetch options name t d = Inr (d1, rows)" "rows \<noteq> []"
  shows "worker_turn b options h name t w d =
    (w\<lparr>wk_wake := False, wk_fast_retries := 0\<rparr>,
     map_sum id (\<lambda>_. None) (fst (worker_process b options h name t rows d1)),
     snd (worker_process b options h name t rows d1))"
  using assms by (auto simp: worker_turn_def Let_def split: prod.split sum.split)

text \<open>
  A handler that returns, at whatever tables \<open>d2\<close> others have left meanwhile: the completing statement
  finds the batch again by its ids alone.
\<close>

lemma turn_completes:
  assumes "db_ok d2" "worker_fetch options name t d = Inr (d1, rows)" "rows \<noteq> []"
    "tn_fetch_reply t = Answered" "tn_settle_reply t = Answered" "uuid_text_ok (tn_settle t)"
    "h (jobs_of b options t rows) d1 = (Returned v, d2)"
  shows "worker_turn b options h name t w d =
    (w\<lparr>wk_wake := False, wk_fast_retries := 0\<rparr>, Inr None,
     d2\<lparr>jobs := set_where (complete_where name (map j_id rows))
       (complete_set (tn_settle t) (mapping_output v)) (jobs d2)\<rparr>)"
proof -
  let ?s = "tn_settle t" and ?us = "map j_id rows"
  have uniq: "\<forall>i. unique_index i (jobs d2)" using assms(1) by (simp add: db_ok_def jobs_ok_def)
  have ids: "cast_ids ?s (map (pg_uuid_out ?s) ?us) = Inr ?us" by (rule cast_ids_uuid_out [OF assms(6)])
  have "update_jobs (complete_where name ?us) (\<lambda>j. Inr (complete_set ?s out j)) d2 =
      Inr (d2\<lparr>jobs := set_where (complete_where name ?us) (complete_set ?s out) (jobs d2)\<rparr>,
           map (complete_set ?s out) (filter (complete_where name ?us) (jobs d2)))" for out
    by (rule update_jobs_shrinks [OF uniq]) (rule complete_keys, simp add: complete_where_def)
  then have "complete_jobs ?s name (map (pg_uuid_out ?s) ?us) out d2 =
      Inr (d2\<lparr>jobs := set_where (complete_where name ?us) (complete_set ?s out) (jobs d2)\<rparr>,
           map (complete_set ?s out) (filter (complete_where name ?us) (jobs d2)))" for out
    using ids by (simp add: complete_jobs_def)
  then show ?thesis
    using assms(5,7) by (simp add: turn_with_batch [OF assms(4,2,3)] worker_process_jobs worker_complete_def swallow_def)
qed

lemma turn_completes_batch:
  assumes "db_ok d" "worker_fetch options name t d = Inr (d1, rows)" "rows \<noteq> []"
    "tn_fetch_reply t = Answered" "tn_settle_reply t = Answered" "uuid_text_ok (tn_settle t)"
    "h (jobs_of b options t rows) d1 = (Returned v, d1)"
  shows "worker_turn b options h name t w d =
    (w\<lparr>wk_wake := False, wk_fast_retries := 0\<rparr>, Inr None,
     d1\<lparr>jobs := map (\<lambda>j. if in_batch rows j
        then complete_set (tn_settle t) (mapping_output v) j else j) (jobs d1)\<rparr>)"
proof -
  from fetched_batch [OF assms(1)] assms(2) have ok: "db_ok d1"
    and batch: "\<And>j. j \<in> set (jobs d1) \<Longrightarrow> complete_where name (map j_id rows) j \<longleftrightarrow> in_batch rows j"
    by (auto simp: worker_fetch_def complete_where_def)
  have "set_where (complete_where name (map j_id rows)) f (jobs d1) =
      map (\<lambda>j. if in_batch rows j then f j else j) (jobs d1)" for f
    unfolding set_where_def by (rule map_cong) (simp_all add: batch)
  with turn_completes [where h = h and v = v and t = t, OF ok assms(2-7)] show ?thesis by simp
qed

text \<open>C10. A handler that returns completes its whole batch: the turn of a worker that fetched jobs, ran
  a handler which returned, and reached the database again, ends with exactly the fetched jobs
  completed, with the returned mapping (or nothing) as their output, and every other row as the
  fetch left it; the worker goes on without a pause.\<close>
theorem batch_completed:
  assumes "db_ok d" "worker_fetch options name t d = Inr (d1, rows)" "rows \<noteq> []"
    "tn_fetch_reply t = Answered" "tn_settle_reply t = Answered" "uuid_text_ok (tn_settle t)"
    "h (jobs_of b options t rows) d1 = (Returned v, d1)"
  shows "worker_turn b options h name t w d =
    (w\<lparr>wk_wake := False, wk_fast_retries := 0\<rparr>, Inr None,
     d1\<lparr>jobs := map (\<lambda>j. if in_batch rows j
        then complete_set (tn_settle t) (mapping_output v) j else j) (jobs d1)\<rparr>)"
  by (rule turn_completes_batch [where h = h and v = v and t = t, OF assms])

definition quiet_turn :: "pg \<Rightarrow> turn" where
  "quiet_turn s = \<lparr>tn_notified = False, tn_stopped = False, tn_others = (\<lambda>d. d), tn_fetch = s,
     tn_fetch_reply = Answered, tn_settle = s, tn_settle_reply = Answered\<rparr>"

lemma quiet_turn_sel [simp]:
  "\<not> tn_notified (quiet_turn s)" "\<not> tn_stopped (quiet_turn s)" "tn_others (quiet_turn s) d = d"
  "tn_fetch (quiet_turn s) = s" "tn_fetch_reply (quiet_turn s) = Answered" "tn_settle (quiet_turn s) = s"
  "tn_settle_reply (quiet_turn s) = Answered"
  by (simp_all add: quiet_turn_def)

definition worker_sample :: db where
  "worker_sample = sample_db [sample_queue ''q'' ''standard'']
     [sample_job ''q'' ''standard'' 1 CREATED, sample_job ''q'' ''standard'' 2 CREATED]"

theorem batch_completed_witness:
  "\<exists>d'. worker_turn own_pool WorkOptions_default (\<lambda>js d. (Returned (JObj []), d)) ''q'' (quiet_turn sample_pg)
     worker_new worker_sample = (worker_new, Inr None, d') \<and> map j_state (jobs d') = [COMPLETED, CREATED]"
proof -
  let ?t = "quiet_turn sample_pg" and ?h = "\<lambda>js d. (Returned (JObj []), d) :: handler_result \<times> db"
  have "case worker_fetch WorkOptions_default ''q'' ?t worker_sample of Inl e \<Rightarrow> False
    | Inr (d1, rows) \<Rightarrow> rows \<noteq> [] \<and>
        map (\<lambda>j. j_state (if in_batch rows j then complete_set sample_pg (mapping_output (JObj [])) j else j)) (jobs d1)
          = [COMPLETED, CREATED]"
    by code_simp
  then obtain d1 rows where f: "worker_fetch WorkOptions_default ''q'' ?t worker_sample = Inr (d1, rows)"
    "rows \<noteq> []" and st: "map (\<lambda>j. j_state (if in_batch rows j
        then complete_set sample_pg (mapping_output (JObj [])) j else j)) (jobs d1) = [COMPLETED, CREATED]"
    by (auto split: sum.splits)
  have "db_ok worker_sample" by code_simp
  from batch_completed [OF this f, of ?h own_pool "JObj []" worker_new] st show ?thesis
    unfolding quiet_turn_sel by (simp add: worker_new_def comp_def)
qed

text \<open>What failing a batch leaves, once the new table \<open>settled\<close> of the failing statement is known.\<close>

lemma fail_by_id_outcome:
  assumes "db_ok d" "fresh_ids s d" "map job_pk settled = map job_pk (jobs d)" "set rs \<subseteq> set settled"
    "fail_jobs s name (map (pg_uuid_out s) us) (Some (JObj out)) d =
      bindr (check_unique settled) (\<lambda>u. Inr (d\<lparr>jobs := settled\<rparr>, rs))"
  shows "if \<forall>i. unique_index i settled
    then \<exists>copies. snd (fail_by_id s name us out d) = d\<lparr>jobs := settled @ copies\<rparr> \<and>
      list_all2 routed_copy (filter routed rs) copies
    else snd (fail_by_id s name us out d) = d"
proof (cases "\<forall>i. unique_index i settled")
  case True
  then have f: "fail_jobs s name (map (pg_uuid_out s) us) (Some (JObj out)) d = Inr (d\<lparr>jobs := settled\<rparr>, rs)"
    using assms(5) by (metis bindr.simps(2) check_unique_Inr)
  have "db_ok (d\<lparr>jobs := settled\<rparr>)" using fail_jobs_db_ok [OF assms(1) f] .
  then obtain copies where "route s 0 rs (d\<lparr>jobs := settled\<rparr>) = Inr (d\<lparr>jobs := settled @ copies\<rparr>)"
    "list_all2 routed_copy (filter routed rs) copies"
    using route_after_update [of "d\<lparr>jobs := settled\<rparr>" d s rs] assms(2-4) by simp blast
  moreover from this(1) f have "fail_by_id s name us out d = (Inr (), d\<lparr>jobs := settled @ copies\<rparr>)"
    by (simp add: fail_by_id_commit)
  ultimately show ?thesis using True by auto
next
  case False
  then obtain e where "check_unique settled = Inl e" by (cases "check_unique settled") auto
  then have "fail_by_id s name us out d = (Inl e, d)"
    using assms(5) by (simp add: fail_by_id_def transaction_def fail_by_id_body_def)
  with False show ?thesis by auto
qed

text \<open>C11. A handler that raises fails its whole batch, in one transaction: each fetched job goes back to
  \<^verbatim>\<open>retry\<close> or, out of retries, to \<^verbatim>\<open>failed\<close>, with the exception as its output and a copy in its
  dead-letter queue. When the new states meet a policy index the error is swallowed instead: the
  batch stays active, unsettled, until its lease runs out.\<close>
theorem batch_failed:
  assumes "db_ok d" "worker_fetch options name t d = Inr (d1, rows)" "rows \<noteq> []"
    "tn_fetch_reply t = Answered" "tn_settle_reply t = Answered" "uuid_text_ok (tn_settle t)" "fresh_ids (tn_settle t) d1"
    "h (jobs_of b options t rows) d1 = (Raised message type, d1)"
  defines "f \<equiv> retry_or_fail_set (tn_settle t) (Some (JObj [(''message'', JStr message), (''type'', JStr type)]))"
  defines "settled \<equiv> map (\<lambda>j. if in_batch rows j then f j else j) (jobs d1)"
  shows "\<exists>d2. worker_turn b options h name t w d = (w\<lparr>wk_wake := False, wk_fast_retries := 0\<rparr>, Inr None, d2) \<and>
    (if \<forall>i. unique_index i settled
     then \<exists>copies. d2 = d1\<lparr>jobs := settled @ copies\<rparr> \<and>
       list_all2 routed_copy (filter routed (map f (filter (in_batch rows) (jobs d1)))) copies
     else d2 = d1)"
proof -
  let ?s = "tn_settle t" and ?us = "map j_id rows"
  let ?out = "[(''message'', JStr message), (''type'', JStr type)]"
  from fetched_batch [OF assms(1)] assms(2) have ok: "db_ok d1"
    and batch: "\<And>j. j \<in> set (jobs d1) \<Longrightarrow> fail_where name ?us j \<longleftrightarrow> in_batch rows j"
    by (auto simp: worker_fetch_def fail_where_def)
  have ids: "cast_ids ?s (map (pg_uuid_out ?s) ?us) = Inr ?us" by (rule cast_ids_uuid_out [OF assms(6)])
  have rows: "set_where (fail_where name ?us) f (jobs d1) = settled"
    unfolding set_where_def settled_def by (rule map_cong) (simp_all add: batch)
  have sel: "filter (fail_where name ?us) (jobs d1) = filter (in_batch rows) (jobs d1)"
    by (rule filter_cong) (simp_all add: batch)
  have fail: "fail_jobs ?s name (map (pg_uuid_out ?s) ?us) (Some (JObj ?out)) d1 =
      bindr (check_unique settled) (\<lambda>u. Inr (d1\<lparr>jobs := settled\<rparr>, map f (filter (in_batch rows) (jobs d1))))"
    using ids by (simp add: fail_jobs_def f_def [symmetric] update_jobs_total Let_def rows sel)
  have turn: "worker_turn b options h name t w d = (w\<lparr>wk_wake := False, wk_fast_retries := 0\<rparr>, Inr None,
      snd (fail_by_id ?s name ?us ?out d1))"
    using assms(5,8) by (simp add: turn_with_batch [OF assms(4,2,3)] worker_process_jobs worker_fail_def swallow_def)
  have "job_pk (f j) = job_pk j" for j
    unfolding f_def by (rule job_pk_frame) (rule set_clause_frame)
  then have pks: "map job_pk settled = map job_pk (jobs d1)" by (auto simp: settled_def)
  have "set (map f (filter (in_batch rows) (jobs d1))) \<subseteq> set settled" by (auto simp: settled_def)
  from fail_by_id_outcome [OF ok assms(7) pks this fail] turn show ?thesis by (auto split: if_splits)
qed

lemma sample_fresh: "list_all (\<lambda>j. j_id j < 1000) (jobs d) \<Longrightarrow> fresh_ids sample_pg d"
  by (auto simp: fresh_ids_def list_all_iff sample_pg_def gen_uuid_distinct_def)

definition failing_sample :: db where
  "failing_sample = sample_db
     [sample_queue ''parking'' ''standard'',
      (sample_queue ''orders'' ''standard'')\<lparr>q_dead_letter := Some ''parking''\<rparr>]
     [(sample_job ''orders'' ''standard'' 1 CREATED)
        \<lparr>j_retry_limit := 0, j_dead_letter := Some ''parking'', j_data := Some (JNum 42)\<rparr>]"

theorem batch_failed_witness:
  "\<exists>d2 copy. worker_turn own_pool WorkOptions_default (\<lambda>js d. (Raised ''boom'' ''ValueError'', d)) ''orders''
     (quiet_turn sample_pg) worker_new failing_sample = (worker_new, Inr None, d2) \<and>
     copy \<in> set (jobs d2) \<and> j_name copy = ''parking'' \<and> j_data copy = Some (JNum 42)"
proof -
  let ?t = "quiet_turn sample_pg" and ?h = "\<lambda>js d. (Raised ''boom'' ''ValueError'', d) :: handler_result \<times> db"
  let ?f = "retry_or_fail_set sample_pg (Some (JObj [(''message'', JStr ''boom''), (''type'', JStr ''ValueError'')]))"
  let ?settled = "\<lambda>d1 rows. map (\<lambda>j. if in_batch rows j then ?f j else j) (jobs d1)"
  have "case worker_fetch WorkOptions_default ''orders'' ?t failing_sample of Inl e \<Rightarrow> False
    | Inr (d1, rows) \<Rightarrow> rows \<noteq> [] \<and> list_all (\<lambda>j. j_id j < 1000) (jobs d1) \<and>
        (\<forall>i. unique_index i (?settled d1 rows)) \<and>
        map j_dead_letter (filter routed (map ?f (filter (in_batch rows) (jobs d1)))) = [Some ''parking''] \<and>
        map j_data (filter routed (map ?f (filter (in_batch rows) (jobs d1)))) = [Some (JNum 42)]"
    by code_simp
  then obtain d1 rows where f: "worker_fetch WorkOptions_default ''orders'' ?t failing_sample = Inr (d1, rows)"
    "rows \<noteq> []" and small: "list_all (\<lambda>j. j_id j < 1000) (jobs d1)" and u: "\<forall>i. unique_index i (?settled d1 rows)"
    and r: "map j_dead_letter (filter routed (map ?f (filter (in_batch rows) (jobs d1)))) = [Some ''parking'']"
      "map j_data (filter routed (map ?f (filter (in_batch rows) (jobs d1)))) = [Some (JNum 42)]"
    by (auto split: sum.splits)
  note fresh = sample_fresh [OF small]
  have "db_ok failing_sample" by code_simp
  from batch_failed [OF this f, of ?h own_pool "''boom''" "''ValueError''" worker_new] fresh u obtain d2 copies where
    d2: "worker_turn own_pool WorkOptions_default ?h ''orders'' ?t worker_new failing_sample = (worker_new, Inr None, d2)"
      "d2 = d1\<lparr>jobs := ?settled d1 rows @ copies\<rparr>"
    and c: "list_all2 routed_copy (filter routed (map ?f (filter (in_batch rows) (jobs d1)))) copies"
    unfolding quiet_turn_sel by (auto simp: worker_new_def)
  from r obtain x where x: "filter routed (map ?f (filter (in_batch rows) (jobs d1))) = [x]"
    "j_dead_letter x = Some ''parking''" "j_data x = Some (JNum 42)"
    by (cases "filter routed (map ?f (filter (in_batch rows) (jobs d1)))") auto
  with c obtain y where "copies = [y]" "routed_copy x y" by (auto simp: list_all2_Cons1)
  with d2 x show ?thesis by (intro exI [of _ d2] exI [of _ y]) (auto simp: routed_copy_def)
qed

section \<open>A loop that ends\<close>

definition ends_loop :: "handler_result \<Rightarrow> error option" where
  "ends_loop r = (case r of Cancelled \<Rightarrow> Some CancelledError | Unserializable \<Rightarrow> Some TypeError | _ \<Rightarrow> None)"

lemma turn_ends:
  assumes "worker_fetch options name t d = Inr (d1, rows)" "rows \<noteq> []" "tn_fetch_reply t = Answered"
    "h (jobs_of b options t rows) d1 = (r, d2)" "ends_loop r = Some e"
  shows "worker_turn b options h name t w d = (w\<lparr>wk_wake := False, wk_fast_retries := 0\<rparr>, Inl e, d2)"
  using assms(4,5)
  by (auto simp: turn_with_batch [OF assms(3,1,2)] worker_process_jobs ends_loop_def split: handler_result.splits)

text \<open>C22. Two kinds of handlers end their worker for good. A \<^verbatim>\<open>CancelledError\<close> that leaves the handler, also of
  one that merely awaited something cancelled elsewhere, is no \<^verbatim>\<open>Exception\<close> and not caught; a
  returned mapping that \<^verbatim>\<open>json.dumps\<close> refuses raises outside every \<^verbatim>\<open>try\<close>. In both cases the batch is
  neither completed nor failed, and whatever jobs come and whatever turns the loop would still
  get, it never fetches again, while the worker still counts as started. In the second case the
  exception comes out of \<open>stop()\<close>.\<close>
theorem handler_ends_worker:
  assumes "worker_fetch options name t (tn_others t d) = Inr (d1, rows)" "rows \<noteq> []" "tn_fetch_reply t = Answered"
    "wk_task w" "\<not> wk_stopping w" "\<not> tn_stopped t"
    "h (jobs_of b options t rows) d1 = (r, d2)" "ends_loop r = Some e"
  shows "\<exists>w'. worker_run b options h name (t # ts) w d = (w', [], d2) \<and> wk_task w' \<and>
    fst (worker_stop w') = (if r = Cancelled then Inr () else Inl TypeError)"
proof -
  have "\<not> wk_stopping (worker_signals t w)" using assms(5,6) by (simp add: worker_signals_def)
  moreover have "r = Cancelled \<and> e = CancelledError \<or> r \<noteq> Cancelled \<and> e = TypeError"
    using assms(8) by (auto simp: ends_loop_def split: handler_result.splits)
  ultimately show ?thesis
    using assms(4) turn_ends [where h = h, OF assms(1-3,7,8), of "worker_signals t w"]
    by (auto simp: Let_def worker_stop_def) (simp_all add: worker_signals_def)
qed

theorem handler_ends_worker_witness:
  "\<exists>w' d2. worker_run own_pool WorkOptions_default (\<lambda>js d. (Unserializable, d)) ''q'' (replicate 3 (quiet_turn sample_pg))
     (worker_new\<lparr>wk_task := True\<rparr>) worker_sample = (w', [], d2) \<and> map j_state (jobs d2) = [ACTIVE, CREATED] \<and>
     fst (worker_stop w') = Inl TypeError"
proof -
  let ?t = "quiet_turn sample_pg" and ?h = "\<lambda>js d. (Unserializable, d) :: handler_result \<times> db"
  have "case worker_fetch WorkOptions_default ''q'' ?t worker_sample of Inl e \<Rightarrow> False
    | Inr (d1, rows) \<Rightarrow> rows \<noteq> [] \<and> map j_state (jobs d1) = [ACTIVE, CREATED]" by code_simp
  then obtain d1 rows where f: "worker_fetch WorkOptions_default ''q'' ?t (tn_others ?t worker_sample) = Inr (d1, rows)"
    "rows \<noteq> []" and st: "map j_state (jobs d1) = [ACTIVE, CREATED]"
    by (auto split: sum.splits)
  have "\<exists>w'. worker_run own_pool WorkOptions_default ?h ''q'' (?t # replicate 2 ?t) (worker_new\<lparr>wk_task := True\<rparr>) worker_sample =
      (w', [], d1) \<and> wk_task w' \<and> fst (worker_stop w') = (if Unserializable = Cancelled then Inr () else Inl TypeError)"
    by (rule handler_ends_worker [OF f]) (simp_all add: worker_new_def ends_loop_def)
  moreover have "?t # replicate 2 ?t = replicate 3 ?t" by (simp add: numeral_3_eq_3 numeral_2_eq_2)
  ultimately show ?thesis using st by (auto simp del: worker_run.simps)
qed

section \<open>How long an idle worker pauses\<close>

text \<open>A turn in which nothing happens and nothing is found.\<close>

definition idle_turn :: "WorkOptions \<Rightarrow> string \<Rightarrow> db \<Rightarrow> turn \<Rightarrow> bool" where
  "idle_turn options name d t \<longleftrightarrow>
     \<not> tn_notified t \<and> \<not> tn_stopped t \<and> tn_others t d = d \<and> tn_fetch_reply t = Answered \<and>
     worker_fetch options name t d = Inr (d, [])"

lemma idle_step:
  assumes "idle_turn options name d t" "\<not> wk_stopping w" "\<not> wk_wake w"
  shows "worker_run b options h name (t # ts) w d =
    (case worker_run b options h name ts (w\<lparr>wk_fast_retries := wk_fast_retries w - 1\<rparr>) d of (w', ps, d') \<Rightarrow>
       (w', Some (if 0 < wk_fast_retries w then min (wo_poll_interval_seconds options) NOTIFY_RETRY_SECONDS
                  else wo_poll_interval_seconds options) # ps, d'))"
  using assms
  by (cases w) (auto simp: idle_turn_def worker_signals_def worker_turn_def Let_def split: prod.split)

lemma idle_run:
  assumes "\<forall>t\<in>set ts. idle_turn options name d t" "\<not> wk_stopping w" "\<not> wk_wake w"
  shows "\<exists>w'. worker_run b options h name ts w d =
    (w', replicate (min (wk_fast_retries w) (length ts))
           (Some (min (wo_poll_interval_seconds options) NOTIFY_RETRY_SECONDS)) @
         replicate (length ts - wk_fast_retries w) (Some (wo_poll_interval_seconds options)), d)"
  using assms
proof (induction ts arbitrary: w)
  case (Cons t ts)
  let ?w = "w\<lparr>wk_fast_retries := wk_fast_retries w - 1\<rparr>"
  from Cons.prems have "\<exists>w'. worker_run b options h name ts ?w d =
      (w', replicate (min (wk_fast_retries ?w) (length ts))
             (Some (min (wo_poll_interval_seconds options) NOTIFY_RETRY_SECONDS)) @
           replicate (length ts - wk_fast_retries ?w) (Some (wo_poll_interval_seconds options)), d)"
    by (intro Cons.IH) auto
  then obtain w' where "worker_run b options h name ts ?w d =
      (w', replicate (min (wk_fast_retries ?w) (length ts))
             (Some (min (wo_poll_interval_seconds options) NOTIFY_RETRY_SECONDS)) @
           replicate (length ts - wk_fast_retries ?w) (Some (wo_poll_interval_seconds options)), d)" by blast
  moreover have "idle_turn options name d t" using Cons.prems(1) by simp
  ultimately show ?case
    using idle_step [OF _ Cons.prems(2,3)] by (cases "wk_fast_retries w") auto
qed simp

text \<open>After \<open>notify()\<close> an idle worker polls fast, but not for ever: with nothing to find it pauses at
  most a twentieth of a second ten times in a row and then its poll interval every time, and it
  never changes the tables.\<close>
theorem notify_polls_fast:
  assumes "\<forall>t\<in>set ts. idle_turn options name d t" "\<not> wk_stopping w"
  shows "\<exists>w'. worker_run b options h name ts (worker_notify w) d =
    (w', replicate (min 10 (length ts)) (Some (min (wo_poll_interval_seconds options) (1 / 20))) @
         replicate (length ts - 10) (Some (wo_poll_interval_seconds options)), d)"
proof (cases ts)
  case (Cons t us)
  let ?w = "(worker_notify w)\<lparr>wk_wake := False, wk_fast_retries := 10\<rparr>"
  have t: "idle_turn options name d t" using assms(1) Cons by simp
  have "worker_run b options h name ts (worker_notify w) d = worker_run b options h name ts ?w d"
    using t assms(2) unfolding Cons
    by (cases w) (simp add: worker_notify_def idle_turn_def worker_signals_def worker_turn_def NOTIFY_RETRIES_def Let_def)
  moreover have "\<not> wk_stopping ?w" "\<not> wk_wake ?w" using assms(2) by (simp_all add: worker_notify_def)
  ultimately show ?thesis using idle_run [OF assms(1), of ?w b h] by (simp add: NOTIFY_RETRY_SECONDS_def)
qed simp

theorem notify_polls_fast_witness:
  "\<exists>w'. worker_run own_pool WorkOptions_default (\<lambda>js d. (Returned JNull, d)) ''empty''
     (replicate 12 (quiet_turn sample_pg)) (worker_notify worker_new) worker_sample =
   (w', replicate 10 (Some (1 / 20)) @ replicate 2 (Some 2), worker_sample)"
proof -
  have "worker_fetch WorkOptions_default ''empty'' (quiet_turn sample_pg) worker_sample = Inr (worker_sample, [])"
    by code_simp
  then have "\<forall>t\<in>set (replicate 12 (quiet_turn sample_pg)). idle_turn WorkOptions_default ''empty'' worker_sample t"
    by (simp add: idle_turn_def)
  moreover have "\<not> wk_stopping worker_new" by (simp add: worker_new_def)
  ultimately show ?thesis
    using notify_polls_fast [of "replicate 12 (quiet_turn sample_pg)" WorkOptions_default "''empty''" worker_sample
        worker_new own_pool "\<lambda>js d. (Returned JNull, d)"]
    by (simp add: WorkOptions_default_def)
qed

end
