(* ===== verification/Cron_Scheduler.thy ===== *)
theory Cron_Scheduler
  imports Boss_Calls Worker_Loop
begin

text \<open>
  \<^verbatim>\<open>underboss/scheduler.py\<close>: the cron timekeeper. \<^verbatim>\<open>croniter\<close> and \<^verbatim>\<open>zoneinfo\<close> are not part of the
  repository: the record \<open>cron_lib\<close> holds what the code asks of them, and every definition takes it
  as an argument. The \<^verbatim>\<open>send\<close> a scheduler is given is a parameter as well, with the contract stated
  as a locale; the object's own \<^verbatim>\<open>send\<close> provides it.
\<close>

section \<open>What the libraries answer\<close>

text \<open>
  \<open>cl_get_prev cron zone now\<close> is \<^verbatim>\<open>croniter(cron, now).get_prev(datetime)\<close>, as an instant; \<open>None\<close> is UTC.
  \<open>cl_utcoffset zone t\<close> is the offset of the zone from UTC at an instant. \<^verbatim>\<open>get_prev\<close> answers in the zone of
  \<^verbatim>\<open>now\<close>, and Python subtracts two datetimes of one zone by their wall clocks, without their offsets.
\<close>

record cron_lib =
  cl_is_valid :: "string \<Rightarrow> bool"
  cl_zone_exists :: "string \<Rightarrow> bool"
  cl_get_prev :: "string \<Rightarrow> string option \<Rightarrow> int \<Rightarrow> error + int"
  cl_utcoffset :: "string \<Rightarrow> int \<Rightarrow> int"

type_synonym send_fn =
  "pg \<Rightarrow> string \<Rightarrow> (string \<times> json) list option \<Rightarrow> SendOptions option \<Rightarrow> db \<Rightarrow> (error + string option) \<times> db"

definition SEND_IT_QUEUE :: string where
  "SEND_IT_QUEUE = ''__underboss__send-it''"

definition DUE_WINDOW_SECONDS :: int where
  "DUE_WINDOW_SECONDS = 60"

definition validate_cron :: "cron_lib \<Rightarrow> string \<Rightarrow> error + unit" where
  "validate_cron lib cron = (if cl_is_valid lib cron then Inr () else Inl (ValueError cron))"

text \<open>An empty time zone is no time zone; an unknown one raises \<^verbatim>\<open>ZoneInfoNotFoundError\<close>, a \<^verbatim>\<open>KeyError\<close>.\<close>

definition zone_of :: "cron_lib \<Rightarrow> string option \<Rightarrow> error + string option" where
  "zone_of lib timezone =
     (case timezone of
        None \<Rightarrow> Inr None
      | Some z \<Rightarrow>
          if z = [] then Inr None else if cl_zone_exists lib z then Inr (Some z) else Inl (KeyError z))"

definition wall_clock :: "cron_lib \<Rightarrow> string option \<Rightarrow> int \<Rightarrow> int" where
  "wall_clock lib zone t = t + (case zone of None \<Rightarrow> 0 | Some z \<Rightarrow> cl_utcoffset lib z t)"

definition should_send :: "cron_lib \<Rightarrow> int \<Rightarrow> string \<Rightarrow> string option \<Rightarrow> error + bool" where
  "should_send lib now cron timezone =
     bindr (zone_of lib timezone) (\<lambda>zone.
     bindr (cl_get_prev lib cron zone now) (\<lambda>previous.
       Inr (wall_clock lib zone now - wall_clock lib zone previous < DUE_WINDOW_SECONDS * second)))"

section \<open>Schedules\<close>

definition scheduler_upsert ::
  "cron_lib \<Rightarrow> Database \<Rightarrow> pg \<Rightarrow> string \<Rightarrow> string \<Rightarrow> string \<Rightarrow> string option \<Rightarrow>
     (string \<times> json) list option \<Rightarrow> db \<Rightarrow> (error + unit) \<times> db" where
  "scheduler_upsert lib b s name key cron timezone data d =
     (case validate_cron lib cron of
        Inl e \<Rightarrow> (Inl e, d)
      | Inr u \<Rightarrow>
          (case bindr (bind_jsonb b s (map_option JObj data)) (\<lambda>data'.
                bindr (bind_jsonb b s (Some (JObj []))) (\<lambda>options'. Inr (data', options'))) of
             Inl e \<Rightarrow> (Inl e, d)
           | Inr (data', options') \<Rightarrow>
               (case execute b False (no_rows (upsert_schedule s name key cron timezone data' options')) d of
                  (Inl e, d') \<Rightarrow>
                    (Inl (if e = Db ForeignKeyViolation then QueueNotFoundError name else e), d')
                | (Inr u, d') \<Rightarrow> (Inr u, d'))))"

definition scheduler_delete :: "Database \<Rightarrow> string \<Rightarrow> string \<Rightarrow> db \<Rightarrow> (error + unit) \<times> db" where
  "scheduler_delete b name key d = execute b False (\<lambda>d. Inr (delete_schedule name key d, ())) d"

section \<open>Ticking\<close>

definition sendit_options :: "schedule_row \<Rightarrow> SendOptions" where
  "sendit_options row = SendOptions_default
     \<lparr>so_singleton_key := Some (sch_name row @ ''__'' @ sch_key row),
      so_singleton_seconds := Some DUE_WINDOW_SECONDS\<rparr>"

definition json_or_null :: "json option \<Rightarrow> json" where
  "json_or_null v = (case v of None \<Rightarrow> JNull | Some x \<Rightarrow> x)"

definition envelope :: "schedule_row \<Rightarrow> (string \<times> json) list" where
  "envelope row =
     [(''name'', JStr (sch_name row)), (''data'', json_or_null (sch_data row)),
      (''options'', json_or_null (sch_options row))]"

text \<open>
  The loop of \<^verbatim>\<open>_enqueue_due\<close>; an exception leaves it. \<open>env k\<close> is the server of the \<open>k\<close>-th send and the
  node's own clock at the \<open>k\<close>-th schedule.
\<close>

fun enqueue_due ::
  "cron_lib \<Rightarrow> send_fn \<Rightarrow> (nat \<Rightarrow> pg \<times> int) \<Rightarrow> nat \<Rightarrow> schedule_row list \<Rightarrow> db \<Rightarrow> (error + unit) \<times> db" where
  "enqueue_due lib send env k [] d = (Inr (), d)"
| "enqueue_due lib send env k (row # rows) d =
     (case should_send lib (snd (env k)) (sch_cron row) (sch_timezone row) of
        Inl e \<Rightarrow> (Inl e, d)
      | Inr due \<Rightarrow>
          if \<not> due then enqueue_due lib send env (Suc k) rows d
          else case send (fst (env k)) SEND_IT_QUEUE (Some (envelope row)) (Some (sendit_options row)) d of
                 (Inl e, d') \<Rightarrow> (Inl e, d')
               | (Inr i, d') \<Rightarrow> enqueue_due lib send env (Suc k) rows d')"

definition scheduler_tick ::
  "cron_lib \<Rightarrow> Database \<Rightarrow> send_fn \<Rightarrow> pg \<Rightarrow> (nat \<Rightarrow> pg \<times> int) \<Rightarrow> rat \<Rightarrow> db \<Rightarrow>
     (error + unit) \<times> db" where
  "scheduler_tick lib b send s env interval d =
     (case try_set_cron_time s interval d of
        (d', won) \<Rightarrow>
          if won = [] then (Inr (), d')
          else enqueue_due lib send env 0 (map (received_schedule b s) (get_schedules d')) d')"

text \<open>\<^verbatim>\<open>_run\<close>: an exception of a tick is logged and dropped. Each turn says whether \<^verbatim>\<open>stop()\<close> came during its pause.\<close>

fun scheduler_run ::
  "cron_lib \<Rightarrow> Database \<Rightarrow> send_fn \<Rightarrow> rat \<Rightarrow> bool \<Rightarrow> (pg \<times> (nat \<Rightarrow> pg \<times> int) \<times> bool) list \<Rightarrow> db \<Rightarrow> db" where
  "scheduler_run lib b send interval stopping [] d = d"
| "scheduler_run lib b send interval stopping ((s, env, stop) # turns) d =
     (if stopping then d
      else scheduler_run lib b send interval stop turns (snd (scheduler_tick lib b send s env interval d)))"

section \<open>The worker of the send-it queue\<close>

definition envelope_get :: "json option \<Rightarrow> string \<Rightarrow> error + json" where
  "envelope_get v k =
     (case v of
        Some (JObj kvs) \<Rightarrow> of_option (KeyError k) (map_of kvs k)
      | _ \<Rightarrow> Inl TypeError)"

text \<open>
  The name and data of an envelope, as \<^verbatim>\<open>send\<close> takes them: by its signature data is a mapping or
  \<^verbatim>\<open>None\<close>, and \<^verbatim>\<open>schedule\<close>, which stores it, takes nothing else.
\<close>

definition open_envelope :: "json option \<Rightarrow> error + string \<times> (string \<times> json) list option" where
  "open_envelope v =
     bindr (envelope_get v ''name'') (\<lambda>n.
     bindr (envelope_get v ''data'') (\<lambda>x.
       case (n, x) of
         (JStr name, JNull) \<Rightarrow> Inr (name, None)
       | (JStr name, JObj kvs) \<Rightarrow> Inr (name, Some kvs)
       | _ \<Rightarrow> Inl TypeError))"

fun send_all :: "send_fn \<Rightarrow> (nat \<Rightarrow> pg) \<Rightarrow> nat \<Rightarrow> Job list \<Rightarrow> db \<Rightarrow> db" where
  "send_all send env k [] d = d"
| "send_all send env k (j # js) d =
     (case open_envelope (job_data j) of
        Inl e \<Rightarrow> send_all send env (Suc k) js d
      | Inr (name, data) \<Rightarrow> send_all send env (Suc k) js (snd (send (env k) name data None d)))"

definition on_send_it :: "send_fn \<Rightarrow> (nat \<Rightarrow> pg) \<Rightarrow> handler" where
  "on_send_it send env js d = (Returned JNull, send_all send env 0 js d)"

section \<open>The object\<close>

record scheduler =
  sd_task :: bool
  sd_stopping :: bool
  sd_worker :: "worker option"
  sd_tick_interval :: rat
  sd_sendit_poll :: rat

definition scheduler_new :: "rat \<Rightarrow> scheduler" where
  "scheduler_new interval =
     \<lparr>sd_task = False, sd_stopping = False, sd_worker = None, sd_tick_interval = interval,
      sd_sendit_poll = min interval 2\<rparr>"

text \<open>The options of the send-it worker.\<close>

definition sendit_work_options :: "scheduler \<Rightarrow> WorkOptions" where
  "sendit_work_options sd =
     WorkOptions_default\<lparr>wo_batch_size := 50, wo_poll_interval_seconds := sd_sendit_poll sd\<rparr>"

text \<open>A statement on a relation that the schema may lack; \<open>relations\<close> says which are there.\<close>

definition on_relation ::
  "(string \<Rightarrow> bool) \<Rightarrow> string \<Rightarrow> (db \<Rightarrow> db_error + db \<times> 'a) \<Rightarrow> db \<Rightarrow> db_error + db \<times> 'a" where
  "on_relation relations t f d = (if relations t then f d else Inl UndefinedObject)"

definition scheduler_start ::
  "Database \<Rightarrow> (string \<Rightarrow> bool) \<Rightarrow> pg \<Rightarrow> scheduler \<Rightarrow> db \<Rightarrow> (error + scheduler) \<times> db" where
  "scheduler_start b relations s sd d =
     (case execute b False (on_relation relations ''queue''
             (no_rows (create_queue s SEND_IT_QUEUE (JObj [(''policy'', JStr ''standard'')])))) d of
        (Inl e, d') \<Rightarrow> (Inl e, d')
      | (Inr u, d') \<Rightarrow>
          (bindr (worker_start worker_new) (\<lambda>w. Inr (sd\<lparr>sd_worker := Some w, sd_task := True\<rparr>)), d'))"

definition scheduler_stop :: "scheduler \<Rightarrow> scheduler" where
  "scheduler_stop sd = sd\<lparr>sd_stopping := True, sd_task := False, sd_worker := None\<rparr>"

section \<open>The contract of \<^verbatim>\<open>send\<close>\<close>

locale sender = runs +
  fixes send :: send_fn
  assumes send_runs: "R d (snd (send s name data options d))"
begin

lemma enqueue_due_runs: "R d (snd (enqueue_due lib send env k rows d))"
proof (induction rows arbitrary: k d)
  case (Cons row rows)
  show ?case
  proof (cases "should_send lib (snd (env k)) (sch_cron row) (sch_timezone row)")
    case (Inr due)
    let ?r = "send (fst (env k)) SEND_IT_QUEUE (Some (envelope row)) (Some (sendit_options row)) d"
    have "R d (snd ?r)" by (rule send_runs)
    with Inr Cons.IH show ?thesis
      by (cases ?r; cases "fst ?r") (auto intro: R_trans)
  qed (simp add: R_refl)
qed (simp add: R_refl)

lemma tick_runs: "R d (snd (scheduler_tick lib b send s env interval d))"
proof -
  have "R d (fst (try_set_cron_time s interval d))" by (rule R_step [OF step.tick]) simp
  then show ?thesis
    by (auto simp: scheduler_tick_def split: prod.split intro: R_trans enqueue_due_runs)
qed

lemma loop_runs: "R d (scheduler_run lib b send interval stopping turns d)"
proof (induction turns arbitrary: stopping d)
  case (Cons t turns)
  then show ?case by (cases t) (auto simp: R_refl intro: R_trans [OF tick_runs])
qed (simp add: R_refl)

lemma send_all_runs: "R d (send_all send env k js d)"
proof (induction js arbitrary: k d)
  case (Cons j js)
  then show ?case by (auto split: sum.split intro: R_trans [OF send_runs])
qed (simp add: R_refl)

end

text \<open>A scheduler's handler is then a handler the worker's contract covers.\<close>

sublocale sender \<subseteq> sendit: job_handler R "on_send_it send env" for env
  by unfold_locales (simp add: on_send_it_def send_all_runs)

text \<open>The object's own \<^verbatim>\<open>send\<close> keeps the contract.\<close>

definition boss_sender :: "('z core_scheme) \<Rightarrow> send_fn" where
  "boss_sender b s name data options = boss_send b s False name data options"

context runs
begin

lemma boss_sender_runs: "R d (snd (boss_sender b s name data options d))"
  by (simp add: boss_sender_def boss_calls_run)

lemma sender_boss: "sender R (boss_sender b)"
  by unfold_locales (rule boss_sender_runs)

end

interpretation boss: sender evolve "boss_sender b" for b
  by (rule run.sender_boss)

section \<open>Properties\<close>

text \<open>One bad time zone silences the schedules behind it: \<^verbatim>\<open>upsert\<close> checks the cron expression but not
  the zone, and an unknown zone raises in the loop. Whatever stands behind that schedule, in the
  order of queue name and key, is never looked at: the tick does exactly what it would do if those
  schedules did not exist, then raises.\<close>
theorem bad_zone_silences:
  assumes "enqueue_due lib send env k before d = (Inr (), d')"
    "sch_timezone row = Some z" "z \<noteq> []" "\<not> cl_zone_exists lib z"
  shows "enqueue_due lib send env k (before @ row # behind) d = (Inl (KeyError z), d')"
  using assms(1)
proof (induction before arbitrary: k d)
  case Nil
  then show ?case using assms(2-4) by (simp add: should_send_def zone_of_def)
next
  case (Cons r rs)
  then show ?case by (auto split: sum.splits if_splits prod.splits)
qed

text \<open>A cron library for the samples: every expression fires on the hour, only two zones exist.\<close>

definition sample_lib :: cron_lib where
  "sample_lib = \<lparr>cl_is_valid = (\<lambda>c. True), cl_zone_exists = (\<lambda>z. z = ''Europe/Paris'' \<or> z = ''UTC''),
     cl_get_prev = (\<lambda>c z now. Inr (now div (3600 * second) * (3600 * second))),
     cl_utcoffset = (\<lambda>z t. 0)\<rparr>"

definition sample_schedule :: "string \<Rightarrow> string \<Rightarrow> string option \<Rightarrow> schedule_row" where
  "sample_schedule name key tz =
     \<lparr>sch_name = name, sch_key = key, sch_cron = ''0 * * * *'', sch_timezone = tz, sch_data = None,
      sch_options = Some (JObj []), sch_created_on = 0, sch_updated_on = 0\<rparr>"

text \<open>Clocks that are set back keep schedules due. The window is measured on the wall clock of the
  schedule's zone, so it is longer by the offset lost since the firing: in the hour after the end of
  summer time a firing of the hour before is found due again in every minute until the wall clock
  has passed it, and each minute has a throttle slot of its own.\<close>
theorem clock_shift_due:
  assumes "z \<noteq> []" "cl_zone_exists lib z" "cl_get_prev lib cron (Some z) now = Inr previous"
  shows "should_send lib now cron (Some z) =
    Inr (now - previous < DUE_WINDOW_SECONDS * second + (cl_utcoffset lib z previous - cl_utcoffset lib z now))"
  using assms by (auto simp: should_send_def zone_of_def wall_clock_def)

text \<open>Half past one fired at 5400 seconds, the clock was set back by an hour at 7200.\<close>

definition autumn_lib :: cron_lib where
  "autumn_lib = sample_lib\<lparr>cl_get_prev := (\<lambda>c z now. Inr (5400 * second)),
     cl_utcoffset := (\<lambda>z t. if t < 7200 * second then 7200 * second else 3600 * second)\<rparr>"

theorem clock_shift_due_witness:
  "should_send autumn_lib (7800 * second) ''30 1 * * *'' (Some ''Europe/Paris'') = Inr True"
  using clock_shift_due [of "''Europe/Paris''" autumn_lib "''30 1 * * *''" "7800 * second" "5400 * second"]
  by (simp add: autumn_lib_def sample_lib_def DUE_WINDOW_SECONDS_def second_def)

text \<open>A node at a given second, its clock equal to the server's.\<close>

definition node_at :: "int \<Rightarrow> nat \<Rightarrow> pg \<times> int" where
  "node_at t k = (sample_pg\<lparr>pg_now := t, pg_gen_uuid := (\<lambda>i. 1000 + 100 * k + i)\<rparr>, t)"

definition cron_sample :: "schedule_row list \<Rightarrow> db" where
  "cron_sample rows = (sample_db [sample_queue SEND_IT_QUEUE ''standard''] [])\<lparr>schedules := rows\<rparr>"

theorem bad_zone_silences_witness:
  "\<exists>d'. enqueue_due sample_lib (boss_sender running_core) (node_at (7200 * second)) 0
     ([sample_schedule ''a'' [] None] @ sample_schedule ''b'' [] (Some ''Mars'') # [sample_schedule ''c'' [] None])
     (cron_sample []) = (Inl (KeyError ''Mars''), d') \<and> map j_singleton_key (jobs d') = [Some ''a__'']"
proof -
  let ?e = "enqueue_due sample_lib (boss_sender running_core) (node_at (7200 * second)) 0 [sample_schedule ''a'' [] None]
    (cron_sample [])"
  have "fst ?e = Inr () \<and> map j_singleton_key (jobs (snd ?e)) = [Some ''a__'']" by code_simp
  then have e: "?e = (Inr (), snd ?e)" "map j_singleton_key (jobs (snd ?e)) = [Some ''a__'']"
    by (simp_all only: prod_eq_iff fst_conv snd_conv simp_thms)
  have "sch_timezone (sample_schedule ''b'' [] (Some ''Mars'')) = Some ''Mars''" "''Mars'' \<noteq> []"
    "\<not> cl_zone_exists sample_lib ''Mars''" by (simp_all add: sample_schedule_def sample_lib_def)
  from bad_zone_silences [OF e(1) this] e(2) show ?thesis by (intro exI conjI)
qed

text \<open>Two schedules can share one throttle key, since the key joins queue name and schedule key with
  the same underscores they may contain: of two due schedules, key \<^verbatim>\<open>b__c\<close> of queue \<^verbatim>\<open>a\<close> and key \<^verbatim>\<open>c\<close> of
  queue \<^verbatim>\<open>a__b\<close>, one tick enqueues only the first; the other's firing is lost.\<close>
theorem schedule_keys_collide:
  "let s1 = sample_schedule ''a'' ''b__c'' None; s2 = sample_schedule ''a__b'' ''c'' None;
       r = enqueue_due sample_lib (boss_sender running_core) (node_at (7200 * second)) 0 [s1, s2] (cron_sample [])
   in fst r = Inr () \<and> map j_data (jobs (snd r)) = [Some (JObj (envelope s1))]"
  by code_simp

text \<open>A firing can fall between two ticks. The debounce lets a tick win only when \<^emph>\<open>more\<close> than the
  interval has passed since the last win, a schedule is due for \<^emph>\<open>less\<close> than a minute: with the
  default interval of 60 seconds, a win one millisecond before the hour and the next one 60.001
  seconds later both win and neither enqueues the hourly job.\<close>
theorem firing_missed:
  "let d0 = (cron_sample [sample_schedule ''a'' [] None])\<lparr>versions := [\<lparr>v_version = 30, v_cron_on = None\<rparr>]\<rparr>;
       t1 = 7200 * second - 1000; t2 = 7200 * second + 60 * second;
       r1 = scheduler_tick sample_lib own_pool (boss_sender running_core) (fst (node_at t1 0)) (node_at t1) 60 d0;
       r2 = scheduler_tick sample_lib own_pool (boss_sender running_core) (fst (node_at t2 0)) (node_at t2) 60 (snd r1)
   in fst r1 = Inr () \<and> fst r2 = Inr () \<and> map v_cron_on (versions (snd r1)) = [Some t1] \<and>
      map v_cron_on (versions (snd r2)) = [Some t2] \<and> jobs (snd r2) = []"
  by code_simp

text \<open>C19. At most once: whatever the nodes do, the send-it queue holds at most one job, cancelled ones
  apart, per schedule key and minute; and every tick in the minute that starts with a firing puts
  its job into that firing's slot. So overlapping ticks of several nodes enqueue a firing once.\<close>
theorem firing_enqueued_once:
  assumes "reachable d" "firing mod (60 * second) = 0" "firing \<le> pg_now s" "pg_now s < firing + 60 * second"
  shows "throttle_slot s (sendit_options row) = Some firing \<and>
    length (filter (\<lambda>j. j_name j = SEND_IT_QUEUE \<and> j_state j \<noteq> CANCELLED \<and>
      j_singleton_key j = so_singleton_key (sendit_options row) \<and>
      j_singleton_on j = throttle_slot s (sendit_options row)) (jobs d)) \<le> 1"
proof -
  from assms(2) obtain m where m: "firing = 60 * second * m" by (metis mod_0_imp_dvd dvdE)
  have "pg_now s div (60 * second) = m"
    by (rule int_div_pos_eq [of _ _ _ "pg_now s - firing"]) (use assms(3,4) m in simp_all)
  then have slot: "throttle_slot s (sendit_options row) = Some firing"
    using m by (simp add: throttle_slot_def sendit_options_def SendOptions_default_def DUE_WINDOW_SECONDS_def)
  let ?k = "(SEND_IT_QUEUE, None, Some firing, sch_name row @ ''__'' @ sch_key row) :: ikey"
  have "unique_index Job_i4 (jobs d)" using reachable_ok [OF assms(1)] by (simp add: db_ok_def jobs_ok_def)
  then have "length (filter (\<lambda>j. index_key Job_i4 j = Some ?k) (jobs d)) \<le> 1"
    unfolding unique_index_def distinct_map_filter_count by blast
  moreover have "length (filter (\<lambda>j. j_name j = SEND_IT_QUEUE \<and> j_state j \<noteq> CANCELLED \<and>
      j_singleton_key j = so_singleton_key (sendit_options row) \<and> j_singleton_on j = Some firing) (jobs d))
    \<le> length (filter (\<lambda>j. index_key Job_i4 j = Some ?k) (jobs d))"
    by (rule length_filter_mono) (simp add: index_defs sendit_options_def)
  ultimately show ?thesis using slot by simp
qed

theorem firing_enqueued_once_witness:
  "throttle_slot (fst (node_at (7230 * second) 0)) (sendit_options (sample_schedule ''a'' [] None)) =
     Some (7200 * second)"
proof -
  have "(7200 * second) mod (60 * second) = 0" "7200 * second \<le> pg_now (fst (node_at (7230 * second) 0))"
    "pg_now (fst (node_at (7230 * second) 0)) < 7200 * second + 60 * second"
    by (simp_all add: second_def node_at_def)
  from firing_enqueued_once [OF reachable_installed this] show ?thesis by blast
qed

text \<open>A job of the send-it queue in a throttle slot.\<close>

definition in_slot :: "string option \<Rightarrow> int option \<Rightarrow> job_row \<Rightarrow> bool" where
  "in_slot key slot j \<longleftrightarrow> j_name j = SEND_IT_QUEUE \<and> j_state j \<noteq> CANCELLED \<and> j_singleton_key j = key \<and>
     j_singleton_on j = slot"

lemma sendit_sendable:
  assumes "interval_in_ok s"
  shows "sendable s (sendit_options row) (pg_now s)"
proof -
  have "str_of_int 0 = ''0''" by code_simp
  moreover have "pg_add_interval s (pg_now s) (str_of_int 0) = Some (pg_now s)"
    using assms unfolding interval_in_ok_def by simp
  ultimately show ?thesis
    by (simp add: sendable_def sendit_options_def SendOptions_default_def SendOptions_ok_def int4_ok_def int4_opt_ok_def
        DUE_WINDOW_SECONDS_def encode_start_after_def start_after_of_def)
qed

lemma sent_in_slot:
  "q_name q = SEND_IT_QUEUE \<Longrightarrow>
   in_slot (so_singleton_key (sendit_options row)) (throttle_slot s (sendit_options row))
     (sent_row s q data (sendit_options row) start)"
  by (simp add: in_slot_def sent_row_def)

lemma conflict_in_slot:
  assumes "conflicts rows (sent_row s q data (sendit_options row) start)" "q_name q = SEND_IT_QUEUE"
    "q_policy q = ''standard''" "(SEND_IT_QUEUE, pg_gen_uuid s 0) \<notin> job_pk ` set rows"
  shows "\<exists>j\<in>set rows. in_slot (so_singleton_key (sendit_options row)) (throttle_slot s (sendit_options row)) j"
proof -
  let ?r = "sent_row s q data (sendit_options row) start"
  have r: "j_state ?r = CREATED" "j_policy ?r = Some ''standard''" "job_pk ?r = (SEND_IT_QUEUE, pg_gen_uuid s 0)"
    using assms(2,3) by (simp_all add: sent_row_def job_pk_def)
  from assms(1,4) r(3) obtain i where i: "index_key i ?r \<noteq> None" "index_key i ?r \<in> index_key i ` set rows"
    unfolding conflicts_def set_map by metis
  then obtain j where j: "j \<in> set rows" "index_key i ?r = index_key i j" "index_key i ?r \<noteq> None"
    by (metis imageE)
  then have "i = Job_i4" using r(1,2) by (cases i) (auto simp: index_defs)
  with j have "index_job_throttle j = index_job_throttle ?r" "index_job_throttle ?r \<noteq> None" by simp_all
  then have "in_slot (so_singleton_key (sendit_options row)) (throttle_slot s (sendit_options row)) j"
    using assms(2) by (cases "j_singleton_key j")
      (auto simp: index_job_throttle_def sent_row_def in_slot_def sendit_options_def split: if_splits)
  with j(1) show ?thesis by blast
qed

lemma send_fills_slot:
  assumes "running b" "interval_in_ok s" "find_queue SEND_IT_QUEUE d = Some q" "q_policy q = ''standard''"
    "(SEND_IT_QUEUE, pg_gen_uuid s 0) \<notin> job_pk ` set (jobs d)"
    "boss_sender b s SEND_IT_QUEUE (Some data) (Some (sendit_options row)) d = (Inr x, d')"
  shows "set (jobs d) \<subseteq> set (jobs d') \<and> queues d' = queues d \<and>
    job_pk ` set (jobs d') \<subseteq> insert (SEND_IT_QUEUE, pg_gen_uuid s 0) (job_pk ` set (jobs d)) \<and>
    (\<exists>j\<in>set (jobs d'). in_slot (so_singleton_key (sendit_options row)) (throttle_slot s (sendit_options row)) j)"
proof -
  let ?r = "sent_row s q (Some data) (sendit_options row) (pg_now s)"
  have name: "q_name q = SEND_IT_QUEUE" using find_queue_Some [OF assms(3)] by simp
  have pk: "job_pk ?r = (SEND_IT_QUEUE, pg_gen_uuid s 0)" using name by (simp add: sent_row_def job_pk_def)
  from assms(6) insert_sent_row [OF sendit_sendable [OF assms(2)] assms(3), of "Some data" row]
  have "conflicts (jobs d) ?r \<and> d' = d \<or> d' = d\<lparr>jobs := jobs d @ [?r]\<rparr>"
    by (auto simp: boss_sender_def boss_send_def running_execute [OF assms(1)] and_then_def Let_def split: if_splits)
  then show ?thesis
    using conflict_in_slot [OF _ name assms(4,5)] sent_in_slot [OF name, of row s "Some data" "pg_now s"] pk by auto
qed

lemma find_queue_cong: "queues d' = queues d \<Longrightarrow> find_queue n d' = find_queue n d"
  by (simp add: find_queue_def)

lemma enqueue_due_fills:
  assumes "running b" "\<forall>m. interval_in_ok (fst (env m))" "inj (\<lambda>m. pg_gen_uuid (fst (env m)) 0)"
    "find_queue SEND_IT_QUEUE d = Some q" "q_policy q = ''standard''"
    "\<forall>m\<ge>k. (SEND_IT_QUEUE, pg_gen_uuid (fst (env m)) 0) \<notin> job_pk ` set (jobs d)"
    "enqueue_due lib (boss_sender b) env k rows d = (Inr (), d')"
  shows "set (jobs d) \<subseteq> set (jobs d') \<and>
    (\<forall>i<length rows. should_send lib (snd (env (k + i))) (sch_cron (rows ! i)) (sch_timezone (rows ! i)) = Inr True \<longrightarrow>
      (\<exists>j\<in>set (jobs d'). in_slot (so_singleton_key (sendit_options (rows ! i)))
        (throttle_slot (fst (env (k + i))) (sendit_options (rows ! i))) j))"
  using assms(4,6,7)
proof (induction rows arbitrary: k d)
  case (Cons row rows)
  let ?slot = "\<lambda>m row. in_slot (so_singleton_key (sendit_options row)) (throttle_slot (fst (env m)) (sendit_options row))"
  obtain d1 where d1: "set (jobs d) \<subseteq> set (jobs d1)" "find_queue SEND_IT_QUEUE d1 = Some q"
    "\<forall>m\<ge>Suc k. (SEND_IT_QUEUE, pg_gen_uuid (fst (env m)) 0) \<notin> job_pk ` set (jobs d1)"
    "enqueue_due lib (boss_sender b) env (Suc k) rows d1 = (Inr (), d')"
    "should_send lib (snd (env k)) (sch_cron row) (sch_timezone row) = Inr True \<longrightarrow> (\<exists>j\<in>set (jobs d1). ?slot k row j)"
  proof (cases "should_send lib (snd (env k)) (sch_cron row) (sch_timezone row) = Inr True")
    case True
    with Cons.prems(3) obtain x d1 where
      send: "boss_sender b (fst (env k)) SEND_IT_QUEUE (Some (envelope row)) (Some (sendit_options row)) d = (Inr x, d1)"
      and rest: "enqueue_due lib (boss_sender b) env (Suc k) rows d1 = (Inr (), d')"
      by (auto split: prod.splits sum.splits)
    have "(SEND_IT_QUEUE, pg_gen_uuid (fst (env k)) 0) \<notin> job_pk ` set (jobs d)" using Cons.prems(2) by blast
    note fills = send_fills_slot [OF assms(1) _ Cons.prems(1) assms(5) this send] assms(2)
    have "pg_gen_uuid (fst (env m)) 0 \<noteq> pg_gen_uuid (fst (env k)) 0" if "Suc k \<le> m" for m
      using injD [OF assms(3), of m k] that by auto
    then have "\<forall>m\<ge>Suc k. (SEND_IT_QUEUE, pg_gen_uuid (fst (env m)) 0) \<notin> job_pk ` set (jobs d1)"
      using fills Cons.prems(2) by (metis Suc_leD insertE prod.inject subsetD)
    then show ?thesis using that [of d1] fills rest Cons.prems(1) find_queue_cong by metis
  next
    case False
    with Cons.prems(3) have "enqueue_due lib (boss_sender b) env (Suc k) rows d = (Inr (), d')"
      by (auto split: sum.splits if_splits)
    with False Cons.prems(1,2) show ?thesis by (intro that [of d]) auto
  qed
  from Cons.IH [OF d1(2-4)] have IH: "set (jobs d1) \<subseteq> set (jobs d')"
    "\<And>i. i < length rows \<Longrightarrow>
      should_send lib (snd (env (Suc k + i))) (sch_cron (rows ! i)) (sch_timezone (rows ! i)) = Inr True \<Longrightarrow>
      \<exists>j\<in>set (jobs d'). ?slot (Suc k + i) (rows ! i) j" by blast+
  show ?case
  proof (intro conjI allI impI)
    show "set (jobs d) \<subseteq> set (jobs d')" using d1(1) IH(1) by blast
    fix i assume "i < length (row # rows)"
      "should_send lib (snd (env (k + i))) (sch_cron ((row # rows) ! i)) (sch_timezone ((row # rows) ! i)) = Inr True"
    then show "\<exists>j\<in>set (jobs d'). ?slot (k + i) ((row # rows) ! i) j"
      using d1(5) IH by (cases i) auto
  qed
qed simp

text \<open>C20. No due schedule is skipped: when a tick's loop over the schedules ends without an error, the
  send-it queue, a standard queue, holds for every schedule that was due when it was looked at a
  job in the slot of that minute, new or already there, and no job it held before is gone.\<close>
theorem due_enqueued:
  assumes "running b" "\<forall>m. interval_in_ok (fst (env m))" "inj (\<lambda>m. pg_gen_uuid (fst (env m)) 0)"
    "find_queue SEND_IT_QUEUE d = Some q" "q_policy q = ''standard''"
    "\<forall>m. (SEND_IT_QUEUE, pg_gen_uuid (fst (env m)) 0) \<notin> job_pk ` set (jobs d)"
    "enqueue_due lib (boss_sender b) env 0 rows d = (Inr (), d')"
  shows "set (jobs d) \<subseteq> set (jobs d') \<and>
    (\<forall>i<length rows. should_send lib (snd (env i)) (sch_cron (rows ! i)) (sch_timezone (rows ! i)) = Inr True \<longrightarrow>
      (\<exists>j\<in>set (jobs d'). in_slot (so_singleton_key (sendit_options (rows ! i)))
        (throttle_slot (fst (env i)) (sendit_options (rows ! i))) j))"
  using enqueue_due_fills [OF assms(1-5) _ assms(7)] assms(6) by simp

lemma sample_interval_ok: "interval_in_ok (fst (node_at t k))"
  by (simp add: interval_in_ok_def node_at_def sample_pg_def)

theorem due_enqueued_witness:
  "\<exists>d'. enqueue_due sample_lib (boss_sender running_core) (node_at (7230 * second)) 0
     [sample_schedule ''a'' [] None, sample_schedule ''b'' ''k'' None] (cron_sample []) = (Inr (), d') \<and>
   (\<exists>j\<in>set (jobs d'). in_slot (Some ''b__k'') (Some (7200 * second)) j)"
proof -
  let ?env = "node_at (7230 * second)" and ?rows = "[sample_schedule ''a'' [] None, sample_schedule ''b'' ''k'' None]"
  let ?e = "enqueue_due sample_lib (boss_sender running_core) ?env 0 ?rows (cron_sample [])"
  have "fst ?e = Inr ()" by code_simp
  then obtain d' where e: "?e = (Inr (), d')" by (metis prod.collapse)
  have interval: "\<forall>m. interval_in_ok (fst (?env m))" using sample_interval_ok by blast
  have inj: "inj (\<lambda>m. pg_gen_uuid (fst (?env m)) 0)" by (simp add: node_at_def inj_def)
  have queue: "find_queue SEND_IT_QUEUE (cron_sample []) = Some (sample_queue SEND_IT_QUEUE ''standard'')" by code_simp
  have policy: "q_policy (sample_queue SEND_IT_QUEUE ''standard'') = ''standard''" by (simp add: sample_queue_def)
  have fresh: "\<forall>m. (SEND_IT_QUEUE, pg_gen_uuid (fst (?env m)) 0) \<notin> job_pk ` set (jobs (cron_sample []))"
    by (simp add: cron_sample_def sample_db_def)
  have "should_send sample_lib (snd (?env 1)) (sch_cron (?rows ! 1)) (sch_timezone (?rows ! 1)) = Inr True"
    "so_singleton_key (sendit_options (?rows ! 1)) = Some ''b__k''"
    "throttle_slot (fst (?env 1)) (sendit_options (?rows ! 1)) = Some (7200 * second)" by code_simp+
  with conjunct2 [OF due_enqueued [OF running_core interval inj queue policy fresh e], rule_format, of 1]
  have "\<exists>j\<in>set (jobs d'). in_slot (Some ''b__k'') (Some (7200 * second)) j" by simp
  with e show ?thesis by blast
qed

text \<open>From schedule to job: a schedule of a queue, a tick of the scheduler in the minute of its firing
  and one turn of the send-it worker, and the job is in the queue with the schedule's data, while
  the send-it job is completed.\<close>
theorem schedule_delivers:
  "let d0 = sample_db [sample_queue ''mail'' ''standard''] [];
       (r1, d1) = scheduler_start (ub_db running_core) (\<lambda>n. True) sample_pg (scheduler_new 60) d0;
       (r2, d2) = scheduler_upsert sample_lib (ub_db running_core) sample_pg ''mail'' [] ''0 * * * *'' None
         (Some [(''to'', JStr ''ada'')]) d1;
       (r3, d3) = scheduler_tick sample_lib own_pool (boss_sender running_core) (fst (node_at (7230 * second) 0))
         (node_at (7230 * second)) 60 d2;
       (w, r4, d4) = worker_turn own_pool (sendit_work_options (scheduler_new 60))
         (on_send_it (boss_sender running_core) (\<lambda>k. fst (node_at (7231 * second) (5 + k)))) SEND_IT_QUEUE
         (quiet_turn (fst (node_at (7231 * second) 9))) worker_new d3
   in ok r1 \<and> r2 = Inr () \<and> r3 = Inr () \<and>
      map (\<lambda>j. (j_name j, j_state j)) (jobs d4) = [(SEND_IT_QUEUE, COMPLETED), (''mail'', CREATED)] \<and>
      map j_data (filter (\<lambda>j. j_name j = ''mail'') (jobs d4)) = [Some (JObj [(''to'', JStr ''ada'')])]"
  by code_simp

lemma filter_unique:
  "distinct (map f xs) \<Longrightarrow> x \<in> set xs \<Longrightarrow> filter (\<lambda>y. f y = f x) xs = [x]"
proof (induction xs)
  case (Cons y ys)
  then show ?case by (cases "y = x") (auto simp: filter_empty_conv image_iff)
qed simp

definition schedule_fields :: "schedule_row \<Rightarrow> string \<times> string option \<times> json option" where
  "schedule_fields r = (sch_cron r, sch_timezone r, sch_data r)"

lemma upsert_schedule_effect:
  assumes "schedules_ok d" "upsert_schedule s name key cron tz data opts d = Inr d'"
  shows "map schedule_fields (filter (same_schedule name key) (schedules d')) = [(cron, tz, data)]"
    "filter (\<lambda>r. \<not> same_schedule name key r) (schedules d') = filter (\<lambda>r. \<not> same_schedule name key r) (schedules d)"
proof -
  let ?u = "\<lambda>r. r\<lparr>sch_cron := cron, sch_timezone := tz, sch_data := data, sch_options := opts,
    sch_updated_on := pg_now s\<rparr>"
  let ?f = "\<lambda>r. if same_schedule name key r then ?u r else r"
  have same: "same_schedule name key (?f r) = same_schedule name key r" for r
    by (simp add: same_schedule_def)
  have "map schedule_fields (filter (same_schedule name key) (schedules d')) = [(cron, tz, data)] \<and>
    filter (\<lambda>r. \<not> same_schedule name key r) (schedules d') = filter (\<lambda>r. \<not> same_schedule name key r) (schedules d)"
  proof (cases "list_ex (same_schedule name key) (schedules d)")
    case True
    then obtain r where r: "r \<in> set (schedules d)" "sch_name r = name" "sch_key r = key"
      by (auto simp: list_ex_iff same_schedule_def)
    have "filter (\<lambda>x. (sch_name x, sch_key x) = (sch_name r, sch_key r)) (schedules d) = [r]"
      by (rule filter_unique) (use assms(1) r(1) in \<open>simp_all add: schedules_ok_def\<close>)
    then have one: "filter (same_schedule name key) (schedules d) = [r]"
      using r by (simp add: same_schedule_def [abs_def])
    have d': "schedules d' = map ?f (schedules d)"
      using True assms(2) by (auto simp: upsert_schedule_def)
    have "filter (same_schedule name key) (schedules d') = map ?f (filter (same_schedule name key) (schedules d))"
      unfolding d' filter_map comp_def same ..
    moreover have "filter (\<lambda>r. \<not> same_schedule name key r) (schedules d') =
        map ?f (filter (\<lambda>r. \<not> same_schedule name key r) (schedules d))"
      unfolding d' filter_map comp_def same ..
    moreover have "map ?f (filter (\<lambda>r. \<not> same_schedule name key r) (schedules d)) =
        filter (\<lambda>r. \<not> same_schedule name key r) (schedules d)"
      by (rule map_idI) simp
    ultimately show ?thesis using one r by (simp add: schedule_fields_def same_schedule_def)
  next
    case False
    then have "filter (same_schedule name key) (schedules d) = []"
      by (auto simp: list_ex_iff filter_empty_conv)
    with False assms(2) show ?thesis
      by (auto simp: upsert_schedule_def same_schedule_def schedule_fields_def split: if_splits)
  qed
  then show "map schedule_fields (filter (same_schedule name key) (schedules d')) = [(cron, tz, data)]"
    "filter (\<lambda>r. \<not> same_schedule name key r) (schedules d') = filter (\<lambda>r. \<not> same_schedule name key r) (schedules d)"
    by auto
qed

text \<open>C37. A schedule needs its queue: on an open pool with the codecs and correct tables, \<^verbatim>\<open>upsert\<close> with an invalid
  expression raises \<^verbatim>\<open>ValueError\<close> and, with a valid one for a queue that does not exist,
  \<^verbatim>\<open>QueueNotFoundError\<close>, and stores nothing. Otherwise it succeeds: exactly one schedule has that
  name and key, with the new expression, zone and data, and all others are as before.\<close>
theorem schedule_upsert_outcome:
  assumes "db_pool b \<noteq> None" "has_codecs b" "db_ok d"
  shows "\<exists>d'. scheduler_upsert lib b s name key cron tz data d =
      (if \<not> cl_is_valid lib cron then (Inl (ValueError cron), d)
       else if \<not> queue_exists name d then (Inl (QueueNotFoundError name), d)
       else (Inr (), d')) \<and>
    (cl_is_valid lib cron \<and> queue_exists name d \<longrightarrow>
      map schedule_fields (filter (same_schedule name key) (schedules d')) = [(cron, tz, map_option JObj data)] \<and>
      filter (\<lambda>r. \<not> same_schedule name key r) (schedules d') =
        filter (\<lambda>r. \<not> same_schedule name key r) (schedules d))"
proof -
  let ?up = "upsert_schedule s name key cron tz (map_option JObj data) (Some (JObj [])) d"
  have ok: "schedules_ok d" using assms(3) by (simp add: db_ok_def)
  show ?thesis
  proof (cases "cl_is_valid lib cron \<and> queue_exists name d")
    case True
    then obtain d' where up: "?up = Inr d'"
      by (cases ?up) (auto simp: upsert_schedule_def split: if_splits)
    then have "scheduler_upsert lib b s name key cron tz data d = (Inr (), d')"
      using True assms(1,2) by (simp add: scheduler_upsert_def validate_cron_def execute_def no_rows_def)
    with True upsert_schedule_effect [OF ok up] show ?thesis by auto
  next
    case False
    have "?up = Inl ForeignKeyViolation" if "\<not> queue_exists name d"
      using ok that by (auto simp: upsert_schedule_def schedules_ok_def list_ex_iff same_schedule_def)
    with False assms(1,2) show ?thesis
      by (auto simp: scheduler_upsert_def validate_cron_def execute_def no_rows_def)
  qed
qed

theorem schedule_upsert_outcome_witness:
  "fst (scheduler_upsert sample_lib (ub_db running_core) sample_pg ''nowhere'' [] ''0 * * * *'' None None
     (cron_sample [])) = Inl (QueueNotFoundError ''nowhere'')"
proof -
  have "db_pool (ub_db running_core) \<noteq> None" "has_codecs (ub_db running_core)" "db_ok (cron_sample [])" "\<not> queue_exists ''nowhere'' (cron_sample [])"
    "cl_is_valid sample_lib ''0 * * * *''" by code_simp+
  then show ?thesis using schedule_upsert_outcome [of "ub_db running_core" "cron_sample []" sample_lib sample_pg
      "''nowhere''" "[]" "''0 * * * *''" None None] by auto
qed

section \<open>Pools without the codecs\<close>

lemma envelope_text_lost:
  "\<not> has_codecs b \<Longrightarrow> send_all send env k (jobs_of b options t rows) d = d"
  by (induction rows arbitrary: k)
    (auto simp: jobs_of_def job_of_row_def received_row_def received_def open_envelope_def envelope_get_def
      split: option.split)

text \<open>A caller's pool needs the JSON codecs, which nothing installs: on a pool without them, \<open>schedule\<close>
  with a valid expression raises \<^verbatim>\<open>DataError\<close> and stores nothing, even without data; \<open>fetch\<close> and
  \<open>get_job\<close> of a running object hand over the data of a job as the server's JSON text; and the
  send-it handler, given such jobs, sends none of them.\<close>
theorem codecs_required:
  assumes "db_pool (ub_db b) = Some (Supplied False)" "ub_started b" "cl_is_valid lib cron"
    "fetch_next_job s name n gc d = Inr (d', rows)"
  shows "scheduler_upsert lib (ub_db b) s queue key cron tz data d = (Inl DataError, d) \<and>
    (\<exists>js. boss_fetch b s name n m gc d = (Inr js, d') \<and>
      map job_data js = map (\<lambda>r. map_option (\<lambda>x. JStr (pg_jsonb_out s x)) (j_data r)) rows) \<and>
    on_send_it send env (jobs_of (ub_db b) options t rows) d = (Returned JNull, d)"
proof (intro conjI)
  have codecs: "\<not> has_codecs (ub_db b)" using assms(1) by (simp add: has_codecs_def)
  then show "scheduler_upsert lib (ub_db b) s queue key cron tz data d = (Inl DataError, d)"
    using assms(3) by (cases data) (simp_all add: scheduler_upsert_def validate_cron_def bind_jsonb_def)
  show "on_send_it send env (jobs_of (ub_db b) options t rows) d = (Returned JNull, d)"
    by (simp add: on_send_it_def envelope_text_lost [OF codecs])
  have "running b" using assms(1,2) by (simp add: running_def)
  note fetch = boss_fetch_rows [OF this assms(4), of m]
  show "\<exists>js. boss_fetch b s name n m gc d = (Inr js, d') \<and>
      map job_data js = map (\<lambda>r. map_option (\<lambda>x. JStr (pg_jsonb_out s x)) (j_data r)) rows"
    by (intro exI conjI, rule fetch) (simp add: codecs job_of_row_def received_row_def received_def)
qed

definition plain_core :: core where
  "plain_core = \<lparr>ub_started = True, ub_db = own_pool\<lparr>db_pool := Some (Supplied False), db_owns_pool := False\<rparr>\<rparr>"

theorem codecs_required_witness:
  "\<exists>js d'. boss_fetch plain_core sample_pg ''q'' 1 False None worker_sample = (Inr js, d') \<and> length js = 1 \<and>
     fst (scheduler_upsert sample_lib (ub_db plain_core) sample_pg ''q'' [] ''0 * * * *'' None None worker_sample) = Inl DataError"
proof -
  have "case fetch_next_job sample_pg ''q'' 1 None worker_sample of Inl e \<Rightarrow> False | Inr (d', rows) \<Rightarrow> length rows = 1"
    by code_simp
  then obtain d' rows where f: "fetch_next_job sample_pg ''q'' 1 None worker_sample = Inr (d', rows)" "length rows = 1"
    by (auto split: sum.splits)
  have "db_pool (ub_db plain_core) = Some (Supplied False)" "ub_started plain_core" "cl_is_valid sample_lib ''0 * * * *''"
    by (simp_all add: plain_core_def) code_simp
  from codecs_required [OF this f(1)] obtain js where
    "boss_fetch plain_core sample_pg ''q'' 1 False None worker_sample = (Inr js, d')"
    "length (map job_data js) = 1"
    "scheduler_upsert sample_lib (ub_db plain_core) sample_pg ''q'' [] ''0 * * * *'' None None worker_sample =
      (Inl DataError, worker_sample)"
    using f(2) by (metis length_map)
  then show ?thesis by auto
qed

end
