(* ===== verification/Maintenance.thy ===== *)
theory Maintenance
  imports Failure Fetch_Sql
begin

text \<open>
  \<^verbatim>\<open>underboss/maintenance.py\<close>: the two sweeps and the loop that runs them. A sweep is two
  transactions, each with its own clock; an exception of the first leaves the second undone. The
  loop is unrolled over the list of its turns, each with the servers of the two transactions and
  whether \<^verbatim>\<open>stop()\<close> was called by the time its pause ends.
\<close>

record maintenance =
  mt_running :: bool
  mt_stopping :: bool

definition maintenance_init :: maintenance where
  "maintenance_init = \<lparr>mt_running = False, mt_stopping = False\<rparr>"

definition maintenance_start :: "maintenance \<Rightarrow> maintenance" where
  "maintenance_start m = m\<lparr>mt_running := True\<rparr>"

definition maintenance_stop :: "maintenance \<Rightarrow> maintenance" where
  "maintenance_stop m = m\<lparr>mt_stopping := True, mt_running := False\<rparr>"

definition sweep :: "pg \<Rightarrow> pg \<Rightarrow> db \<Rightarrow> (db_error + unit) \<times> db" where
  "sweep s1 s2 d =
     (case fail_expired s1 d of
        (Inl e, d1) \<Rightarrow> (Inl e, d1)
      | (Inr _, d1) \<Rightarrow> (Inr (), delete_old_jobs s2 d1))"

text \<open>\<^verbatim>\<open>_run\<close>: an exception of a sweep is logged and dropped.\<close>

fun maintenance_run :: "bool \<Rightarrow> (pg \<times> pg \<times> bool) list \<Rightarrow> db \<Rightarrow> db" where
  "maintenance_run stopping [] d = d"
| "maintenance_run stopping ((s1, s2, stop) # turns) d =
     (if stopping then d else maintenance_run stop turns (snd (sweep s1 s2 d)))"

section \<open>What a sweep leaves\<close>

lemma sweep_db_ok: "db_ok d \<Longrightarrow> db_ok (snd (sweep s1 s2 d))"
  using fail_expired_db_ok [of d s1]
  by (auto simp: sweep_def delete_old_jobs_def delete_rows_db_ok split: prod.splits sum.splits)

lemma maintenance_run_db_ok: "db_ok d \<Longrightarrow> db_ok (maintenance_run stopping turns d)"
  by (induction stopping turns d rule: maintenance_run.induct) (auto simp: sweep_db_ok)

lemma route_keeps_rows:
  "route s k rows d = Inr d' \<Longrightarrow>
   \<exists>new. jobs d' = jobs d @ new \<and> (\<forall>j\<in>set new. j_state j = CREATED)"
proof (induction s k rows d arbitrary: d' rule: route.induct)
  case (2 s k r rs d)
  show ?case
  proof (cases "routed r")
    case False
    with 2 show ?thesis by (auto simp: routed_def split: option.splits if_splits)
  next
    case True
    then obtain dlq where dlq: "j_dead_letter r = Some dlq" "j_state r = FAILED"
      by (auto simp: routed_def)
    with "2.prems" obtain d1 where d1: "route_to_dead_letter s k dlq (j_data r) (j_output r) d = Inr d1"
      "route s (Suc k) rs d1 = Inr d'" by auto
    from "2.IH"(2) [OF dlq d1] obtain new where new: "jobs d' = jobs d1 @ new"
      "\<forall>j\<in>set new. j_state j = CREATED" by blast
    from d1(1) have "jobs d1 = jobs d \<or> (\<exists>q. jobs d1 = jobs d @ [dead_letter_row s k q (j_data r) (j_output r)])"
      by (auto simp: route_to_dead_letter_def Let_def split: option.splits if_splits)
    with new show ?thesis by auto
  qed
qed simp

lemma expired_only_active: "expired_where s j \<Longrightarrow> j_state j = ACTIVE"
  by (simp add: expired_where_def)

lemma failed_not_expired: "\<not> expired_where s (retry_or_fail_set s' out j)"
  by (simp add: expired_where_def retry_or_fail_set_def)

lemma expired_cong: "pg_now s' = pg_now s \<Longrightarrow> expired_where s' j = expired_where s j"
  by (simp add: expired_where_def split: option.splits)

lemma past_retention_cong: "pg_now s' = pg_now s \<Longrightarrow> past_retention s' j = past_retention s j"
  by (simp add: past_retention_def split: option.splits)

lemma sweep_clean:
  assumes "sweep s1 s2 d = (Inr (), d')" "j \<in> set (jobs d')"
  shows "\<not> expired_where s1 j" "\<not> past_retention s2 j"
proof -
  from assms(1) obtain d1 where f: "fail_expired s1 d = (Inr (), d1)" and d': "d' = delete_old_jobs s2 d1"
    by (auto simp: sweep_def split: prod.splits sum.splits)
  from d' assms(2) show "\<not> past_retention s2 j" by (simp add: delete_old_jobs_def delete_rows_def)
  from d' assms(2) have j1: "j \<in> set (jobs d1)" by (simp add: delete_old_jobs_def delete_rows_def)
  from f obtain d0 rows where upd: "fail_expired_jobs s1 d = Inr (d0, rows)" "route s1 0 rows d0 = Inr d1"
    by (auto simp: fail_expired_def transaction_def fail_expired_body_def split: sum.splits)
  from route_keeps_rows [OF upd(2)] j1 have "j \<in> set (jobs d0) \<or> j_state j = CREATED" by auto
  then show "\<not> expired_where s1 j"
  proof
    assume "j \<in> set (jobs d0)"
    from list_all2_in_right [OF update_jobs_rows [OF upd(1) [unfolded fail_expired_jobs_def]] this]
    obtain j0 where "updated (expired_where s1) (\<lambda>j. Inr (retry_or_fail_set s1 (Some timed_out) j)) j0 j"
      by blast
    then have "j = j0 \<and> \<not> expired_where s1 j0 \<or> j = retry_or_fail_set s1 (Some timed_out) j0"
      by (auto simp: updated_def split: if_splits)
    then show ?thesis using failed_not_expired by blast
  qed (simp add: expired_where_def)
qed

text \<open>C25. A sweep that succeeds on a correct table finishes the job: no active job whose lease has
  lapsed and no job past its retention is left, and a second sweep at the same instant
  succeeds and changes nothing.\<close>
theorem sweep_idempotent:
  assumes "db_ok d" "sweep s s d = (Inr (), d')" "pg_now s' = pg_now s"
  shows "(\<forall>j\<in>set (jobs d'). \<not> expired_where s j \<and> \<not> past_retention s j) \<and> sweep s' s' d' = (Inr (), d')"
proof -
  note clean = sweep_clean [OF assms(2)]
  have ok: "db_ok d'" using sweep_db_ok [OF assms(1), of s s] assms(2) by simp
  have "fail_expired_jobs s' d' = Inr (d', [])"
    unfolding fail_expired_jobs_def
    by (rule update_jobs_none)
       (use ok clean(1) in \<open>auto simp: db_ok_def jobs_ok_def expired_cong [OF assms(3)]\<close>)
  then have "fail_expired s' d' = (Inr (), d')"
    by (simp add: fail_expired_def transaction_def fail_expired_body_def)
  moreover have "filter (\<lambda>j. \<not> past_retention s' j) (jobs d') = jobs d'"
    using clean(2) by (auto simp: filter_id_conv past_retention_cong [OF assms(3)])
  ultimately have "sweep s' s' d' = (Inr (), d')"
    by (simp add: sweep_def delete_old_jobs_def delete_rows_def)
  with clean show ?thesis by blast
qed

definition sweep_sample :: db where
  "sweep_sample = sample_db [sample_queue ''q'' ''standard'']
     [(sample_job ''q'' ''standard'' 1 ACTIVE)\<lparr>j_expire_seconds := 1\<rparr>,
      (sample_job ''q'' ''standard'' 2 COMPLETED)\<lparr>j_completed_on := Some 0, j_deletion_seconds := 1\<rparr>]"

theorem sweep_idempotent_witness:
  "\<exists>d'. sweep sample_pg sample_pg sweep_sample = (Inr (), d') \<and>
     map j_state (jobs d') = [RETRY] \<and> sweep sample_pg sample_pg d' = (Inr (), d')"
proof -
  have "db_ok sweep_sample" by code_simp
  have "case sweep sample_pg sample_pg sweep_sample of (r, d') \<Rightarrow> ok r \<and> map j_state (jobs d') = [RETRY]"
    by code_simp
  then obtain r d' where "ok r" "sweep sample_pg sample_pg sweep_sample = (r, d')"
    "map j_state (jobs d') = [RETRY]" by (auto split: prod.splits)
  moreover from \<open>ok r\<close> have "r = Inr ()" by (cases r) auto
  ultimately show ?thesis using sweep_idempotent [OF \<open>db_ok sweep_sample\<close> _ refl] by auto
qed

section \<open>Two ways the sweeps go wrong\<close>

text \<open>C26. One stately queue can stop maintenance for all: a job waiting for its retry and an active job
  of the same stately key with retries left, once the latter's lease lapses, make every sweep
  end in a unique violation. The table stays as it is: no expired job of any queue is recovered
  and no old job is deleted.\<close>
theorem stately_stops_sweeps:
  assumes "db_ok d" "a \<in> set (jobs d)" "b \<in> set (jobs d)"
    "j_state a = RETRY" "expired_where s1 b" "j_retry_count b < j_retry_limit b"
    "j_name a = j_name b" "j_policy a = Some ''stately''" "j_policy b = Some ''stately''"
    "coalesce (j_singleton_key a) [] = coalesce (j_singleton_key b) []"
  shows "\<exists>i. sweep s1 s2 d = (Inl (UniqueViolation i), d)"
proof -
  let ?g = "retry_or_fail_set s1 (Some timed_out)"
  let ?rows = "set_where (expired_where s1) ?g (jobs d)"
  have b: "j_state b = ACTIVE" using assms(5) by (simp add: expired_where_def)
  have "a \<in> set ?rows" using assms(2,4) by (force simp: set_where_def expired_where_def)
  moreover have "?g b \<in> set ?rows" using assms(3,5) by (force simp: set_where_def)
  moreover have "index_key Job_i3 a = index_key Job_i3 (?g b)" "index_key Job_i3 a \<noteq> None"
    using assms(4,6-10) same_frame [OF set_clause_frame(2), of s1 "Some timed_out" b]
    by (simp_all add: index_defs)
  moreover have "a \<noteq> ?g b"
  proof
    assume "a = ?g b"
    then have "job_pk a = job_pk b" using job_pk_frame [OF set_clause_frame(2)] by metis
    moreover have "distinct (map job_pk (jobs d))" using assms(1) by (simp add: db_ok_def jobs_ok_def)
    ultimately have "a = b" using pk_inj assms(2,3) by blast
    with b assms(4) show False by simp
  qed
  ultimately have "\<not> unique_index Job_i3 ?rows" by (metis option.exhaust unique_index_inj)
  then have "find (\<lambda>i. \<not> unique_index i ?rows) all_indexes \<noteq> None" by (auto simp: find_None_iff)
  then obtain i where "check_unique ?rows = Inl (UniqueViolation i)" by (auto simp: check_unique_def)
  then have "fail_expired_jobs s1 d = Inl (UniqueViolation i)"
    by (simp add: fail_expired_jobs_def update_jobs_total Let_def)
  then show ?thesis
    by (auto simp: sweep_def fail_expired_def transaction_def fail_expired_body_def)
qed

definition stately_sample :: db where
  "stately_sample = sample_db [sample_queue ''q'' ''stately'']
     [(sample_job ''q'' ''stately'' 1 RETRY)\<lparr>j_start_after := 5000000000\<rparr>,
      (sample_job ''q'' ''stately'' 2 ACTIVE)\<lparr>j_expire_seconds := 1\<rparr>]"

theorem stately_stops_sweeps_witness:
  "\<exists>i. sweep sample_pg sample_pg stately_sample = (Inl (UniqueViolation i), stately_sample)"
proof -
  let ?a = "(sample_job ''q'' ''stately'' 1 RETRY)\<lparr>j_start_after := 5000000000\<rparr>"
  let ?b = "(sample_job ''q'' ''stately'' 2 ACTIVE)\<lparr>j_expire_seconds := 1\<rparr>"
  have "db_ok stately_sample" by code_simp
  moreover have "?a \<in> set (jobs stately_sample)" "?b \<in> set (jobs stately_sample)" by code_simp+
  moreover have "j_state ?a = RETRY" "expired_where sample_pg ?b" by code_simp+
  ultimately show ?thesis
    by (rule stately_stops_sweeps) (simp_all add: sample_job_def job_defaults_def)
qed

text \<open>C28. The retention sweep can delete a job that is running: a failed job that an operator re-queues
  keeps the completion time of its failure through \<open>retry_jobs\<close> and \<open>fetch_next_job\<close>, so once
  \<^verbatim>\<open>deletion_seconds\<close> have passed since then the sweep removes it although it is active.\<close>
theorem retried_job_deleted_while_active:
  assumes "db_ok d0" "retry_jobs s0 name ids d0 = Inr (d1, r1)"
    "fetch_next_job s1 name n gc d1 = Inr (d2, rows)" "r \<in> set rows"
    "j \<in> set (jobs d0)" "job_pk j = job_pk r" "j_completed_on j = Some t"
    "0 < j_deletion_seconds j" "t + j_deletion_seconds j * second < pg_now s2"
  shows "r \<in> set (jobs d2) \<and> j_state r = ACTIVE \<and> r \<notin> set (jobs (delete_old_jobs s2 d2))"
proof -
  from assms(2) obtain us where upd: "update_jobs (retry_where name us) retry_set d0 = Inr (d1, r1)"
    by (auto simp: retry_jobs_def)
  have ok1: "db_ok d1" using requeue.keeps_db_ok [OF assms(1) upd] .
  from assms(3) obtain vs where claim: "claim_jobs s1 name vs d1 = Inr (d2, rows)"
    by (auto simp: fetch_next_job_def fetch_next_job_at_plan)
  from returned_rows [OF claim assms(4)] obtain i where r: "r \<in> set (jobs d2)"
    and i: "i \<in> set (jobs d1)" "claimed_to s1 i r" by blast
  from list_all2_in_left [OF update_jobs_rows [OF upd] assms(5)] obtain j1
    where j1: "j1 \<in> set (jobs d1)" "updated (retry_where name us) retry_set j j1" by blast
  from j1(2) have f1: "frame_of j1 = frame_of j" and c1: "j_completed_on j1 = j_completed_on j"
    by (auto simp: updated_def retry_set_Inr frame_of_def split: if_splits)
  have "job_pk i = job_pk j1"
    using i(2) f1 assms(6) job_pk_frame unfolding claimed_to_def by metis
  moreover have "distinct (map job_pk (jobs d1))" using ok1 by (simp add: db_ok_def jobs_ok_def)
  ultimately have "i = j1" using pk_inj i(1) j1(1) by blast
  then have "j_completed_on r = Some t" "j_deletion_seconds r = j_deletion_seconds j"
    using i(2) c1 f1 assms(7) same_frame(11) unfolding claimed_to_def by metis+
  with assms(8,9) have "past_retention s2 r" by (simp add: past_retention_def)
  with r i(2) show ?thesis
    by (simp add: delete_old_jobs_def delete_rows_def claimed_to_def)
qed

definition retried_sample :: db where
  "retried_sample = sample_db [sample_queue ''q'' ''standard'']
     [(sample_job ''q'' ''standard'' 1 FAILED)\<lparr>j_completed_on := Some 0, j_deletion_seconds := 60\<rparr>]"

theorem retried_job_deleted_while_active_witness:
  "\<exists>d1 r1 d2 r. retry_jobs sample_pg ''q'' [''1''] retried_sample = Inr (d1, r1) \<and>
     fetch_next_job sample_pg ''q'' 1 None d1 = Inr (d2, [r]) \<and>
     r \<in> set (jobs d2) \<and> j_state r = ACTIVE \<and> r \<notin> set (jobs (delete_old_jobs sample_pg d2))"
proof -
  let ?j = "(sample_job ''q'' ''standard'' 1 FAILED)\<lparr>j_completed_on := Some 0, j_deletion_seconds := 60\<rparr>"
  have ok: "db_ok retried_sample" "?j \<in> set (jobs retried_sample)" by code_simp+
  have "case retry_jobs sample_pg ''q'' [''1''] retried_sample of Inl e \<Rightarrow> False
    | Inr (d1, r1) \<Rightarrow> (case fetch_next_job sample_pg ''q'' 1 None d1 of Inl e \<Rightarrow> False
       | Inr (d2, rows) \<Rightarrow> map job_pk rows = [(''q'', 1)])" by code_simp
  then obtain d1 r1 d2 rows where steps: "retry_jobs sample_pg ''q'' [''1''] retried_sample = Inr (d1, r1)"
    "fetch_next_job sample_pg ''q'' 1 None d1 = Inr (d2, rows)" and pk: "map job_pk rows = [(''q'', 1)]"
    by (auto split: sum.splits)
  from pk obtain r where r: "rows = [r]" "job_pk r = (''q'', 1)" by (cases rows) auto
  have "job_pk ?j = job_pk r" using r(2) by (simp add: job_pk_def sample_job_def job_defaults_def)
  from retried_job_deleted_while_active [OF ok(1) steps _ ok(2) this, of 0 sample_pg]
  have "r \<in> set (jobs d2) \<and> j_state r = ACTIVE \<and> r \<notin> set (jobs (delete_old_jobs sample_pg d2))"
    using r(1) by (simp add: second_def sample_pg_def)
  with steps r(1) show ?thesis by blast
qed

end
