(* ===== verification/Provision.thy ===== *)
theory Provision
  imports Schema_Ddl
begin

text \<open>
  Installing the schema: \<^verbatim>\<open>run_script\<close> of \<^verbatim>\<open>underboss/db.py\<close> and \<^verbatim>\<open>_provision\<close> of
  \<^verbatim>\<open>underboss/underboss.py\<close> run the statements of \<open>build_schema\<close> against a catalog, which holds the
  statements whose objects exist and the rows of \<^verbatim>\<open>version\<close>. A statement is checked against the
  catalog as the server does: a table's types and the keys it references, the columns of an index,
  the tables and columns of a function's body must exist. On PostgreSQL a script that fails is
  rolled back; on CockroachDB, whose DDL is not transactional, the statements before the failure
  stay.
\<close>

section \<open>Names a statement resolves\<close>

definition lookup_object :: "string \<Rightarrow> ddl list \<Rightarrow> ddl option" where
  "lookup_object n objs = find (\<lambda>o'. object_name o' = Some n) objs"

definition type_exists :: "ddl list \<Rightarrow> sql_type \<Rightarrow> bool" where
  "type_exists objs t =
     (case t of
        Enum_t n \<Rightarrow> (case lookup_object n objs of Some (CREATE_TYPE m vs) \<Rightarrow> True | _ \<Rightarrow> False)
      | _ \<Rightarrow> True)"

definition columns_exist :: "ddl list \<Rightarrow> string \<Rightarrow> string list \<Rightarrow> bool" where
  "columns_exist objs t cs =
     (case lookup_object t objs of
        Some (CREATE_TABLE n cols cons) \<Rightarrow> set cs \<subseteq> set (map col_name cols)
      | _ \<Rightarrow> False)"

text \<open>A foreign key must point at the primary key of its table.\<close>

definition references_key :: "ddl list \<Rightarrow> string \<Rightarrow> string list \<Rightarrow> nat \<Rightarrow> bool" where
  "references_key objs t ts n =
     (case lookup_object t objs of
        Some (CREATE_TABLE m cols cons) \<Rightarrow>
          length (key_columns cons) = n \<and> (ts = [] \<or> set ts = set (key_columns cons))
      | _ \<Rightarrow> False)"

fun constraint_resolves :: "ddl list \<Rightarrow> string \<Rightarrow> table_constraint \<Rightarrow> bool" where
  "constraint_resolves objs n (PRIMARY_KEY ks) = columns_exist objs n ks"
| "constraint_resolves objs n (FOREIGN_KEY ks t ts od) =
     (columns_exist objs n ks \<and> references_key objs t ts (length ks))"
| "constraint_resolves objs n (CHECK e) = columns_exist objs n (columns_of e)"

fun body_resolves :: "ddl list \<Rightarrow> fn_stmt \<Rightarrow> bool" where
  "body_resolves objs (INSERT_INTO t cs) = columns_exist objs t cs"
| "body_resolves objs (DELETE_FROM t cs) = columns_exist objs t cs"
| "body_resolves objs SELECT_EXPRESSION = True"

text \<open>The constraints of a new table may name the table itself.\<close>

fun resolves :: "ddl list \<Rightarrow> ddl \<Rightarrow> bool" where
  "resolves objs (CREATE_TABLE n cols cons) =
     (list_all (\<lambda>c. type_exists objs (col_type c)) cols \<and>
      list_all (constraint_resolves (CREATE_TABLE n cols cons # objs) n) cons)"
| "resolves objs (CREATE_FUNCTION n args body) = list_all (body_resolves objs) body"
| "resolves objs (CREATE_INDEX u n t parts incl pred) =
     columns_exist objs t (concat (map (\<lambda>p. columns_of (part_expr p)) parts) @ incl @
       (case pred of None \<Rightarrow> [] | Some e \<Rightarrow> columns_of e))"
| "resolves objs _ = True"

text \<open>The opening words of a statement, up to the name of its object.\<close>

fun statement_head :: "string \<Rightarrow> ddl \<Rightarrow> string" where
  "statement_head schema CREATE_SCHEMA = ''CREATE SCHEMA IF NOT EXISTS '' @ schema"
| "statement_head schema (CREATE_TYPE n vs) = ''CREATE TYPE '' @ schema @ ''.'' @ n @ '' AS ENUM ''"
| "statement_head schema (CREATE_TABLE n cols cons) = ''CREATE TABLE IF NOT EXISTS '' @ schema @ ''.'' @ n"
| "statement_head schema (CREATE_FUNCTION n args body) = ''CREATE OR REPLACE FUNCTION '' @ schema @ ''.'' @ n"
| "statement_head schema (CREATE_INDEX uniq n t parts incl pred) =
     (if uniq then ''CREATE UNIQUE INDEX IF NOT EXISTS '' else ''CREATE INDEX IF NOT EXISTS '') @ n"
| "statement_head schema (INSERT_VERSION v) = ''INSERT INTO '' @ schema @ ''.version(version)''"

definition startswith :: "string \<Rightarrow> string \<Rightarrow> bool" where
  "startswith t p \<longleftrightarrow> take (length p) t = p"

section \<open>Running them\<close>

record catalog =
  cat_schema :: bool
  cat_objects :: "ddl list"
  cat_versions :: "int list"

definition has_object :: "string \<Rightarrow> catalog \<Rightarrow> bool" where
  "has_object n c \<longleftrightarrow> lookup_object n (cat_objects c) \<noteq> None"

definition create_object :: "ddl \<Rightarrow> catalog \<Rightarrow> db_error + catalog" where
  "create_object o' c =
     (if \<not> cat_schema c \<or> \<not> resolves (cat_objects c) o' then Inl UndefinedObject
      else Inr (c\<lparr>cat_objects := cat_objects c @ [o']\<rparr>))"

definition replace_object :: "string \<Rightarrow> ddl \<Rightarrow> catalog \<Rightarrow> db_error + catalog" where
  "replace_object n o' c =
     (if \<not> resolves (cat_objects c) o' then Inl UndefinedObject
      else Inr (c\<lparr>cat_objects := map (\<lambda>x. if object_name x = Some n then o' else x) (cat_objects c)\<rparr>))"

text \<open>
  \<^verbatim>\<open>IF NOT EXISTS\<close> skips an object that is there, \<^verbatim>\<open>OR REPLACE\<close> replaces it, \<^verbatim>\<open>CREATE TYPE\<close> has
  neither; the version row has \<^verbatim>\<open>ON CONFLICT DO NOTHING\<close>.
\<close>

fun exec_ddl :: "ddl \<Rightarrow> catalog \<Rightarrow> db_error + catalog" where
  "exec_ddl CREATE_SCHEMA c = Inr (c\<lparr>cat_schema := True\<rparr>)"
| "exec_ddl (CREATE_TYPE n vs) c =
     (if has_object n c then Inl DuplicateObject else create_object (CREATE_TYPE n vs) c)"
| "exec_ddl (CREATE_TABLE n cols cons) c =
     (if has_object n c then Inr c else create_object (CREATE_TABLE n cols cons) c)"
| "exec_ddl (CREATE_FUNCTION n args body) c =
     (if has_object n c then replace_object n (CREATE_FUNCTION n args body) c
      else create_object (CREATE_FUNCTION n args body) c)"
| "exec_ddl (CREATE_INDEX u n t parts incl pred) c =
     (if has_object n c then Inr c else create_object (CREATE_INDEX u n t parts incl pred) c)"
| "exec_ddl (INSERT_VERSION v) c =
     (if \<not> has_object ''version'' c then Inl UndefinedObject
      else if v \<in> set (cat_versions c) then Inr c
      else Inr (c\<lparr>cat_versions := cat_versions c @ [v]\<rparr>))"

text \<open>\<^verbatim>\<open>UPDATE version SET version = v\<close>, which nothing calls: two rows cannot both take the value.\<close>

definition set_version :: "int \<Rightarrow> catalog \<Rightarrow> db_error + catalog" where
  "set_version v c =
     (if \<not> has_object ''version'' c then Inl UndefinedObject
      else if 1 < length (cat_versions c) then Inl PrimaryKeyViolation
      else Inr (c\<lparr>cat_versions := map (\<lambda>_. v) (cat_versions c)\<rparr>))"

fun run_statements :: "ddl list \<Rightarrow> catalog \<Rightarrow> (db_error + unit) \<times> catalog" where
  "run_statements [] c = (Inr (), c)"
| "run_statements (s # ss) c =
     (case exec_ddl s c of Inl e \<Rightarrow> (Inl e, c) | Inr c' \<Rightarrow> run_statements ss c')"

definition run_script :: "bool \<Rightarrow> ddl list \<Rightarrow> catalog \<Rightarrow> (db_error + unit) \<times> catalog" where
  "run_script transactional statements c =
     (case run_statements statements c of
        (Inl e, c') \<Rightarrow> (Inl e, if transactional then c else c')
      | (Inr u, c') \<Rightarrow> (Inr u, c'))"

section \<open>Provisioning\<close>

definition version_table_exists :: "catalog \<Rightarrow> bool" where
  "version_table_exists c \<longleftrightarrow> cat_schema c \<and> has_object ''version'' c"

definition get_version :: "catalog \<Rightarrow> int option" where
  "get_version c = (case cat_versions c of [] \<Rightarrow> None | v # vs \<Rightarrow> Some v)"

definition provision :: "bool \<Rightarrow> string \<Rightarrow> catalog \<Rightarrow> (error + unit) \<times> catalog" where
  "provision transactional schema c =
     (if \<not> version_table_exists c then
        (case run_script transactional (build_schema SCHEMA_VERSION True) c of
           (Inr u, c') \<Rightarrow> (Inr (), c')
         | (Inl e, c') \<Rightarrow>
             if e = DuplicateObject then
               (case run_script transactional
                   (filter (\<lambda>s. \<not> startswith (statement_head schema s) (''CREATE TYPE '' @ schema @ ''.job_state''))
                     (build_schema SCHEMA_VERSION True)) c' of
                  (Inr u, c'') \<Rightarrow> (Inr (), c'')
                | (Inl e', c'') \<Rightarrow> (Inl (Db e'), c''))
             else (Inl (Db e), c'))
      else
        (case get_version c of
           None \<Rightarrow> (Inr (), c)
         | Some v \<Rightarrow>
             if v \<noteq> SCHEMA_VERSION then (Inl (MigrationRequiredError v), c) else (Inr (), c)))"

definition no_catalog :: catalog where
  "no_catalog = \<lparr>cat_schema = False, cat_objects = [], cat_versions = []\<rparr>"

text \<open>The catalog after the first \<open>k\<close> statements, and the finished install.\<close>

definition partial_install :: "nat \<Rightarrow> catalog" where
  "partial_install k = snd (run_statements (take k (build_schema SCHEMA_VERSION True)) no_catalog)"

definition full_install :: catalog where
  "full_install = partial_install 23"

section \<open>The retry skips exactly the enum\<close>

lemma startswith_append: "startswith (p @ t) p"
  by (simp add: startswith_def)

lemma startswith_take: "startswith t p \<Longrightarrow> n \<le> length p \<Longrightarrow> take n t = take n p"
  by (metis min.absorb1 startswith_def take_take)

lemma head_enum:
  "startswith (statement_head schema s) (''CREATE TYPE '' @ schema @ ''.job_state'') \<Longrightarrow>
   \<exists>n vs. s = CREATE_TYPE n vs"
  by (cases s) (auto dest!: startswith_take [where n = 12] split: if_splits)

lemma head_job_state:
  "startswith (statement_head schema (CREATE_TYPE ''job_state'' vs)) (''CREATE TYPE '' @ schema @ ''.job_state'')"
  by (simp add: startswith_def)

lemma build_schema_types: "CREATE_TYPE n vs \<in> set (build_schema v b) \<Longrightarrow> CREATE_TYPE n vs = create_enum_job_state"
  by (auto simp: build_schema_def ddl_defs split: if_splits)

lemma filtered_schema:
  "filter (\<lambda>s. \<not> startswith (statement_head schema s) (''CREATE TYPE '' @ schema @ ''.job_state''))
     (build_schema v b) =
   filter (\<lambda>s. s \<noteq> create_enum_job_state) (build_schema v b)"
proof (rule filter_cong)
  fix s assume s: "s \<in> set (build_schema v b)"
  have "startswith (statement_head schema s) (''CREATE TYPE '' @ schema @ ''.job_state'') \<longleftrightarrow> s = create_enum_job_state"
  proof
    assume "startswith (statement_head schema s) (''CREATE TYPE '' @ schema @ ''.job_state'')"
    from head_enum [OF this] obtain n vs where "s = CREATE_TYPE n vs" by blast
    with s build_schema_types show "s = create_enum_job_state" by blast
  qed (simp only: create_enum_job_state_def head_job_state)
  then show "(\<not> startswith (statement_head schema s) (''CREATE TYPE '' @ schema @ ''.job_state'')) =
      (s \<noteq> create_enum_job_state)" by simp
qed simp

text \<open>\<open>_provision\<close> with the retry's script written out, free of the schema's name.\<close>

definition retry_script :: "ddl list" where
  "retry_script = filter (\<lambda>s. s \<noteq> create_enum_job_state) (build_schema SCHEMA_VERSION True)"

lemma provision_eq:
  "provision transactional schema c =
     (if \<not> version_table_exists c then
        (case run_script transactional (build_schema SCHEMA_VERSION True) c of
           (Inr u, c') \<Rightarrow> (Inr (), c')
         | (Inl e, c') \<Rightarrow>
             if e = DuplicateObject then
               (case run_script transactional retry_script c' of
                  (Inr u, c'') \<Rightarrow> (Inr (), c'')
                | (Inl e', c'') \<Rightarrow> (Inl (Db e'), c''))
             else (Inl (Db e), c'))
      else
        (case get_version c of
           None \<Rightarrow> (Inr (), c)
         | Some v \<Rightarrow> if v \<noteq> SCHEMA_VERSION then (Inl (MigrationRequiredError v), c) else (Inr (), c)))"
  unfolding provision_def filtered_schema retry_script_def ..

definition completes :: "bool \<Rightarrow> catalog \<Rightarrow> bool" where
  "completes transactional c \<longleftrightarrow>
     \<not> version_table_exists c \<and>
     (case run_script transactional (build_schema SCHEMA_VERSION True) c of
        (Inr u, c') \<Rightarrow> c' = full_install
      | (Inl e, c') \<Rightarrow> e = DuplicateObject \<and> run_script transactional retry_script c' = (Inr (), full_install))"

lemma completes_provision: "completes transactional c \<Longrightarrow> provision transactional schema c = (Inr (), full_install)"
  by (auto simp: provision_eq completes_def split: prod.splits sum.splits)

section \<open>Running statements again\<close>

lemma lookup_append: "lookup_object n (xs @ ys) = (case lookup_object n xs of None \<Rightarrow> lookup_object n ys | Some x \<Rightarrow> Some x)"
  by (induction xs) (auto simp: lookup_object_def)

lemma lookup_single: "lookup_object n [x] = (if object_name x = Some n then Some x else None)"
  by (simp add: lookup_object_def)

lemma lookup_Some: "lookup_object n objs = Some x \<Longrightarrow> x \<in> set objs \<and> object_name x = Some n"
  by (auto simp: lookup_object_def find_Some_iff)

lemma run_append:
  "run_statements (xs @ ys) c =
     (case run_statements xs c of (Inl e, c') \<Rightarrow> (Inl e, c') | (Inr u, c') \<Rightarrow> run_statements ys c')"
  by (induction xs arbitrary: c) (auto split: sum.splits)

text \<open>What resolves keeps resolving when objects are added.\<close>

definition extends :: "ddl list \<Rightarrow> ddl list \<Rightarrow> bool" where
  "extends objs objs' \<longleftrightarrow> (\<forall>n x. lookup_object n objs = Some x \<longrightarrow> lookup_object n objs' = Some x)"

lemma extends_append: "extends objs (objs @ xs)"
  by (simp add: extends_def lookup_append)

lemma extends_Cons: "extends objs objs' \<Longrightarrow> extends (x # objs) (x # objs')"
  by (simp add: extends_def lookup_object_def)

lemma extends_trans: "extends a b \<Longrightarrow> extends b c \<Longrightarrow> extends a c"
  by (simp add: extends_def)

lemma columns_exist_mono: "extends objs objs' \<Longrightarrow> columns_exist objs t cs \<Longrightarrow> columns_exist objs' t cs"
  by (auto simp: columns_exist_def extends_def split: option.splits ddl.splits)

lemma body_resolves_mono: "extends objs objs' \<Longrightarrow> body_resolves objs b \<Longrightarrow> body_resolves objs' b"
  by (cases b) (auto intro: columns_exist_mono)

lemma body_resolves_append: "body_resolves objs b \<Longrightarrow> body_resolves (objs @ xs) b"
  by (rule body_resolves_mono [OF extends_append])

lemma function_resolves_mono:
  "extends objs objs' \<Longrightarrow> resolves objs (CREATE_FUNCTION n args body) \<Longrightarrow> resolves objs' (CREATE_FUNCTION n args body)"
  by (auto simp: list_all_iff intro: body_resolves_mono)

text \<open>
  \<open>installed_in\<close> says that the statement has run: its object is there, with the definition of the
  statement. Such a statement, unless it creates a type, runs again without effect.
\<close>

definition installed_in :: "catalog \<Rightarrow> ddl \<Rightarrow> bool" where
  "installed_in c s \<longleftrightarrow> cat_schema c \<and>
     (case s of
        CREATE_SCHEMA \<Rightarrow> True
      | INSERT_VERSION v \<Rightarrow> has_object ''version'' c \<and> v \<in> set (cat_versions c)
      | _ \<Rightarrow> (\<exists>n. object_name s = Some n \<and> lookup_object n (cat_objects c) = Some s) \<and>
             (case s of CREATE_FUNCTION n args body \<Rightarrow> resolves (cat_objects c) s | _ \<Rightarrow> True))"

definition distinct_objects :: "ddl list \<Rightarrow> bool" where
  "distinct_objects objs \<longleftrightarrow> distinct (map object_name objs)"

lemma replace_same:
  assumes "distinct_objects objs" "lookup_object n objs = Some x"
  shows "map (\<lambda>y. if object_name y = Some n then x else y) objs = objs"
proof (rule map_idI)
  fix y assume y: "y \<in> set objs"
  from lookup_Some [OF assms(2)] have "x \<in> set objs" "object_name x = Some n" by auto
  with y assms(1) show "(if object_name y = Some n then x else y) = y"
    by (auto simp: distinct_objects_def distinct_map inj_on_def)
qed

lemma rerun_statement:
  assumes "installed_in c s" "distinct_objects (cat_objects c)" "\<nexists>n vs. s = CREATE_TYPE n vs"
  shows "exec_ddl s c = Inr c"
proof (cases s)
  case CREATE_SCHEMA
  with assms(1) show ?thesis by (simp add: installed_in_def)
next
  case (CREATE_FUNCTION n args body)
  with assms(1) have "lookup_object n (cat_objects c) = Some s" "resolves (cat_objects c) s"
    by (simp_all add: installed_in_def)
  moreover from replace_same [OF assms(2) this(1)]
  have "c\<lparr>cat_objects := map (\<lambda>y. if object_name y = Some n then s else y) (cat_objects c)\<rparr> = c" by simp
  ultimately show ?thesis unfolding CREATE_FUNCTION
    by (simp add: has_object_def replace_object_def del: resolves.simps)
qed (use assms in \<open>auto simp: installed_in_def has_object_def\<close>)

lemma rerun_script:
  assumes "\<forall>s\<in>set ss. installed_in c s" "distinct_objects (cat_objects c)"
    "\<forall>s\<in>set ss. \<nexists>n vs. s = CREATE_TYPE n vs"
  shows "run_statements ss c = (Inr (), c)"
  using assms by (induction ss) (auto simp: rerun_statement)

text \<open>A statement whose object is not there yet installs it and keeps what is installed.\<close>

definition new_in :: "catalog \<Rightarrow> ddl \<Rightarrow> bool" where
  "new_in c s \<longleftrightarrow> (case object_name s of None \<Rightarrow> True | Some n \<Rightarrow> \<not> has_object n c)"

lemma exec_new:
  assumes "exec_ddl s c = Inr c'" "new_in c s"
  shows "\<exists>xs. cat_objects c' = cat_objects c @ xs \<and> (cat_schema c \<longrightarrow> cat_schema c') \<and>
    set (cat_versions c) \<subseteq> set (cat_versions c') \<and> set (map object_name xs) \<subseteq> {object_name s} - {None} \<and>
    length xs \<le> 1 \<and> ((\<nexists>v. s = INSERT_VERSION v) \<longrightarrow> cat_versions c' = cat_versions c) \<and>
    (cat_schema c \<or> s = CREATE_SCHEMA \<longrightarrow> installed_in c' s)"
proof (cases s)
qed (use assms in \<open>auto simp: new_in_def create_object_def installed_in_def has_object_def lookup_append
    lookup_single list_all_iff intro!: body_resolves_append split: if_splits\<close>)

lemma installed_mono:
  assumes "installed_in c t" "cat_objects c' = cat_objects c @ xs" "cat_schema c'"
    "set (cat_versions c) \<subseteq> set (cat_versions c')"
  shows "installed_in c' t"
  using assms extends_append [of "cat_objects c" xs]
  by (auto simp: installed_in_def has_object_def extends_def intro!: body_resolves_append
      simp: list_all_iff split: ddl.splits)

definition object_names :: "ddl list \<Rightarrow> string list" where
  "object_names ss = List.map_filter object_name ss"

lemma object_names_simps [simp]:
  "object_names [] = []"
  "object_names (s # ss) = (case object_name s of None \<Rightarrow> object_names ss | Some n \<Rightarrow> n # object_names ss)"
  by (simp_all add: object_names_def List.map_filter_simps split: option.split)

lemma run_installs:
  "run_statements ss c = (Inr (), c') \<Longrightarrow> cat_schema c \<Longrightarrow> distinct_objects (cat_objects c) \<Longrightarrow>
   distinct (object_names ss) \<Longrightarrow> (\<forall>n\<in>set (object_names ss). \<not> has_object n c) \<Longrightarrow>
   distinct_objects (cat_objects c') \<and> (\<forall>t. installed_in c t \<or> t \<in> set ss \<longrightarrow> installed_in c' t) \<and>
   ((\<nexists>v. INSERT_VERSION v \<in> set ss) \<longrightarrow> cat_versions c' = cat_versions c)"
proof (induction ss arbitrary: c)
  case (Cons s ss)
  from Cons.prems(1) obtain c1 where c1: "exec_ddl s c = Inr c1" "run_statements ss c1 = (Inr (), c')"
    by (auto split: sum.splits)
  have new: "new_in c s" using Cons.prems(5) by (auto simp: new_in_def split: option.splits)
  from exec_new [OF c1(1) new] Cons.prems(2) obtain xs where xs: "cat_objects c1 = cat_objects c @ xs"
    "cat_schema c1" "set (cat_versions c) \<subseteq> set (cat_versions c1)" "length xs \<le> 1"
    "set (map object_name xs) \<subseteq> {object_name s} - {None}" "installed_in c1 s"
    "(\<nexists>v. s = INSERT_VERSION v) \<longrightarrow> cat_versions c1 = cat_versions c" by blast
  have "distinct_objects (cat_objects c1)"
    using Cons.prems(3) xs(1,4,5) new
    by (cases xs; cases "object_name s") (auto simp: distinct_objects_def new_in_def has_object_def lookup_object_def find_None_iff)
  moreover have "\<forall>n\<in>set (object_names ss). \<not> has_object n c1"
    using Cons.prems(4,5) xs(1,4,5)
    by (cases xs) (auto simp: has_object_def lookup_append lookup_single split: option.splits)
  moreover have "distinct (object_names ss)" using Cons.prems(4) by (auto split: option.splits)
  moreover have "installed_in c t \<Longrightarrow> installed_in c1 t" for t
    by (rule installed_mono [OF _ xs(1-3)])
  ultimately show ?case using Cons.IH [OF c1(2) xs(2)] xs(6,7) by fastforce
qed simp

section \<open>Any partial install can be completed\<close>

definition rest_of_schema :: "ddl list" where
  "rest_of_schema = drop 2 (build_schema SCHEMA_VERSION True)"

lemma schema_shape: "build_schema SCHEMA_VERSION True = CREATE_SCHEMA # create_enum_job_state # rest_of_schema"
  by (simp add: rest_of_schema_def build_schema_def)

lemma rest_of_schema_facts:
  "length rest_of_schema = 21" "distinct (''job_state'' # object_names rest_of_schema)"
  "s \<in> set rest_of_schema \<Longrightarrow> \<nexists>n vs. s = CREATE_TYPE n vs"
proof -
  show "length rest_of_schema = 21" by (simp add: rest_of_schema_def build_schema_def)
  show "distinct (''job_state'' # object_names rest_of_schema)"
    by (simp add: rest_of_schema_def build_schema_def ddl_defs)
  show "s \<in> set rest_of_schema \<Longrightarrow> \<nexists>n vs. s = CREATE_TYPE n vs"
    by (auto simp: rest_of_schema_def build_schema_def ddl_defs)
qed

lemma retry_shape: "retry_script = CREATE_SCHEMA # rest_of_schema"
proof -
  have "s \<noteq> create_enum_job_state" if "s \<in> set rest_of_schema" for s
    using rest_of_schema_facts(3) [OF that] by (auto simp: create_enum_job_state_def)
  then show ?thesis by (simp add: retry_script_def schema_shape filter_id_conv create_enum_job_state_def)
qed

lemma fresh_run: "fst (run_statements (build_schema SCHEMA_VERSION True) no_catalog) = Inr ()"
  by code_simp

text \<open>The catalog once the schema exists, and the run of a prefix from it.\<close>

definition schema_only :: catalog where
  "schema_only = no_catalog\<lparr>cat_schema := True\<rparr>"

lemma run_prefix:
  assumes "run_statements (xs @ ys) c = (Inr u, c')"
  shows "\<exists>c1. run_statements xs c = (Inr (), c1) \<and> run_statements ys c1 = (Inr u, c')"
proof (cases "run_statements xs c")
  case (Pair r c1)
  with assms show ?thesis by (cases r) (auto simp: run_append)
qed

lemma partial_install_Suc:
  "partial_install (Suc (Suc k)) = snd (run_statements (create_enum_job_state # take k rest_of_schema) schema_only)"
  by (simp add: partial_install_def schema_shape schema_only_def)

lemma partial_run:
  "run_statements (create_enum_job_state # take k rest_of_schema) schema_only = (Inr (), partial_install (Suc (Suc k))) \<and>
   run_statements (drop k rest_of_schema) (partial_install (Suc (Suc k))) = (Inr (), full_install)"
proof -
  have "run_statements (build_schema SCHEMA_VERSION True) no_catalog = (Inr (), full_install)"
    using fresh_run rest_of_schema_facts(1)
    by (simp add: full_install_def partial_install_def schema_shape prod_eq_iff)
  then have "run_statements ((create_enum_job_state # take k rest_of_schema) @ drop k rest_of_schema) schema_only =
      (Inr (), full_install)"
    by (simp add: schema_shape schema_only_def)
  from run_prefix [OF this] show ?thesis by (auto simp: partial_install_Suc)
qed

lemma take_names: "distinct (''job_state'' # object_names (take k rest_of_schema))"
proof -
  have "object_names rest_of_schema = object_names (take k rest_of_schema) @ object_names (drop k rest_of_schema)"
    by (metis append_take_drop_id map_filter_append object_names_def)
  with rest_of_schema_facts(2) show ?thesis by auto
qed

lemma partial_installed:
  "distinct_objects (cat_objects (partial_install (Suc (Suc k)))) \<and>
   (\<forall>s\<in>set (CREATE_SCHEMA # create_enum_job_state # take k rest_of_schema). installed_in (partial_install (Suc (Suc k))) s) \<and>
   ((\<nexists>v. INSERT_VERSION v \<in> set (take k rest_of_schema)) \<longrightarrow> cat_versions (partial_install (Suc (Suc k))) = [])"
proof -
  let ?ss = "create_enum_job_state # take k rest_of_schema"
  have "distinct (object_names ?ss)" using take_names by (simp add: create_enum_job_state_def)
  moreover have "cat_schema schema_only" "cat_objects schema_only = []" "cat_versions schema_only = []"
    by (simp_all add: schema_only_def no_catalog_def)
  moreover have "installed_in schema_only CREATE_SCHEMA" by (simp add: installed_in_def schema_only_def)
  ultimately show ?thesis
    using run_installs [OF conjunct1 [OF partial_run [of k]]]
    by (auto simp: distinct_objects_def has_object_def lookup_object_def create_enum_job_state_def)
qed

lemma retry_completes: "2 \<le> k \<Longrightarrow> run_statements retry_script (partial_install k) = (Inr (), full_install)"
proof -
  assume "2 \<le> k"
  then obtain m where k: "k = Suc (Suc m)" by (metis add_2_eq_Suc le_Suc_ex)
  let ?c = "partial_install k"
  have split: "retry_script = (CREATE_SCHEMA # take m rest_of_schema) @ drop m rest_of_schema"
    by (simp add: retry_shape)
  have again: "run_statements (CREATE_SCHEMA # take m rest_of_schema) ?c = (Inr (), ?c)"
  proof (rule rerun_script)
    show "\<forall>s\<in>set (CREATE_SCHEMA # take m rest_of_schema). \<nexists>n vs. s = CREATE_TYPE n vs"
      using rest_of_schema_facts(3) by (auto dest: in_set_takeD)
  qed (use partial_installed [of m] k in auto)
  show ?thesis unfolding split run_append again using conjunct2 [OF partial_run [of m]] k by simp
qed

section \<open>What provisioning makes of a partial install\<close>

lemma early_install: "completes transactional no_catalog" "completes transactional schema_only"
proof -
  have full: "run_statements (build_schema SCHEMA_VERSION True) no_catalog = (Inr (), full_install)"
    using fresh_run rest_of_schema_facts(1)
    by (simp add: full_install_def partial_install_def schema_shape prod_eq_iff)
  then have "run_statements (build_schema SCHEMA_VERSION True) schema_only = (Inr (), full_install)"
    by (simp add: schema_shape schema_only_def)
  with full show "completes transactional no_catalog" "completes transactional schema_only"
    by (simp_all add: completes_def run_script_def version_table_exists_def has_object_def lookup_object_def
        no_catalog_def schema_only_def)
qed

lemma enum_install: "completes transactional (partial_install 2)"
proof -
  let ?c = "partial_install 2"
  have c: "?c = schema_only\<lparr>cat_objects := [create_enum_job_state]\<rparr>"
    by (simp add: partial_install_def build_schema_def create_enum_job_state_def has_object_def
        lookup_object_def no_catalog_def schema_only_def create_object_def numeral_2_eq_2)
  then have "run_statements (build_schema SCHEMA_VERSION True) ?c = (Inl DuplicateObject, ?c)"
    by (simp add: schema_shape schema_only_def create_enum_job_state_def has_object_def lookup_object_def)
  moreover have "\<not> version_table_exists ?c"
    by (simp add: c version_table_exists_def has_object_def lookup_object_def create_enum_job_state_def)
  ultimately show ?thesis using retry_completes [of 2] by (simp add: completes_def run_script_def)
qed

lemma rest_begins: "rest_of_schema = create_table_version # drop 1 rest_of_schema"
  by (simp add: rest_of_schema_def build_schema_def)

lemma no_version_row: "k < 21 \<Longrightarrow> \<nexists>v. INSERT_VERSION v \<in> set (take k rest_of_schema)"
proof -
  assume "k < 21"
  then have "set (take k rest_of_schema) \<subseteq> set (take 20 rest_of_schema)"
    by (simp add: set_take_subset_set_take)
  moreover have "INSERT_VERSION v \<notin> set (take 20 rest_of_schema)" for v
    by (simp add: rest_of_schema_def build_schema_def ddl_defs)
  ultimately show ?thesis by blast
qed

lemma late_install:
  assumes "3 \<le> k" "k < 23"
  shows "version_table_exists (partial_install k)" "get_version (partial_install k) = None"
proof -
  obtain m where k: "k = Suc (Suc (Suc m))" using assms(1) by (metis Suc_le_D eval_nat_numeral(3) numeral_2_eq_2 One_nat_def Suc_le_mono)
  have "create_table_version \<in> set (take (Suc m) rest_of_schema)" by (subst rest_begins) simp
  with partial_installed [of "Suc m"] k have "installed_in (partial_install k) create_table_version" by auto
  then show "version_table_exists (partial_install k)"
    by (simp add: installed_in_def create_table_version_def version_table_exists_def has_object_def)
  show "get_version (partial_install k) = None"
    using partial_installed [of "Suc m"] no_version_row [of "Suc m"] assms(2) k by (simp add: get_version_def)
qed

lemma full_install_version: "version_table_exists full_install" "get_version full_install = Some SCHEMA_VERSION"
  by code_simp+

lemma full_install_queue: "has_object ''queue'' full_install"
  by code_simp

text \<open>The third statement creates the version table, the fourth the table of the queues.\<close>

lemma version_without_queue: "\<not> has_object ''queue'' (partial_install 3)"
  by code_simp

lemma queue_from_four:
  assumes "4 \<le> k"
  shows "has_object ''queue'' (partial_install k)"
proof -
  obtain m where k: "k = Suc (Suc (Suc (Suc m)))"
    using assms by (metis add_Suc_shift add_2_eq_Suc le_Suc_ex numeral_Bit0 numeral_2_eq_2 plus_1_eq_Suc)
  have "rest_of_schema = create_table_version # create_table_queue # drop 2 rest_of_schema"
    by (simp add: rest_of_schema_def build_schema_def)
  then have "create_table_queue \<in> set (take (Suc (Suc m)) rest_of_schema)" by (metis list.set_intros take_Suc_Cons)
  with partial_installed [of "Suc (Suc m)"] k have "installed_in (partial_install k) create_table_queue" by auto
  then show ?thesis by (simp add: installed_in_def create_table_queue_def has_object_def)
qed

lemma partial_install_full: "23 \<le> k \<Longrightarrow> partial_install k = full_install"
  by (simp add: partial_install_def full_install_def build_schema_def)

lemma fresh_install: "provision transactional schema no_catalog = (Inr (), full_install)"
  by (rule completes_provision [OF early_install(1)])

text \<open>What \<open>_provision\<close> makes of an install that was cut off after its first \<open>k\<close> statements. Up to the
  enum it completes the install, retrying without the enum's statement. From the third statement
  on, the \<^verbatim>\<open>version\<close> table exists and \<open>_provision\<close> takes the install for finished: it reports success
  and leaves tables, indexes and functions missing, on either kind of database, although the very
  script of its retry would have completed the install from there: every statement but the enum's
  can be run again, wherever the first run stopped.\<close>
theorem provision_partial:
  "provision transactional schema (partial_install k) =
     (Inr (), if k \<le> 2 then full_install else partial_install k) \<and>
   (2 < k \<longrightarrow> k < 23 \<longrightarrow> partial_install k \<noteq> full_install) \<and>
   (2 \<le> k \<longrightarrow> run_script transactional retry_script (partial_install k) = (Inr (), full_install))"
proof -
  consider "k = 0" | "k = 1" | "k = 2" | "3 \<le> k" "k < 23" | "23 \<le> k" by linarith
  then show ?thesis
  proof cases
    case 1
    then show ?thesis using fresh_install by (simp add: partial_install_def)
  next
    case 2
    then have "partial_install k = schema_only" by (simp add: partial_install_def schema_shape schema_only_def)
    with 2 show ?thesis using completes_provision [OF early_install(2)] by simp
  next
    case 3
    then show ?thesis using completes_provision [OF enum_install] retry_completes [of 2] by (simp add: run_script_def)
  next
    case 4
    note late = late_install [OF 4]
    from late(2) have "partial_install k \<noteq> full_install" using full_install_version by auto
    with 4 late retry_completes [of k] show ?thesis by (simp add: provision_eq run_script_def)
  next
    case 5
    then show ?thesis using full_install_version retry_completes [of k]
      by (simp add: partial_install_full provision_eq run_script_def)
  qed
qed

theorem provision_partial_witness:
  "provision False ''underboss'' (partial_install 5) = (Inr (), partial_install 5) \<and>
     partial_install 5 \<noteq> full_install \<and>
     run_script False retry_script (partial_install 5) = (Inr (), full_install)"
  using provision_partial [of False "''underboss''" 5] by simp

text \<open>Versions: on a full install \<open>_provision\<close> changes nothing, and an install of another version is
  refused with that version, never touched.\<close>
theorem provision_versions:
  "provision transactional schema full_install = (Inr (), full_install) \<and>
   provision transactional schema (full_install\<lparr>cat_versions := v # vs\<rparr>) =
     (if v = SCHEMA_VERSION then Inr () else Inl (MigrationRequiredError v),
      full_install\<lparr>cat_versions := v # vs\<rparr>)"
  using full_install_version by (simp add: provision_eq version_table_exists_def has_object_def get_version_def)

end
