(* ===== verification/Underboss_Object.thy ===== *)
theory Underboss_Object
  imports Cron_Scheduler Maintenance Provision "HOL-Library.AList"
begin

text \<open>
  The \<^verbatim>\<open>Underboss\<close> object of \<^verbatim>\<open>underboss/underboss.py\<close>: construction, \<^verbatim>\<open>start\<close> and \<^verbatim>\<open>stop\<close>, the workers it
  keeps by id, and the schedule calls. It extends the \<open>core\<close> of the one-statement calls with the
  workers and the two background loops. Starting acts on the catalog and the tables; the tables of
  an install made by this start are empty.
\<close>

section \<open>The object\<close>

record worker_entry =
  we_name :: string
  we_options :: WorkOptions
  we_worker :: worker

record underboss = core +
  ub_schema :: string
  ub_workers :: "(string \<times> worker_entry) list"
  ub_scheduler :: "scheduler option"
  ub_maintenance :: "maintenance option"

definition underboss_new ::
  "string option \<Rightarrow> bool option \<Rightarrow> string \<Rightarrow> int \<Rightarrow> int \<Rightarrow> bool \<Rightarrow> rat \<Rightarrow> bool \<Rightarrow> error + underboss" where
  "underboss_new dsn pool schema min_pool_size max_pool_size scheduling cron_interval maintenance =
     bindr (Database_new dsn pool min_pool_size max_pool_size (Some schema)) (\<lambda>b.
       Inr \<lparr>ub_started = False, ub_db = b, ub_schema = schema, ub_workers = [],
            ub_scheduler = (if scheduling then Some (scheduler_new cron_interval) else None),
            ub_maintenance = (if maintenance then Some maintenance_init else None)\<rparr>)"

text \<open>\<^verbatim>\<open>start()\<close>: what it raised, if anything, with the object, the catalog and the tables it leaves.\<close>

definition start_background ::
  "(string \<Rightarrow> bool) \<Rightarrow> pg \<Rightarrow> underboss \<Rightarrow> db \<Rightarrow> (error + unit) \<times> underboss \<times> db" where
  "start_background relations s b d =
     (case (case ub_scheduler b of
              None \<Rightarrow> (Inr None, d)
            | Some sd \<Rightarrow>
                (case scheduler_start (ub_db b) relations s sd d of
                   (Inl e, d') \<Rightarrow> (Inl e, d') | (Inr sd', d') \<Rightarrow> (Inr (Some sd'), d'))) of
        (Inl e, d') \<Rightarrow> (Inl e, b, d')
      | (Inr sd, d') \<Rightarrow>
          (Inr (), b\<lparr>ub_scheduler := sd, ub_maintenance := map_option maintenance_start (ub_maintenance b)\<rparr>, d'))"

definition underboss_start ::
  "bool \<Rightarrow> pg \<Rightarrow> underboss \<Rightarrow> catalog \<Rightarrow> db \<Rightarrow> (error + unit) \<times> underboss \<times> catalog \<times> db" where
  "underboss_start transactional s b cat d =
     (let b1 = b\<lparr>ub_db := Database_open (ub_db b)\<rparr>
      in case provision transactional (ub_schema b) cat of
           (Inl e, cat') \<Rightarrow> (Inl e, b1, cat', d)
         | (Inr u, cat') \<Rightarrow>
             let d1 = (if version_table_exists cat then d else installed);
                 b2 = b1\<lparr>ub_started := True\<rparr>
             in case start_background (\<lambda>n. has_object n cat') s b2 d1 of (r, b3, d2) \<Rightarrow> (r, b3, cat', d2))"

text \<open>
  \<^verbatim>\<open>stop()\<close>: what it raised, the object, its workers as it left them and the pool it closed. The
  workers are stopped one after the other, and the exception of one ends the loop and the call.
\<close>

fun stop_workers :: "worker list \<Rightarrow> (error + unit) \<times> worker list" where
  "stop_workers [] = (Inr (), [])"
| "stop_workers (w # ws) =
     (case worker_stop w of
        (Inl e, w') \<Rightarrow> (Inl e, w' # ws)
      | (Inr u, w') \<Rightarrow> (case stop_workers ws of (r, ws') \<Rightarrow> (r, w' # ws')))"

definition underboss_stop :: "underboss \<Rightarrow> (error + unit) \<times> underboss \<times> worker list \<times> pool option" where
  "underboss_stop b =
     (let b1 = b\<lparr>ub_workers := [],
                 ub_maintenance := map_option maintenance_stop (ub_maintenance b),
                 ub_scheduler := map_option scheduler_stop (ub_scheduler b)\<rparr>
      in case stop_workers (map (\<lambda>(i, e). we_worker e) (ub_workers b)) of
           (Inl e, ws) \<Rightarrow> (Inl e, b1, ws, None)
         | (Inr u, ws) \<Rightarrow>
             let (db', closed_pool) = Database_close (ub_db b)
             in (Inr (), b1\<lparr>ub_started := False, ub_db := db'\<rparr>, ws, closed_pool))"

text \<open>
  \<^verbatim>\<open>async with\<close>: entering starts the object, leaving stops it, whatever the block did; an exception of
  the block goes on, unless the stop raises one of its own.
\<close>

definition aenter ::
  "bool \<Rightarrow> pg \<Rightarrow> underboss \<Rightarrow> catalog \<Rightarrow> db \<Rightarrow> (error + unit) \<times> underboss \<times> catalog \<times> db" where
  "aenter transactional s b cat d = underboss_start transactional s b cat d"

definition aexit :: "underboss \<Rightarrow> (error + unit) \<times> underboss \<times> worker list \<times> pool option" where
  "aexit b = underboss_stop b"

section \<open>Workers\<close>

text \<open>A worker's loop runs beside the object; \<open>worker_ran\<close> is the object after some turns of it.\<close>

definition worker_ran :: "string \<Rightarrow> handler \<Rightarrow> turn list \<Rightarrow> db \<Rightarrow> underboss \<Rightarrow> underboss" where
  "worker_ran wid h ts d b =
     (case map_of (ub_workers b) wid of
        None \<Rightarrow> b
      | Some e \<Rightarrow>
          b\<lparr>ub_workers := AList.update wid
             (e\<lparr>we_worker := fst (worker_run (ub_db b) (we_options e) h (we_name e) ts (we_worker e) d)\<rparr>) (ub_workers b)\<rparr>)"

text \<open>\<open>wid\<close> is the \<^verbatim>\<open>uuid4()\<close> of the new worker.\<close>

definition underboss_work ::
  "string \<Rightarrow> string \<Rightarrow> WorkOptions option \<Rightarrow> underboss \<Rightarrow> error + string \<times> underboss" where
  "underboss_work wid name options b =
     (if \<not> ub_started b then Inl NotStartedError
      else bindr (worker_start worker_new) (\<lambda>w.
        Inr (wid, b\<lparr>ub_workers := AList.update wid
               \<lparr>we_name = name, we_options = coalesce options WorkOptions_default, we_worker = w\<rparr>
               (ub_workers b)\<rparr>)))"

definition underboss_stop_worker :: "string \<Rightarrow> underboss \<Rightarrow> (error + unit) \<times> underboss \<times> worker option" where
  "underboss_stop_worker wid b =
     (let b1 = b\<lparr>ub_workers := AList.delete wid (ub_workers b)\<rparr>
      in case map_of (ub_workers b) wid of
           None \<Rightarrow> (Inr (), b1, None)
         | Some e \<Rightarrow> (case worker_stop (we_worker e) of (r, w) \<Rightarrow> (r, b1, Some w)))"

definition underboss_notify_worker :: "string \<Rightarrow> underboss \<Rightarrow> error + underboss" where
  "underboss_notify_worker wid b =
     (if \<not> ub_started b then Inl NotStartedError
      else case map_of (ub_workers b) wid of
        None \<Rightarrow> Inr b
      | Some e \<Rightarrow>
          Inr (b\<lparr>ub_workers := AList.update wid (e\<lparr>we_worker := worker_notify (we_worker e)\<rparr>) (ub_workers b)\<rparr>))"

section \<open>Schedules\<close>

definition underboss_schedule ::
  "cron_lib \<Rightarrow> underboss \<Rightarrow> pg \<Rightarrow> string \<Rightarrow> string \<Rightarrow> (string \<times> json) list option \<Rightarrow> string \<Rightarrow> string option \<Rightarrow>
     db \<Rightarrow> (error + unit) \<times> db" where
  "underboss_schedule lib b s name cron data key timezone d =
     require_started b
       (if ub_scheduler b = None
        then (Inl (RuntimeError ''scheduling is disabled on this Underboss instance''), d)
        else scheduler_upsert lib (ub_db b) s name key cron timezone data d) d"

definition underboss_unschedule :: "underboss \<Rightarrow> string \<Rightarrow> string \<Rightarrow> db \<Rightarrow> (error + unit) \<times> db" where
  "underboss_unschedule b name key d =
     require_started b
       (if ub_scheduler b = None
        then (Inl (RuntimeError ''scheduling is disabled on this Underboss instance''), d)
        else scheduler_delete (ub_db b) name key d) d"

section \<open>The object's invariant\<close>

text \<open>
  A started object has an open pool, so no call of a started object meets the error of a closed
  one; the workers are kept under distinct ids and only a started object has any.
\<close>

definition boss_ok :: "underboss \<Rightarrow> bool" where
  "boss_ok b \<longleftrightarrow>
     (ub_started b \<longrightarrow> db_pool (ub_db b) \<noteq> None) \<and> distinct (map fst (ub_workers b)) \<and>
     (ub_workers b \<noteq> [] \<longrightarrow> ub_started b)"

inductive object_reachable :: "underboss \<Rightarrow> bool" where
  new: "underboss_new dsn pool schema lo hi sched interval maint = Inr b \<Longrightarrow> object_reachable b"
| start: "object_reachable b \<Longrightarrow> underboss_start tr s b cat d = (r, b', cat', d') \<Longrightarrow> object_reachable b'"
| stop: "object_reachable b \<Longrightarrow> underboss_stop b = (r, b', ws, closed_pool) \<Longrightarrow> object_reachable b'"
| work: "object_reachable b \<Longrightarrow> underboss_work wid name options b = Inr (i, b') \<Longrightarrow> object_reachable b'"
| stop_worker: "object_reachable b \<Longrightarrow> underboss_stop_worker wid b = (r, b', w) \<Longrightarrow> object_reachable b'"
| notify: "object_reachable b \<Longrightarrow> underboss_notify_worker wid b = Inr b' \<Longrightarrow> object_reachable b'"
| ran: "object_reachable b \<Longrightarrow> object_reachable (worker_ran wid h ts d b)"

lemma start_background_core:
  "start_background relations s b d = (r, b', d') \<Longrightarrow>
   ub_started b' = ub_started b \<and> ub_db b' = ub_db b \<and> ub_workers b' = ub_workers b"
  by (auto simp: start_background_def split: option.splits prod.splits sum.splits)

lemma underboss_start_core:
  "underboss_start tr s b cat d = (r, b', cat', d') \<Longrightarrow>
   ub_db b' = Database_open (ub_db b) \<and> ub_workers b' = ub_workers b \<and> (ub_started b \<longrightarrow> ub_started b')"
  by (auto simp: underboss_start_def Let_def split: prod.splits sum.splits dest!: start_background_core)

text \<open>Every object the program can build keeps its invariant: in whatever order it is started,
  stopped, given workers, notified, also when a start fails, a started object has an open pool,
  its workers have distinct ids, and there are workers only while it is started.\<close>
theorem object_invariant:
  assumes "object_reachable b"
  shows "boss_ok b"
  using assms
proof (induction rule: object_reachable.induct)
  case (new dsn pool schema lo hi sched interval maint b)
  then show ?case by (auto simp: underboss_new_def boss_ok_def)
next
  case (start b tr s cat d r b' cat' d')
  from underboss_start_core [OF start(2)] start(3) Database_open_pool [of "ub_db b"] show ?case
    unfolding boss_ok_def by metis
next
  case (stop b r b' ws closed_pool)
  then show ?case by (auto simp: underboss_stop_def boss_ok_def Let_def split: prod.splits sum.splits)
next
  case (work b wid name options i b')
  then show ?case by (auto simp: underboss_work_def boss_ok_def distinct_update split: if_splits)
next
  case (stop_worker b wid r b' w)
  then show ?case
    by (auto simp: underboss_stop_worker_def boss_ok_def distinct_delete Let_def split: option.splits prod.splits)
next
  case (notify b wid b')
  then show ?case
    by (auto simp: underboss_notify_worker_def boss_ok_def distinct_update split: if_splits option.splits)
next
  case (ran b wid h ts d)
  then show ?case
  proof (cases "map_of (ub_workers b) wid")
    case (Some e)
    then have "ub_workers b \<noteq> []" by auto
    with Some ran(2) show ?thesis by (simp add: worker_ran_def boss_ok_def distinct_update)
  qed (simp add: worker_ran_def)
qed

definition sample_boss :: underboss where
  "sample_boss =
     \<lparr>ub_started = False, ub_db = own_database ''dsn'',
      ub_schema = ''underboss'', ub_workers = [], ub_scheduler = Some (scheduler_new 60),
      ub_maintenance = Some maintenance_init\<rparr>"

lemma sample_boss_new: "underboss_new (Some ''dsn'') None ''underboss'' 2 10 True 60 True = Inr sample_boss"
  by (simp add: underboss_new_def Database_new_def sample_boss_def own_database_def)

theorem object_invariant_witness:
  "\<exists>b' cat' d'. underboss_start True sample_pg sample_boss no_catalog installed = (Inr (), b', cat', d') \<and>
     ub_started b' \<and> boss_ok b'"
proof -
  let ?r = "underboss_start True sample_pg sample_boss no_catalog installed"
  have "fst ?r = Inr () \<and> ub_started (fst (snd ?r))" by code_simp
  then obtain b' cat' d' where r: "?r = (Inr (), b', cat', d')" "ub_started b'" by (cases ?r) auto
  from object_invariant [OF object_reachable.start [OF object_reachable.new [OF sample_boss_new] r(1)]] r
  show ?thesis by blast
qed

section \<open>Starting, stopping and starting again\<close>

lemma sendit_queue_created:
  "\<exists>q. create_queue s SEND_IT_QUEUE (JObj [(''policy'', JStr ''standard'')]) installed = Inr (installed\<lparr>queues := [q]\<rparr>) \<and>
     q_name q = SEND_IT_QUEUE \<and> q_policy q = ''standard''"
  by (simp add: create_queue_def queue_row_of_def arrow_text_JObj installed_def queue_exists_def fk_ok_def)

lemma sendit_queue_accepted:
  "\<exists>d'. create_queue s SEND_IT_QUEUE (JObj [(''policy'', JStr ''standard'')]) d = Inr d'"
  by (simp add: create_queue_def queue_row_of_def arrow_text_JObj fk_ok_def)

text \<open>A first start works: on an empty database it installs the whole schema, leaves the object started
  with its pool open and both loops running, and the tables empty but for the scheduler's own
  queue.\<close>
theorem first_start:
  assumes "ub_scheduler b = Some sd"
  shows "\<exists>b' q. underboss_start tr s b no_catalog d = (Inr (), b', full_install, installed\<lparr>queues := [q]\<rparr>) \<and>
    ub_started b' \<and> db_pool (ub_db b') \<noteq> None \<and> q_name q = SEND_IT_QUEUE \<and>
    map_option sd_task (ub_scheduler b') = Some True \<and>
    map_option mt_running (ub_maintenance b') = map_option (\<lambda>m. True) (ub_maintenance b)"
proof -
  from sendit_queue_created [of s] obtain q
    where q: "create_queue s SEND_IT_QUEUE (JObj [(''policy'', JStr ''standard'')]) installed = Inr (installed\<lparr>queues := [q]\<rparr>)"
      "q_name q = SEND_IT_QUEUE" by blast
  have "provision tr (ub_schema b) no_catalog = (Inr (), full_install)"
    using fresh_install [of tr "ub_schema b"] by simp
  moreover have "\<not> version_table_exists no_catalog" by (simp add: version_table_exists_def no_catalog_def)
  moreover obtain p where p: "db_pool (Database_open (ub_db b)) = Some p"
    using Database_open_pool [of "ub_db b"] by blast
  ultimately show ?thesis using assms q
    by (auto simp: underboss_start_def start_background_def scheduler_start_def on_relation_def execute_def no_rows_def Let_def
        worker_start_def worker_new_def maintenance_start_def option.map_comp comp_def full_install_queue
        intro!: exI [of _ q])
qed

theorem first_start_witness:
  "\<exists>b' q. underboss_start False sample_pg sample_boss no_catalog installed =
     (Inr (), b', full_install, installed\<lparr>queues := [q]\<rparr>) \<and> q_name q = SEND_IT_QUEUE"
  using first_start [of sample_boss "scheduler_new 60" False sample_pg installed]
  by (auto simp: sample_boss_def)

text \<open>C38. What \<open>start()\<close> makes of an install that was cut off after its first \<open>k\<close> statements, on either kind
  of database. Up to the enum it completes the install. From the third statement on, the \<^verbatim>\<open>version\<close>
  table exists, so it takes the install for finished and leaves tables, indexes and functions
  missing, although the script of its own retry would have completed it from there. Right after the
  third statement even the \<^verbatim>\<open>queue\<close> table is missing: with scheduling on, the scheduler's first statement
  raises, and the object is left started, its pool open, neither loop running. In every other case
  \<open>start()\<close> reports success.\<close>
theorem start_partial:
  "\<exists>b' d'. underboss_start tr s b (partial_install k) d =
      (if k = 3 \<and> ub_scheduler b \<noteq> None then Inl (Db UndefinedObject) else Inr (), b',
       if k \<le> 2 then full_install else partial_install k, d') \<and>
    ub_started b' \<and> db_pool (ub_db b') \<noteq> None \<and>
    (k = 3 \<and> ub_scheduler b \<noteq> None \<longrightarrow>
       b' = b\<lparr>ub_db := Database_open (ub_db b), ub_started := True\<rparr> \<and> d' = d) \<and>
    (2 < k \<longrightarrow> k < 23 \<longrightarrow> partial_install k \<noteq> full_install) \<and>
    (2 \<le> k \<longrightarrow> run_script tr retry_script (partial_install k) = (Inr (), full_install))"
proof -
  let ?cat = "if k \<le> 2 then full_install else partial_install k"
  let ?b = "b\<lparr>ub_db := Database_open (ub_db b), ub_started := True\<rparr>"
  note prov = provision_partial [of tr "ub_schema b" k]
  have queue: "has_object ''queue'' ?cat \<longleftrightarrow> k \<noteq> 3"
    using full_install_queue version_without_queue queue_from_four [of k] by auto
  define d1 where "d1 = (if version_table_exists (partial_install k) then d else installed)"
  have d1: "k = 3 \<Longrightarrow> d1 = d" using late_install(1) [of 3] by (simp add: d1_def)
  have start: "underboss_start tr s b (partial_install k) d =
      (case start_background (\<lambda>n. has_object n ?cat) s ?b d1 of (r, b3, d2) \<Rightarrow> (r, b3, ?cat, d2))"
    using prov by (simp add: underboss_start_def Let_def d1_def)
  obtain r b' d' where bg: "start_background (\<lambda>n. has_object n ?cat) s ?b d1 = (r, b', d')" by (metis prod_cases3)
  obtain q where "create_queue s SEND_IT_QUEUE (JObj [(''policy'', JStr ''standard'')]) d1 = Inr q"
    using sendit_queue_accepted by blast
  with bg queue have r: "r = (if k = 3 \<and> ub_scheduler b \<noteq> None then Inl (Db UndefinedObject) else Inr ())"
    "k = 3 \<and> ub_scheduler b \<noteq> None \<longrightarrow> b' = ?b \<and> d' = d1"
    by (auto simp: start_background_def scheduler_start_def on_relation_def execute_def no_rows_def
        worker_start_def worker_new_def split: option.splits if_splits)
  have "ub_started b'" "ub_db b' = Database_open (ub_db b)"
    using start_background_core [OF bg] by simp_all
  then show ?thesis
    using prov r d1 Database_open_pool [of "ub_db b"] by (intro exI [of _ b'] exI [of _ d']) (auto simp: start bg)
qed

theorem start_partial_witness:
  "\<exists>b'. underboss_start False sample_pg sample_boss (partial_install 3) installed =
      (Inl (Db UndefinedObject), b', partial_install 3, installed) \<and>
    ub_started b' \<and> partial_install 3 \<noteq> full_install \<and>
    run_script False retry_script (partial_install 3) = (Inr (), full_install)"
  using start_partial [of False sample_pg sample_boss 3 installed] by (auto simp: sample_boss_def)

text \<open>A start that is refused for the version of the schema leaves the pool open; \<^verbatim>\<open>async with\<close> does not
  leave a block it could not enter, so nothing closes it.\<close>
theorem failed_start:
  assumes "\<not> ub_started b" "version_table_exists cat" "get_version cat = Some v" "v \<noteq> SCHEMA_VERSION"
  shows "aenter tr s b cat d = (Inl (MigrationRequiredError v), b\<lparr>ub_db := Database_open (ub_db b)\<rparr>, cat, d) \<and>
    db_pool (Database_open (ub_db b)) \<noteq> None"
  using assms by (simp add: aenter_def underboss_start_def provision_eq Let_def)

theorem failed_start_witness:
  "\<exists>b'. aenter True sample_pg sample_boss (full_install\<lparr>cat_versions := [29]\<rparr>) installed =
     (Inl (MigrationRequiredError 29), b', full_install\<lparr>cat_versions := [29]\<rparr>, installed) \<and> db_pool (ub_db b') \<noteq> None"
proof -
  have "version_table_exists (full_install\<lparr>cat_versions := [29]\<rparr>)"
    using full_install_version(1) by (simp add: version_table_exists_def has_object_def)
  moreover have "get_version (full_install\<lparr>cat_versions := [29]\<rparr>) = Some 29" by (simp add: get_version_def)
  moreover have "\<not> ub_started sample_boss" by (simp add: sample_boss_def)
  ultimately show ?thesis
    using failed_start [of sample_boss "full_install\<lparr>cat_versions := [29]\<rparr>" 29 True sample_pg installed]
    by (intro exI [of _ "sample_boss\<lparr>ub_db := Database_open (ub_db sample_boss)\<rparr>"])
       (simp add: SCHEMA_VERSION_def del: not_None_eq)
qed

text \<open>C40. Started again after a stop, an object looks alive but its background loops are dead: both stop
  events stay set, so although both tasks run, no maintenance sweep and no cron tick ever happens
  again, whatever turns the loops get. Expired jobs are no longer recovered, schedules no longer
  fire, old jobs no longer deleted.\<close>
theorem restart_leaves_loops_dead:
  assumes "underboss_start tr s b cat d = (Inr (), b1, cat1, d1)" "underboss_stop b1 = (Inr (), b2, ws, p)"
    "underboss_start tr' s' b2 cat2 d2 = (Inr (), b3, cat3, d3)"
    "ub_scheduler b = Some sd" "ub_maintenance b = Some m"
  shows "\<exists>sd' m'. ub_started b3 \<and> ub_scheduler b3 = Some sd' \<and> ub_maintenance b3 = Some m' \<and>
    sd_task sd' \<and> mt_running m' \<and>
    scheduler_run lib (ub_db b3) send (sd_tick_interval sd') (sd_stopping sd') ticks d4 = d4 \<and>
    maintenance_run (mt_stopping m') sweeps d4 = d4"
proof -
  have loops: "\<exists>sd' m'. ub_scheduler b' = Some sd' \<and> ub_maintenance b' = Some m' \<and> sd_task sd' \<and> mt_running m' \<and>
      sd_stopping sd' = sd_stopping sd0 \<and> mt_stopping m' = mt_stopping m0 \<and> ub_started b'"
    if "underboss_start tr0 s0 b0 cat0 d0 = (Inr (), b', cat', d')" "ub_scheduler b0 = Some sd0"
      "ub_maintenance b0 = Some m0" for tr0 s0 b0 cat0 d0 b' cat' d' sd0 m0
    using that
    by (auto simp: underboss_start_def start_background_def scheduler_start_def Let_def maintenance_start_def
        worker_start_def worker_new_def split: prod.splits sum.splits)
  from loops [OF assms(1,4,5)] obtain sd1 m1 where 1: "ub_scheduler b1 = Some sd1" "ub_maintenance b1 = Some m1" by blast
  with assms(2) have 2: "ub_scheduler b2 = Some (scheduler_stop sd1)" "ub_maintenance b2 = Some (maintenance_stop m1)"
    by (auto simp: underboss_stop_def Let_def split: prod.splits sum.splits)
  from loops [OF assms(3) 2] obtain sd' m' where 3: "ub_scheduler b3 = Some sd'" "ub_maintenance b3 = Some m'"
    "sd_task sd'" "mt_running m'" "sd_stopping sd'" "mt_stopping m'" "ub_started b3"
    by (auto simp: scheduler_stop_def maintenance_stop_def)
  have "scheduler_run lib (ub_db b3) send (sd_tick_interval sd') True ticks d4 = d4"
    by (cases ticks) (auto split: prod.splits)
  moreover have "maintenance_run True sweeps d4 = d4" by (cases sweeps) auto
  ultimately show ?thesis using 3 by auto
qed

text \<open>A start followed by a stop and another start, of one object on one database.\<close>

definition restarted :: "(error + unit) \<times> underboss \<times> catalog \<times> db" where
  "restarted =
     (case underboss_start True sample_pg sample_boss no_catalog installed of (r1, b1, c1, d1) \<Rightarrow>
      case underboss_stop b1 of (r2, b2, ws, p) \<Rightarrow> underboss_start True sample_pg b2 c1 d1)"

theorem restart_leaves_loops_dead_witness:
  "\<exists>b3 c3 d3 m'. restarted = (Inr (), b3, c3, d3) \<and> ub_maintenance b3 = Some m' \<and> mt_running m' \<and>
     maintenance_run (mt_stopping m') [(sample_pg, sample_pg, False)] d3 = d3"
proof -
  obtain r1 b1 c1 d1 where 1: "underboss_start True sample_pg sample_boss no_catalog installed = (r1, b1, c1, d1)"
    by (metis prod_cases4)
  obtain r2 b2 ws p where 2: "underboss_stop b1 = (r2, b2, ws, p)" by (metis prod_cases4)
  obtain r3 b3 c3 d3 where 3: "underboss_start True sample_pg b2 c1 d1 = (r3, b3, c3, d3)"
    by (metis prod_cases4)
  have "fst (underboss_start True sample_pg sample_boss no_catalog installed) = Inr ()" by code_simp
  with 1 have r1: "r1 = Inr ()" by simp
  have "fst (underboss_stop (fst (snd (underboss_start True sample_pg sample_boss no_catalog installed)))) = Inr ()"
    by code_simp
  with 1 2 have r2: "r2 = Inr ()" by simp
  have "fst restarted = Inr ()" by code_simp
  with 1 2 3 have r3: "r3 = Inr ()" by (simp add: restarted_def)
  have "ub_scheduler sample_boss = Some (scheduler_new 60)" "ub_maintenance sample_boss = Some maintenance_init"
    by (simp_all add: sample_boss_def)
  from restart_leaves_loops_dead [OF 1 [unfolded r1] 2 [unfolded r2] 3 [unfolded r3] this, of sample_lib
      "boss_sender running_core" "[]" d3 "[(sample_pg, sample_pg, False)]"] 1 2 3 r3
  show ?thesis by (auto simp: restarted_def)
qed

section \<open>A dead worker and stop\<close>

lemma stop_workers_prefix:
  "\<forall>w\<in>set ws. fst (worker_stop w) = Inr () \<Longrightarrow> fst (worker_stop w0) = Inl e \<Longrightarrow>
   stop_workers (ws @ w0 # rest) = (Inl e, map (\<lambda>w. snd (worker_stop w)) ws @ snd (worker_stop w0) # rest)"
  by (induction ws) (auto split: prod.splits sum.splits)

text \<open>C23. One worker that died of an exception breaks \<open>stop()\<close> for the object: the exception comes out of the
  call, the pool stays open and the object started, although it no longer has workers; and the
  workers behind the dead one are never told to stop and poll on. A second \<open>stop()\<close> ends the
  object, but not those workers.\<close>
theorem dead_worker_breaks_stop:
  assumes "map (\<lambda>(i, e). we_worker e) (ub_workers b) = ws @ w # rest"
    "\<forall>w\<in>set ws. fst (worker_stop w) = Inr ()" "wk_task w" "wk_raised w = Some TypeError"
  shows "\<exists>b' ws' w' b'' p. underboss_stop b = (Inl TypeError, b', ws' @ w' # rest, None) \<and>
    length ws' = length ws \<and> ub_started b' = ub_started b \<and> ub_db b' = ub_db b \<and> ub_workers b' = [] \<and>
    underboss_stop b' = (Inr (), b'', [], p) \<and> \<not> ub_started b''"
proof -
  from assms(3,4) have "fst (worker_stop w) = Inl TypeError" by (simp add: worker_stop_def Let_def)
  from stop_workers_prefix [OF assms(2) this] assms(1) show ?thesis
    by (auto simp: underboss_stop_def Let_def split: prod.splits)
qed

text \<open>Two workers, the first of which ran a handler whose output cannot be dumped.\<close>

definition two_workers :: underboss where
  "two_workers = sample_boss\<lparr>ub_started := True,
     ub_db := own_pool,
     ub_workers :=
       [(''w1'', \<lparr>we_name = ''q'', we_options = WorkOptions_default, we_worker = worker_new\<lparr>wk_task := True\<rparr>\<rparr>),
        (''w2'', \<lparr>we_name = ''q'', we_options = WorkOptions_default, we_worker = worker_new\<lparr>wk_task := True\<rparr>\<rparr>)]\<rparr>"

theorem dead_worker_breaks_stop_witness:
  "\<exists>b' w'. underboss_stop (worker_ran ''w1'' (\<lambda>js d. (Unserializable, d)) [quiet_turn sample_pg] worker_sample two_workers) =
     (Inl TypeError, b', [w', worker_new\<lparr>wk_task := True\<rparr>], None) \<and> ub_started b' \<and> db_pool (ub_db b') \<noteq> None"
proof -
  let ?b = "worker_ran ''w1'' (\<lambda>js d. (Unserializable, d)) [quiet_turn sample_pg] worker_sample two_workers"
  have "map (\<lambda>(i, e). (wk_task (we_worker e), wk_raised (we_worker e))) (ub_workers ?b) = [(True, Some TypeError), (True, None)] \<and>
      map (\<lambda>(i, e). we_worker e) (drop 1 (ub_workers ?b)) = [worker_new\<lparr>wk_task := True\<rparr>] \<and>
      ub_started ?b \<and> db_pool (ub_db ?b) \<noteq> None" by code_simp
  then obtain w where w: "map (\<lambda>(i, e). we_worker e) (ub_workers ?b) = [] @ w # [worker_new\<lparr>wk_task := True\<rparr>]"
    "wk_task w" "wk_raised w = Some TypeError" and b: "ub_started ?b" "db_pool (ub_db ?b) \<noteq> None"
    by (cases "ub_workers ?b") auto
  from dead_worker_breaks_stop [OF w(1) _ w(2,3)] b show ?thesis by (auto simp: Cons_eq_append_conv)
qed

text \<open>An object given a pool forgets it when it stops: started again without a DSN it creates a pool
  from the driver's defaults instead of the caller's, and no later stop ever closes that one.\<close>
theorem restart_forgets_pool:
  assumes "Database_new None (Some codecs) lo hi schema = Inr b"
  shows "db_pool (Database_open b) = Some (Supplied codecs) \<and>
    (let b1 = fst (Database_close (Database_open b))
     in db_pool (Database_open b1) = Some (Created None (pool_kwargs b)) \<and>
        snd (Database_close (Database_open b1)) = None)"
  using assms by (auto simp: Database_new_def Database_open_def Database_close_def pool_kwargs_def)

theorem restart_forgets_pool_witness:
  "\<exists>b. Database_new None (Some True) 2 10 None = Inr b \<and>
     db_pool (Database_open (fst (Database_close (Database_open b)))) = Some (Created None (pool_kwargs b))"
proof -
  obtain b where b: "Database_new None (Some True) 2 10 None = Inr b" by (simp add: Database_new_def)
  from restart_forgets_pool [OF b] b show ?thesis by (auto simp: Let_def)
qed

end
