(* ===== verification/Policies.thy ===== *)
theory Policies
  imports Lifecycle
begin

text \<open>
  What the queue policies of \<^verbatim>\<open>underboss/types.py\<close> promise, counted by the policy of the queue. The
  unique indexes look at the policy column of the jobs; \<open>insert_jobs\<close> copies the queue's policy there, the
  copies that \<open>route_to_dead_letter\<close> makes carry none. So the promise holds for every queue that no job
  names as its dead letter, whatever the nodes do, and fails for one that receives such copies.
\<close>

section \<open>Where the jobs of a table come from\<close>

lemma route_queues: "route s k rows d = Inr d' \<Longrightarrow> queues d' = queues d"
proof (induction s k rows d arbitrary: d' rule: route.induct)
  case (2 s k r rs d)
  show ?case
  proof (cases "routed r")
    case False
    with "2.prems" have r: "route s k rs d = Inr d'" by (auto simp: routed_def split: option.splits if_splits)
    show ?thesis
    proof (cases "j_dead_letter r")
      case None
      from "2.IH"(1) [OF None r] show ?thesis .
    next
      case (Some a)
      with False have "j_state r \<noteq> FAILED" by (simp add: routed_def)
      from "2.IH"(3) [OF Some this r] show ?thesis .
    qed
  next
    case True
    then obtain dlq where dlq: "j_dead_letter r = Some dlq" "j_state r = FAILED"
      by (auto simp: routed_def)
    with "2.prems" obtain d1 where d1: "route_to_dead_letter s k dlq (j_data r) (j_output r) d = Inr d1"
      "route s (Suc k) rs d1 = Inr d'" by auto
    from d1(1) have "queues d1 = queues d"
      by (auto simp: route_to_dead_letter_def Let_def split: option.splits if_splits)
    with "2.IH"(2) [OF dlq d1] show ?thesis by simp
  qed
qed simp

lemma settle_queues:
  "complete_jobs s name ids out d = Inr (d', rows) \<Longrightarrow> queues d' = queues d"
  "fail_jobs s name ids out d = Inr (d', rows) \<Longrightarrow> queues d' = queues d"
  "fail_expired_jobs s d = Inr (d', rows) \<Longrightarrow> queues d' = queues d"
  "cancel_jobs s name ids d = Inr (d', rows) \<Longrightarrow> queues d' = queues d"
  "resume_jobs s name ids d = Inr (d', rows) \<Longrightarrow> queues d' = queues d"
  "retry_jobs s name ids d = Inr (d', rows) \<Longrightarrow> queues d' = queues d"
  "fetch_next_job_at s name n gc snap d = Inr (d', rows) \<Longrightarrow> queues d' = queues d"
  by (auto simp: settle_defs fetch_next_job_at_plan claim_jobs_def dest: update_jobs_only_jobs)

lemma route_origin:
  "route s k rs d = Inr d' \<Longrightarrow> j \<in> set (jobs d') \<Longrightarrow>
   j \<in> set (jobs d) \<or> (\<exists>r\<in>set rs. j_dead_letter r = Some (j_name j) \<and> j_state r = FAILED)"
proof (induction s k rs d arbitrary: d' rule: route.induct)
  case (2 s k r rs d)
  show ?case
  proof (cases "routed r")
    case False
    with 2 show ?thesis by (auto simp: routed_def split: option.splits if_splits)
  next
    case True
    then obtain dlq where dlq: "j_dead_letter r = Some dlq" "j_state r = FAILED"
      by (auto simp: routed_def)
    with "2.prems" obtain d1 where d1: "route_to_dead_letter s k dlq (j_data r) (j_output r) d = Inr d1"
      "route s (Suc k) rs d1 = Inr d'" by auto
    have "i \<in> set (jobs d) \<or> j_name i = dlq" if "i \<in> set (jobs d1)" for i
      using d1(1) that
      by (auto simp: route_to_dead_letter_def Let_def dead_letter_row_def job_defaults_def
          dest!: find_queue_Some split: option.splits if_splits)
    with "2.IH"(2) [OF dlq d1 "2.prems"(2)] dlq show ?thesis by auto
  qed
qed simp

text \<open>The three ways a job can be in the table after a step.\<close>

definition kept :: "db \<Rightarrow> job_row \<Rightarrow> bool" where
  "kept d j \<longleftrightarrow> (\<exists>i\<in>set (jobs d). frame_of j = frame_of i)"

definition sent_from :: "db \<Rightarrow> job_row \<Rightarrow> bool" where
  "sent_from d j \<longleftrightarrow> (\<exists>q. find_queue (j_name j) d = Some q \<and> j_policy j = Some (q_policy q))"

definition dead_lettered :: "db \<Rightarrow> job_row \<Rightarrow> bool" where
  "dead_lettered d j \<longleftrightarrow> (\<exists>i\<in>set (jobs d). j_dead_letter i = Some (j_name j))"

lemma kept_all2: "list_all2 moved (jobs d) (jobs e) \<Longrightarrow> j \<in> set (jobs e) \<Longrightarrow> kept d j"
  unfolding kept_def moved_def by (drule (1) list_all2_in_right) auto

lemma kept_subset: "set rows \<subseteq> set (jobs d) \<Longrightarrow> j \<in> set rows \<Longrightarrow> kept d j"
  by (auto simp: kept_def)

lemma fail_body_origin:
  assumes "list_all2 moved (jobs d) (jobs d1)" "route s 0 rows d1 = Inr d'" "set rows \<subseteq> set (jobs d1)"
    "j \<in> set (jobs d')"
  shows "kept d j \<or> dead_lettered d j"
proof -
  from route_origin [OF assms(2,4)] show ?thesis
  proof
    assume "j \<in> set (jobs d1)"
    with kept_all2 [OF assms(1)] show ?thesis by blast
  next
    assume "\<exists>r\<in>set rows. j_dead_letter r = Some (j_name j) \<and> j_state r = FAILED"
    then obtain r where r: "r \<in> set (jobs d1)" "j_dead_letter r = Some (j_name j)" using assms(3) by blast
    from kept_all2 [OF assms(1) r(1)] obtain i where "i \<in> set (jobs d)" "frame_of r = frame_of i"
      by (auto simp: kept_def)
    with r(2) same_frame(6) [of r i] show ?thesis by (auto simp: dead_lettered_def)
  qed
qed

lemma failed_rows:
  "fail_jobs s name ids out d = Inr (d1, rows) \<Longrightarrow> set rows \<subseteq> set (jobs d1)"
  "fail_expired_jobs s d = Inr (d1, rows) \<Longrightarrow> set rows \<subseteq> set (jobs d1)"
  by (auto simp: settle_defs dest: update_jobs_returned(1))

lemma step_origin:
  assumes "step l d d'" "db_ok d" "j \<in> set (jobs d')"
  shows "kept d j \<or> sent_from d j \<or> dead_lettered d j"
proof -
  note quiet = quiet_steps [THEN kept_subset] and settled = settle_moves [THEN kept_all2]
  from assms(1) show ?thesis
  proof (cases rule: step.cases)
    case (insert s specs name ids)
    from insert(2) show ?thesis
    proof (cases rule: insert_jobs_cases)
      case no_queue
      with assms(3) show ?thesis by (auto simp: kept_def)
    next
      case (queue q rows)
      from queue(5) assms(3) consider "j \<in> set (jobs d)" | "j \<in> set rows"
        using insert_on_conflict_subset by fastforce
      then show ?thesis
      proof cases
        case 2
        from rows_of_specs_mem [OF queue(2) this] have "j_name j = q_name q" "j_policy j = Some (q_policy q)"
          using job_row_of_frame by blast+
        with find_queue_Some [OF queue(1)] queue(1) show ?thesis by (auto simp: sent_from_def)
      qed (auto simp: kept_def)
    qed
  next
    case (fail s name us out)
    then show ?thesis using assms(3) unfolding fail_by_id_commit
      by (elim exE conjE) (metis fail_body_origin settle_moves(2) failed_rows(1))
  next
    case (expire s)
    then show ?thesis using assms(3) unfolding fail_expired_commit
      by (elim exE conjE) (metis fail_body_origin settle_moves(3) failed_rows(2))
  next
    case (fetch s name n gc snap rows)
    then show ?thesis using kept_all2 [OF fetch_moves [OF assms(2)]] assms(3) by blast
  qed (use assms(3) in \<open>blast intro: quiet settled\<close>)+
qed

text \<open>A queue keeps its row, policy included, as long as it has jobs.\<close>

lemma find_append_Some: "find P xs = Some x \<Longrightarrow> find P (xs @ ys) = Some x"
  by (induction xs) auto

lemma find_queue_append: "find_queue n d = Some q \<Longrightarrow> find_queue n (d\<lparr>queues := queues d @ qs\<rparr>) = Some q"
  by (simp add: find_queue_def find_append_Some)

lemma find_filter_keep: "(\<And>x. P x \<Longrightarrow> keep x) \<Longrightarrow> find P (filter keep xs) = find P xs"
  by (induction xs) auto

lemma step_find_queue:
  assumes "step l d d'" "find_queue n d = Some q" "j \<in> set (jobs d')" "j_name j = n"
  shows "find_queue n d' = Some q"
proof -
  have same: "queues e = queues d \<Longrightarrow> find_queue n e = Some q" for e
    using assms(2) by (simp add: find_queue_def)
  from assms(1) show ?thesis
  proof (cases rule: step.cases)
    case (create_queue s name o')
    then show ?thesis using assms(2) by (auto simp: create_queue_def find_queue_append split: if_splits)
  next
    case (delete_queue name)
    with assms(3,4) have "n \<noteq> name"
      by (auto simp: delete_queue_def Let_def delete_rows_def split: if_splits)
    with delete_queue assms(2) show ?thesis
      by (auto simp: delete_queue_def Let_def delete_rows_def find_queue_def find_filter_keep split: if_splits)
  next
    case (insert s specs name ids)
    then show ?thesis by (auto elim!: insert_jobs_cases intro: same)
  next
    case (fail s name us out)
    then show ?thesis unfolding fail_by_id_commit
      by (elim exE conjE) (metis same route_queues settle_queues(2))
  next
    case (expire s)
    then show ?thesis unfolding fail_expired_commit
      by (elim exE conjE) (metis same route_queues settle_queues(3))
  qed (auto simp: delete_jobs_def delete_old_jobs_def delete_rows_def upsert_schedule_def delete_schedule_def
      try_set_cron_time_def Let_def intro!: same dest: settle_queues split: if_splits)
qed

section \<open>Jobs carry the policy of their queue\<close>

text \<open>Reached from a fresh install without any job ever naming the queue as its dead letter.\<close>

inductive untargeted :: "string \<Rightarrow> db \<Rightarrow> bool" for name where
  start: "untargeted name installed"
| next_step: "untargeted name d \<Longrightarrow> step l d d' \<Longrightarrow> \<forall>j\<in>set (jobs d'). j_dead_letter j \<noteq> Some name \<Longrightarrow>
    untargeted name d'"

lemma untargeted_reachable: "untargeted name d \<Longrightarrow> reachable d"
  by (induction rule: untargeted.induct) (auto intro: reachable_installed reachable_step)

lemma untargeted_no_target: "untargeted name d \<Longrightarrow> j \<in> set (jobs d) \<Longrightarrow> j_dead_letter j \<noteq> Some name"
  by (cases rule: untargeted.cases) (auto simp: installed_def)

lemma carried_policy:
  assumes "untargeted name d" "j \<in> set (jobs d)" "j_name j = name"
  shows "\<exists>q. find_queue name d = Some q \<and> j_policy j = Some (q_policy q)"
  using assms
proof (induction arbitrary: j rule: untargeted.induct)
  case start
  then show ?case by (simp add: installed_def)
next
  case (next_step d l d')
  have "db_ok d" using reachable_ok [OF untargeted_reachable [OF next_step(1)]] .
  from step_origin [OF next_step(2) this next_step(5)] have "\<exists>q. find_queue name d = Some q \<and> j_policy j = Some (q_policy q)"
  proof (elim disjE)
    assume "kept d j"
    then obtain i where i: "i \<in> set (jobs d)" "frame_of j = frame_of i" by (auto simp: kept_def)
    with next_step.IH [OF i(1)] next_step(6) same_frame(2,5) [OF i(2)] show ?thesis by simp
  next
    assume "sent_from d j"
    with next_step(6) show ?thesis by (simp add: sent_from_def)
  next
    assume "dead_lettered d j"
    with untargeted_no_target [OF next_step(1)] next_step(6) show ?thesis by (auto simp: dead_lettered_def)
  qed
  with step_find_queue [OF next_step(2) _ next_step(5,6)] show ?case by blast
qed

section \<open>What the policies promise\<close>

text \<open>The jobs of a queue under one singleton key.\<close>

definition queue_holders :: "db \<Rightarrow> string \<Rightarrow> string \<Rightarrow> JobState set \<Rightarrow> nat" where
  "queue_holders d name key states =
     length (filter (\<lambda>j. j_name j = name \<and> coalesce (j_singleton_key j) [] = key \<and> j_state j \<in> states) (jobs d))"

lemma queue_holders_le_1:
  assumes "untargeted name d" "find_queue name d = Some q"
    "\<And>j. job_check j \<Longrightarrow> j_name j = name \<Longrightarrow> j_policy j = Some (q_policy q) \<Longrightarrow>
       coalesce (j_singleton_key j) [] = key \<Longrightarrow> j_state j \<in> states \<Longrightarrow> index_key i j = Some k"
  shows "queue_holders d name key states \<le> 1"
proof -
  have "unique_index i (jobs d)" "\<forall>j\<in>set (jobs d). job_check j"
    using reachable_ok [OF untargeted_reachable [OF assms(1)]] by (auto simp: db_ok_def jobs_ok_def job_row_ok_def)
  then have "length (filter (\<lambda>j. index_key i j = Some k) (jobs d)) \<le> 1"
    unfolding unique_index_def distinct_map_filter_count by blast
  moreover have "index_key i j = Some k" if "j \<in> set (jobs d)" "j_name j = name"
    "coalesce (j_singleton_key j) [] = key" "j_state j \<in> states" for j
    using that carried_policy [OF assms(1) that(1,2)] assms(2,3) \<open>\<forall>j\<in>set (jobs d). job_check j\<close> by auto
  then have "queue_holders d name key states \<le> length (filter (\<lambda>j. index_key i j = Some k) (jobs d))"
    unfolding queue_holders_def by (intro length_filter_mono) blast
  ultimately show ?thesis by simp
qed

text \<open>C6. The policy of a queue holds for all its jobs, in every table that any nodes can reach, in whatever
  order they work, provided no job ever names the queue as its dead letter. Per singleton key there
  is at most one \<^verbatim>\<open>created\<close> job in a short queue, one \<^verbatim>\<open>active\<close> job in a singleton queue, one job in each
  of the three unfinished states of a stately queue, one unfinished job in an exclusive queue, and
  one active, retrying or failed job in a key_strict_fifo queue.\<close>
theorem policies_hold:
  assumes "untargeted name d" "find_queue name d = Some q"
  shows "(q_policy q = ''short'' \<longrightarrow> queue_holders d name key {CREATED} \<le> 1) \<and>
    (q_policy q = ''singleton'' \<longrightarrow> queue_holders d name key {ACTIVE} \<le> 1) \<and>
    (q_policy q = ''stately'' \<longrightarrow> queue_holders d name key {CREATED} \<le> 1 \<and>
       queue_holders d name key {RETRY} \<le> 1 \<and> queue_holders d name key {ACTIVE} \<le> 1) \<and>
    (q_policy q = ''exclusive'' \<longrightarrow> queue_holders d name key {CREATED, RETRY, ACTIVE} \<le> 1) \<and>
    (q_policy q = ''key_strict_fifo'' \<longrightarrow> queue_holders d name key {ACTIVE, RETRY, FAILED} \<le> 1)"
proof (intro conjI impI)
  note le = queue_holders_le_1 [OF assms]
  show "queue_holders d name key {CREATED} \<le> 1" if "q_policy q = ''short''"
    by (rule le [of _ _ Job_i1 "(name, None, None, key)"]) (simp add: index_defs that)
  show "queue_holders d name key {ACTIVE} \<le> 1" if "q_policy q = ''singleton''"
    by (rule le [of _ _ Job_i2 "(name, None, None, key)"]) (simp add: index_defs that)
  show "queue_holders d name key {CREATED} \<le> 1" if "q_policy q = ''stately''"
    by (rule le [of _ _ Job_i3 "(name, Some CREATED, None, key)"]) (simp add: index_defs that)
  show "queue_holders d name key {RETRY} \<le> 1" if "q_policy q = ''stately''"
    by (rule le [of _ _ Job_i3 "(name, Some RETRY, None, key)"]) (simp add: index_defs that)
  show "queue_holders d name key {ACTIVE} \<le> 1" if "q_policy q = ''stately''"
    by (rule le [of _ _ Job_i3 "(name, Some ACTIVE, None, key)"]) (simp add: index_defs that)
  show "queue_holders d name key {CREATED, RETRY, ACTIVE} \<le> 1" if "q_policy q = ''exclusive''"
    by (rule le [of _ _ Job_i6 "(name, None, None, key)"]) (auto simp: index_defs that)
  show "queue_holders d name key {ACTIVE, RETRY, FAILED} \<le> 1" if "q_policy q = ''key_strict_fifo''"
    by (rule le [of _ _ Job_i8 "(name, None, None, key)"]) (auto simp: index_defs job_check_def that)
qed

text \<open>A run in which no job has a dead letter at all, decided from its tables.\<close>

lemma untargeted_step:
  assumes "untargeted name d" "step l d d'" "list_all (\<lambda>j. j_dead_letter j = None) (jobs d')"
  shows "untargeted name d'"
  using assms by (auto simp: list_all_iff intro: untargeted.next_step)

lemma run_sample_untargeted:
  assumes "run_sample policy = Inr d" "list_all (\<lambda>j. j_dead_letter j = None) (jobs d)"
  shows "untargeted name d"
proof -
  from assms(1) obtain d1 d2 ids rows
    where 1: "create_queue sample_pg ''q'' (JObj [(''policy'', JStr policy)]) installed = Inr d1"
    and 2: "insert_jobs sample_pg [JObj []] ''q'' d1 = Inr (d2, ids)"
    and 3: "fetch_next_job_at sample_pg ''q'' 1 None d2 d2 = Inr (d, rows)"
    by (auto simp: run_sample_def fetch_next_job_def)
  from 1 have j1: "jobs d1 = []" by (auto simp: create_queue_def installed_def split: if_splits)
  have ok: "db_ok d2"
    using reachable_ok [OF reachable_step [OF reachable_step [OF reachable_installed step.create_queue [OF 1]] step.insert [OF 2]]] .
  have "j_dead_letter j = None" if j: "j \<in> set (jobs d2)" for j
  proof -
    from list_all2_in_left [OF fetch_moves [OF ok 3] j] obtain j' where "j' \<in> set (jobs d)" "moved j j'" by blast
    with assms(2) show ?thesis using same_frame(6) [of j' j] by (auto simp: moved_def list_all_iff)
  qed
  then have "list_all (\<lambda>j. j_dead_letter j = None) (jobs d2)" by (simp add: list_all_iff)
  moreover have "untargeted name d1"
    by (rule untargeted_step [OF untargeted.start step.create_queue [OF 1]]) (simp add: j1)
  ultimately have "untargeted name d2" using untargeted_step [OF _ step.insert [OF 2]] by blast
  from untargeted_step [OF this step.fetch [OF 3] assms(2)] show ?thesis .
qed

theorem policies_hold_witness:
  "\<exists>d. run_sample ''exclusive'' = Inr d \<and> queue_holders d ''q'' [] {CREATED, RETRY, ACTIVE} = 1"
proof -
  have "case run_sample ''exclusive'' of Inl e \<Rightarrow> False
    | Inr d \<Rightarrow> 1 \<le> queue_holders d ''q'' [] {CREATED, RETRY, ACTIVE} \<and>
        list_all (\<lambda>j. j_dead_letter j = None) (jobs d) \<and>
        map_option q_policy (find_queue ''q'' d) = Some ''exclusive''" by code_simp
  then obtain d q where d: "run_sample ''exclusive'' = Inr d" "list_all (\<lambda>j. j_dead_letter j = None) (jobs d)"
    "1 \<le> queue_holders d ''q'' [] {CREATED, RETRY, ACTIVE}" "find_queue ''q'' d = Some q" "q_policy q = ''exclusive''"
    by (auto split: sum.splits)
  from policies_hold [OF run_sample_untargeted [OF d(1,2)] d(4), of "[]"] d show ?thesis by auto
qed

section \<open>What they do not promise\<close>

text \<open>The short policy promises less than its description: at most one job \<^verbatim>\<open>queued\<close>. The index
  counts only \<^verbatim>\<open>created\<close> jobs, so a job waiting for its retry and a fresh one are queued together:
  send, fetch, fail and send again reach a table with two queued jobs of one short queue.\<close>
theorem short_queues_two:
  "\<exists>d. reachable d \<and> map_option q_policy (find_queue ''q'' d) = Some ''short'' \<and>
     queue_holders d ''q'' [] {CREATED, RETRY} = 2"
proof -
  let ?s2 = "sample_pg\<lparr>pg_gen_uuid := (+) 2000\<rparr>"
  let ?fail = "fail_by_id sample_pg ''q'' [1000] []"
  let ?run = "bindr (run_sample ''short'') (\<lambda>d. bindr (fst (?fail d)) (\<lambda>u.
    bindr (insert_jobs ?s2 [JObj []] ''q'' (snd (?fail d))) (\<lambda>(d', ids). Inr d')))"
  have "case ?run of Inl e \<Rightarrow> False
    | Inr d \<Rightarrow> map_option q_policy (find_queue ''q'' d) = Some ''short'' \<and>
        queue_holders d ''q'' [] {CREATED, RETRY} = 2" by code_simp
  then obtain d where d: "?run = Inr d" "map_option q_policy (find_queue ''q'' d) = Some ''short''"
    "queue_holders d ''q'' [] {CREATED, RETRY} = 2"
    by (auto split: sum.splits)
  from d(1) obtain d0 ids where 1: "run_sample ''short'' = Inr d0" and 2: "fst (?fail d0) = Inr ()"
    and 3: "insert_jobs ?s2 [JObj []] ''q'' (snd (?fail d0)) = Inr (d, ids)"
    by auto
  from 2 have "?fail d0 = (Inr (), snd (?fail d0))" by (simp add: prod_eq_iff)
  from reachable_step [OF run_sample_reachable [OF 1] step.fail [OF this]]
  have "reachable (snd (?fail d0))" .
  from reachable_step [OF this step.insert [OF 3]] d(2,3) show ?thesis by blast
qed

text \<open>A dead-letter queue escapes its own policy: the copies carry no policy, so no index sees them. Two
  jobs that fail leave two queued jobs in an exclusive queue.\<close>

definition dead_letter_run :: "db_error + db" where
  "dead_letter_run =
     bindr (create_queue sample_pg ''dead'' (JObj [(''policy'', JStr ''exclusive'')]) installed) (\<lambda>d1.
     bindr (create_queue sample_pg ''q'' (JObj [(''policy'', JStr ''standard''), (''retryLimit'', JNum 0),
       (''deadLetter'', JStr ''dead'')]) d1) (\<lambda>d2.
     bindr (insert_jobs sample_pg [JObj [], JObj []] ''q'' d2) (\<lambda>(d3, ids).
     bindr (fetch_next_job sample_pg ''q'' 2 None d3) (\<lambda>(d4, rows).
     bindr (fst (fail_by_id (sample_pg\<lparr>pg_gen_uuid := (+) 2000\<rparr>) ''q'' [1000, 1001] [] d4)) (\<lambda>u.
       Inr (snd (fail_by_id (sample_pg\<lparr>pg_gen_uuid := (+) 2000\<rparr>) ''q'' [1000, 1001] [] d4)))))))"

lemma dead_letter_run_reachable:
  assumes "dead_letter_run = Inr d"
  shows "reachable d"
proof -
  let ?fail = "fail_by_id (sample_pg\<lparr>pg_gen_uuid := (+) 2000\<rparr>) ''q'' [1000, 1001] []"
  from assms obtain d1 d2 d3 ids d4 rows
    where 1: "create_queue sample_pg ''dead'' (JObj [(''policy'', JStr ''exclusive'')]) installed = Inr d1"
    and 2: "create_queue sample_pg ''q'' (JObj [(''policy'', JStr ''standard''), (''retryLimit'', JNum 0),
      (''deadLetter'', JStr ''dead'')]) d1 = Inr d2"
    and 3: "insert_jobs sample_pg [JObj [], JObj []] ''q'' d2 = Inr (d3, ids)"
    and 4: "fetch_next_job_at sample_pg ''q'' 2 None d3 d3 = Inr (d4, rows)"
    and 5: "?fail d4 = (Inr (), d)"
    by (auto simp: dead_letter_run_def fetch_next_job_def prod_eq_iff)
  from reachable_step [OF reachable_installed step.create_queue [OF 1]] have "reachable d1" .
  from reachable_step [OF this step.create_queue [OF 2]] have "reachable d2" .
  from reachable_step [OF this step.insert [OF 3]] have "reachable d3" .
  from reachable_step [OF this step.fetch [OF 4]] have "reachable d4" .
  from reachable_step [OF this step.fail [OF 5]] show ?thesis .
qed

theorem dead_letters_escape_policy:
  "\<exists>d. reachable d \<and> map_option q_policy (find_queue ''dead'' d) = Some ''exclusive'' \<and>
     queue_holders d ''dead'' [] {CREATED, RETRY, ACTIVE} = 2"
proof -
  have "case dead_letter_run of Inl e \<Rightarrow> False
    | Inr d \<Rightarrow> map_option q_policy (find_queue ''dead'' d) = Some ''exclusive'' \<and>
        queue_holders d ''dead'' [] {CREATED, RETRY, ACTIVE} = 2" by code_simp
  then show ?thesis by (auto dest: dead_letter_run_reachable split: sum.splits)
qed

end
