(* ===== verification/Program.thy ===== *)
theory Program
  imports Underboss_Object Policies
begin

text \<open>
  The program as a whole: what any number of \<open>Underboss\<close> objects, their callers, workers, schedulers
  and maintenance loops make of one installed schema. \<open>prog\<close> is that relation, one rule per public
  operation and per turn of a background loop; a handler is itself a program. Every relation with
  the contract \<open>runs\<close> contains it. Two instances are the refinement of the abstract job lifecycle and
  the typing of the queue rows.
\<close>

section \<open>Everything the program does\<close>

text \<open>
  A program is labelled by its trace: the statements it issues on the shared tables, in order. A
  statement that is refused, or whose connection fails, stays in the trace and changes nothing. The
  trace of a worker's turn follows the code: the fetch, what the handler does with the batch, and
  then the one statement that settles it, if any.
\<close>

definition turn_trace ::
  "(Job list \<Rightarrow> db \<Rightarrow> op list) \<Rightarrow> Database \<Rightarrow> WorkOptions \<Rightarrow> handler \<Rightarrow> string \<Rightarrow> turn \<Rightarrow> db \<Rightarrow> op list" where
  "turn_trace ht pool options h name t d =
     OpFetch #
     (if tn_fetch_reply t \<noteq> Answered then []
      else case worker_fetch options name t d of
        Inl e \<Rightarrow> []
      | Inr (d1, rows) \<Rightarrow>
          if rows = [] then []
          else let js = jobs_of pool options t rows
               in ht js d1 @ (case fst (h js d1) of Returned v \<Rightarrow> [OpComplete] | Raised m ty \<Rightarrow> [OpFail] | _ \<Rightarrow> []))"

inductive prog :: "op list \<Rightarrow> db \<Rightarrow> db \<Rightarrow> bool" where
  idle: "prog [] d d"
| seq: "prog tr d d1 \<Longrightarrow> prog tr' d1 d2 \<Longrightarrow> prog (tr @ tr') d d2"
| create_queue: "prog [OpCreateQueue] d (snd (boss_create_queue (b :: underboss) s c name qopts d))"
| send: "prog [OpInsert] d (snd (boss_send (b :: underboss) s c name data sopts d))"
| insert: "prog [OpInsert] d (snd (boss_insert (b :: underboss) s c name js d))"
| fetch: "prog [OpFetch] d (snd (boss_fetch (b :: underboss) s name n m gc d))"
| get_job: "prog [] d (snd (boss_get_job (b :: underboss) s name i d))"
| complete: "prog [OpComplete] d (snd (boss_complete (b :: underboss) s name i out d))"
| cancel: "prog [OpCancel] d (snd (boss_cancel (b :: underboss) s name i d))"
| resume: "prog [OpResume] d (snd (boss_resume (b :: underboss) s name i d))"
| retry: "prog [OpRetry] d (snd (boss_retry (b :: underboss) s name i d))"
| delete_job: "prog [OpDelete] d (snd (boss_delete_job (b :: underboss) s name i d))"
| get_queue: "prog [] d (snd (boss_get_queue (b :: underboss) name d))"
| get_queues: "prog [] d (snd (boss_get_queues (b :: underboss) d))"
| schedule: "prog [OpSchedule] d (snd (underboss_schedule lib b s name cron data key tz d))"
| unschedule: "prog [OpUnschedule] d (snd (underboss_unschedule b name key d))"
| start: "version_table_exists cat \<Longrightarrow> underboss_start tr s b cat d = (r, b', cat', d') \<Longrightarrow>
    prog [OpCreateQueue] d d'"
| worker: "\<forall>js d. prog (ht js d) d (snd (h js d)) \<Longrightarrow> worker_turn pool options h name t w d = (w', r, d') \<Longrightarrow>
    prog (turn_trace ht pool options h name t d) d d'"
| tick: "prog (OpTick # replicate (length (schedules d)) OpInsert) d
    (snd (scheduler_tick lib (ub_db b) (boss_sender (b :: underboss)) s env interval d))"
| maintain: "prog [OpExpire, OpDeleteOld] d (snd (sweep s1 s2 d))"

text \<open>The loops are programs: the send-it handler, a worker's run, a scheduler's and a maintenance loop's.\<close>

lemma prog_boss_sender: "prog [OpInsert] d (snd (boss_sender (b :: underboss) s name data options d))"
  by (simp add: boss_sender_def prog.send)

lemma prog_send_all: "\<exists>tr. set tr \<subseteq> {OpInsert} \<and> prog tr d (send_all (boss_sender (b :: underboss)) env k js d)"
proof (induction js arbitrary: k d)
  case Nil
  then show ?case by (auto intro: exI [of _ "[]"] prog.idle)
next
  case (Cons j js)
  show ?case
  proof (cases "open_envelope (job_data j)")
    case (Inl e)
    with Cons show ?thesis by simp
  next
    case (Inr x)
    obtain name data where x: "x = (name, data)" by (cases x)
    let ?d1 = "snd (boss_sender b (env k) name data None d)"
    from Cons obtain tr where tr: "set tr \<subseteq> {OpInsert}" "prog tr ?d1 (send_all (boss_sender b) env (Suc k) js ?d1)"
      by blast
    from prog.seq [OF prog_boss_sender tr(2)] tr(1) Inr x show ?thesis by (intro exI [of _ "[OpInsert] @ tr"]) simp
  qed
qed

lemma prog_on_send_it: "\<exists>tr. set tr \<subseteq> {OpInsert} \<and> prog tr d (snd (on_send_it (boss_sender (b :: underboss)) env js d))"
  by (simp add: on_send_it_def prog_send_all)

lemma prog_worker_run:
  assumes "\<forall>js d. prog (ht js d) d (snd (h js d))" "\<forall>t\<in>set ts. \<forall>d. \<exists>tr. prog tr d (tn_others t d)"
  shows "worker_run pool options h name ts w d = (w', ps, d') \<Longrightarrow> \<exists>tr. prog tr d d'"
  using assms(2)
proof (induction ts arbitrary: w d w' ps d')
  case Nil
  then show ?case by (auto intro: prog.idle)
next
  case (Cons t ts)
  let ?w = "worker_signals t w" and ?d = "tn_others t d"
  obtain tr0 where others: "prog tr0 d ?d" using Cons.prems(2) by (meson list.set_intros(1))
  obtain w1 r d1 where turn: "worker_turn pool options h name t ?w ?d = (w1, r, d1)" by (metis prod_cases3)
  obtain w2 ps2 d2 where rest: "worker_run pool options h name ts w1 d1 = (w2, ps2, d2)" by (metis prod_cases3)
  from prog.seq [OF others prog.worker [OF assms(1) turn]] have d1: "\<exists>tr. prog tr d d1" by blast
  moreover from Cons.IH [OF rest] Cons.prems(2) have "\<exists>tr. prog tr d1 d2" by simp
  ultimately have "\<exists>tr. prog tr d d2" using prog.seq by blast
  with d1 others show ?case
    using Cons.prems(1) turn rest by (auto simp: Let_def split: if_splits sum.splits)
qed

lemma prog_scheduler_run:
  "\<exists>tr. prog tr d (scheduler_run lib (ub_db b) (boss_sender (b :: underboss)) interval stopping turns d)"
proof (induction turns arbitrary: stopping d)
  case Nil
  then show ?case by (auto intro: prog.idle)
next
  case (Cons t turns)
  obtain s env stop where t: "t = (s, env, stop)" by (cases t)
  from Cons obtain tr where "prog tr (snd (scheduler_tick lib (ub_db b) (boss_sender b) s env interval d))
      (scheduler_run lib (ub_db b) (boss_sender b) interval stop turns
        (snd (scheduler_tick lib (ub_db b) (boss_sender b) s env interval d)))" by blast
  from prog.seq [OF prog.tick this] show ?case by (auto simp: t intro: prog.idle)
qed

lemma prog_maintenance_run: "\<exists>tr. set tr \<subseteq> {OpExpire, OpDeleteOld} \<and> prog tr d (maintenance_run stopping turns d)"
proof (induction stopping turns d rule: maintenance_run.induct)
  case (1 stopping d)
  then show ?case by (auto intro: exI [of _ "[]"] prog.idle)
next
  case (2 stopping s1 s2 stop turns d)
  show ?case
  proof (cases stopping)
    case True
    then show ?thesis by (auto intro: exI [of _ "[]"] prog.idle)
  next
    case False
    with 2 obtain tr where tr: "set tr \<subseteq> {OpExpire, OpDeleteOld}"
      "prog tr (snd (sweep s1 s2 d)) (maintenance_run stop turns (snd (sweep s1 s2 d)))" by blast
    from prog.seq [OF prog.maintain tr(2)] tr(1) False show ?thesis
      by (intro exI [of _ "[OpExpire, OpDeleteOld] @ tr"]) simp
  qed
qed

section \<open>Every program satisfies the contract\<close>

context runs
begin

lemma sweep_runs: "R d (snd (sweep s1 s2 d))"
proof -
  have "R d' (delete_old_jobs s2 d')" for d' by (rule R_step [OF step.delete_old]) simp
  then show ?thesis
    using fail_expired_runs [of d s1] by (auto simp: sweep_def split: prod.split sum.split intro: R_trans)
qed

lemma sendit_queue_policy:
  "arrow_text s (JObj [(''policy'', JStr ''standard'')]) ''policy'' = Some (QueuePolicy_value STANDARD)"
  by (simp add: arrow_text_JObj)

lemma scheduler_start_runs: "R d (snd (scheduler_start b relations s sd d))"
proof -
  have "R d (snd (execute b False (on_relation relations ''queue''
      (no_rows (create_queue s SEND_IT_QUEUE (JObj [(''policy'', JStr ''standard'')])))) d))"
    by (rule execute_runs) (auto simp: on_relation_def no_rows_def intro: R_create [OF _ sendit_queue_policy] split: if_splits)
  then show ?thesis by (auto simp: scheduler_start_def split: prod.split sum.split)
qed

lemma underboss_start_runs:
  assumes "version_table_exists cat" "underboss_start tr s b cat d = (r, b', cat', d')"
  shows "R d d'"
proof -
  have "R d (snd (snd (start_background relations s b0 d)))" for relations b0
  proof (cases "ub_scheduler b0")
    case None
    then show ?thesis by (simp add: start_background_def R_refl)
  next
    case (Some sd)
    with scheduler_start_runs [of d "ub_db b0" relations s sd] show ?thesis
      by (auto simp: start_background_def split: prod.split sum.split)
  qed
  with assms show ?thesis
    by (auto simp: underboss_start_def Let_def R_refl split: prod.splits sum.splits) (metis snd_conv)
qed

lemma schedule_runs:
  "R d (snd (underboss_schedule lib b s name cron data key tz d))"
  "R d (snd (underboss_unschedule b name key d))"
proof -
  have "R d (snd (execute (ub_db b) False
      (no_rows (upsert_schedule s name key cron tz data' options')) d))" for data' options'
    by (rule execute_runs) (auto simp: no_rows_def intro: R_step [OF step.schedule])
  then have "R d (snd (scheduler_upsert lib (ub_db b) s name key cron tz data d))"
    by (auto simp: scheduler_upsert_def R_refl split: prod.split sum.split) (metis snd_conv)+
  then show "R d (snd (underboss_schedule lib b s name cron data key tz d))"
    by (auto simp: underboss_schedule_def R_refl intro: require_started_runs)
  have "R d (snd (scheduler_delete (ub_db b) name key d))"
    unfolding scheduler_delete_def by (rule execute_runs) (auto intro: R_step [OF step.unschedule])
  then show "R d (snd (underboss_unschedule b name key d))"
    by (auto simp: underboss_unschedule_def R_refl intro: require_started_runs)
qed

lemma prog_runs: "prog tr d d' \<Longrightarrow> R d d'"
proof (induction rule: prog.induct)
  case (worker ht h pool options name t w d w' r d')
  have "job_handler R h" by unfold_locales (use worker(1) in blast)
  from job_handler.turn_runs [OF this worker(2)] show ?case .
next
  case (start cat tr s b d r b' cat' d')
  then show ?case by (rule underboss_start_runs)
next
  case (tick d lib b s env interval)
  show ?case by (rule sender.tick_runs [OF sender_boss])
qed (auto intro: R_refl create_queue_runs boss_calls_run schedule_runs sweep_runs R_trans)

end

text \<open>
  So everything proved of reachable tables, the policies, the references, the throttling, holds of
  the tables a program makes of a fresh install.
\<close>

lemma prog_reachable: "prog tr installed d \<Longrightarrow> reachable d"
  unfolding reachable_def by (rule run.prog_runs)

section \<open>The trace is what happens\<close>

text \<open>One statement of a trace: a step with its label, or nothing.\<close>

definition does :: "op \<Rightarrow> db \<Rightarrow> db \<Rightarrow> bool" where
  "does l d d' \<longleftrightarrow> d' = d \<or> step l d d'"

inductive traced :: "op list \<Rightarrow> db \<Rightarrow> db \<Rightarrow> bool" where
  empty: "traced [] d d"
| more: "does l d d1 \<Longrightarrow> traced tr d1 d2 \<Longrightarrow> traced (l # tr) d d2"

inductive_cases traced_ConsE: "traced (l # tr) d d'"

lemma traced_append: "traced tr d d1 \<Longrightarrow> traced tr' d1 d2 \<Longrightarrow> traced (tr @ tr') d d2"
  by (induction rule: traced.induct) (auto intro: traced.more)

lemma traced_one: "does l d d' \<Longrightarrow> traced [l] d d'"
  by (rule traced.more [OF _ traced.empty])

lemma does_nothing: "does l d d"
  by (simp add: does_def)

lemma traced_nothing: "traced tr d d"
  by (induction tr) (auto intro: traced.intros does_nothing)

lemma execute_does: "(\<And>d' x. f d = Inr (d', x) \<Longrightarrow> step l d d') \<Longrightarrow> does l d (snd (execute b c f d))"
  by (cases "execute b c f d") (auto elim: execute_cases simp: does_def)

lemma require_started_does: "does l d (snd r) \<Longrightarrow> does l d (snd (require_started b r d))"
  by (simp add: require_started_def does_nothing)

lemma calls_do:
  "does OpCreateQueue d (snd (boss_create_queue b s c name qopts d))"
  "does OpInsert d (snd (boss_send b s c name data sopts d))"
  "does OpInsert d (snd (boss_insert b s c name js d))"
  "does OpComplete d (snd (boss_complete b s name i out d))"
  "does OpCancel d (snd (boss_cancel b s name i d))"
  "does OpResume d (snd (boss_resume b s name i d))"
  "does OpRetry d (snd (boss_retry b s name i d))"
  "does OpDelete d (snd (boss_delete_job b s name i d))"
  by (auto simp: boss_calls no_rows_def Let_def
      intro!: require_started_does execute_does intro: step.intros)

lemma fetch_does: "does OpFetch d (snd (boss_fetch b s name n m gc d))"
proof -
  have "does OpFetch d (snd (execute (ub_db b) False (fetch_next_job s name n gc) d))"
    by (rule execute_does) (unfold fetch_next_job_def, rule step.fetch)
  then show ?thesis by (auto simp: boss_fetch_def intro: require_started_does)
qed

lemma reads_do_nothing:
  "snd (boss_get_job b s name i d) = d" "snd (boss_get_queue b name d) = d" "snd (boss_get_queues b d) = d"
  by (auto simp: boss_calls reading_def require_started_def execute_def split: sum.splits)

lemma schedule_does:
  "does OpSchedule d (snd (underboss_schedule lib b s name cron data key tz d))"
  "does OpUnschedule d (snd (underboss_unschedule b name key d))"
proof -
  have "does OpSchedule d (snd (execute (ub_db b) False
      (no_rows (upsert_schedule s name key cron tz data' options')) d))" for data' options'
    by (rule execute_does) (auto simp: no_rows_def intro: step.schedule)
  then have "does OpSchedule d (snd (scheduler_upsert lib (ub_db b) s name key cron tz data d))"
    by (auto simp: scheduler_upsert_def does_nothing split: prod.split sum.split) (metis snd_conv)+
  then show "does OpSchedule d (snd (underboss_schedule lib b s name cron data key tz d))"
    by (auto simp: underboss_schedule_def does_nothing intro: require_started_does)
  have "does OpUnschedule d (snd (scheduler_delete (ub_db b) name key d))"
    unfolding scheduler_delete_def by (rule execute_does) (auto intro: step.unschedule)
  then show "does OpUnschedule d (snd (underboss_unschedule b name key d))"
    by (auto simp: underboss_unschedule_def does_nothing intro: require_started_does)
qed

lemma start_does:
  assumes "version_table_exists cat" "underboss_start tr s b cat d = (r, b', cat', d')"
  shows "does OpCreateQueue d d'"
proof -
  have "does OpCreateQueue d (snd (scheduler_start b0 relations s sd d))" for b0 relations sd
  proof -
    have "does OpCreateQueue d (snd (execute b0 False (on_relation relations ''queue''
        (no_rows (create_queue s SEND_IT_QUEUE (JObj [(''policy'', JStr ''standard'')])))) d))"
      by (rule execute_does) (auto simp: on_relation_def no_rows_def intro: step.create_queue split: if_splits)
    then show ?thesis by (auto simp: scheduler_start_def split: prod.split sum.split)
  qed
  then have "does OpCreateQueue d (snd (snd (start_background relations s b0 d)))" for relations b0
    by (auto simp: start_background_def does_nothing split: option.split prod.split sum.split) (metis snd_conv)+
  with assms show ?thesis
    by (auto simp: underboss_start_def Let_def does_nothing split: prod.splits sum.splits) (metis snd_conv)
qed

lemma settle_does:
  "does OpComplete d (snd (worker_complete t name us out d))"
  "does OpFail d (snd (worker_fail t name us kvs d))"
proof -
  show "does OpComplete d (snd (worker_complete t name us out d))"
    by (auto simp: worker_complete_def does_def intro: step.complete split: sum.split)
  have "fail_by_id s name us kvs d = (r, d') \<Longrightarrow> does OpFail d d'" for s r d'
    by (cases r) (auto simp: does_def fail_by_id_def elim: transaction_cases
        intro: step.fail [unfolded fail_by_id_def])
  then have "does OpFail d (snd (fail_by_id s name us kvs d))" for s by (metis prod.collapse)
  then show "does OpFail d (snd (worker_fail t name us kvs d))"
    by (simp add: worker_fail_def does_nothing)
qed

lemma turn_traced:
  assumes "\<And>js d. traced (ht js d) d (snd (h js d))" "worker_turn pool options h name t w d = (w', r, d')"
  shows "traced (turn_trace ht pool options h name t d) d d'"
proof (cases "tn_fetch_reply t = Answered \<and> (\<exists>d1 rows. worker_fetch options name t d = Inr (d1, rows) \<and> rows \<noteq> [])")
  case True
  then obtain d1 rows where reply: "tn_fetch_reply t = Answered" and fetch: "worker_fetch options name t d = Inr (d1, rows)"
    and rows: "rows \<noteq> []" by blast
  let ?js = "jobs_of pool options t rows"
  let ?settle = "case fst (h ?js d1) of Returned v \<Rightarrow> [OpComplete] | Raised m ty \<Rightarrow> [OpFail] | _ \<Rightarrow> []"
  have d': "d' = snd (worker_process pool options h name t rows d1)"
    using assms(2) reply fetch rows by (auto simp: worker_turn_def Let_def split: prod.splits sum.splits)
  have "traced ?settle (snd (h ?js d1)) d'"
    unfolding d' worker_process_jobs
    by (cases "h ?js d1") (auto intro: traced_one settle_does traced.empty split: handler_result.split)
  with assms(1) have "traced (ht ?js d1 @ ?settle) d1 d'" by (rule traced_append)
  moreover have "does OpFetch d d1"
    using fetch by (auto simp: worker_fetch_def fetch_next_job_def does_def intro: step.fetch)
  ultimately show ?thesis using reply fetch rows by (simp add: turn_trace_def Let_def traced.more)
next
  case False
  then have "turn_trace ht pool options h name t d = [OpFetch]"
    by (auto simp: turn_trace_def split: sum.split prod.split)
  moreover have "does OpFetch d d'"
    using assms(2) False
    by (auto simp: worker_turn_def Let_def does_def worker_fetch_def fetch_next_job_def intro: step.fetch
        split: sum.splits prod.splits if_splits)
  ultimately show ?thesis by (simp add: traced_one)
qed

lemma enqueue_traced:
  "traced (replicate (length rows) OpInsert) d (snd (enqueue_due lib (boss_sender b) env k rows d))"
proof (induction rows arbitrary: k d)
  case Nil
  then show ?case by (simp add: traced.empty)
next
  case (Cons row rows)
  let ?r = "boss_sender b (fst (env k)) SEND_IT_QUEUE (Some (envelope row)) (Some (sendit_options row)) d"
  have sent: "does OpInsert d (snd ?r)" by (simp add: boss_sender_def calls_do)
  note stop = traced_nothing [of "replicate (length rows) OpInsert"]
  from Cons show ?case
    by (cases ?r; cases "fst ?r"; cases "should_send lib (snd (env k)) (sch_cron row) (sch_timezone row)")
      (use sent in \<open>auto intro: traced.more stop does_nothing\<close>)
qed

lemma tick_traced:
  "traced (OpTick # replicate (length (schedules d)) OpInsert) d
    (snd (scheduler_tick lib pool (boss_sender b) s env interval d))"
proof -
  obtain d1 won where won: "try_set_cron_time s interval d = (d1, won)" by (cases "try_set_cron_time s interval d")
  then have "does OpTick d d1" using step.tick [of d s interval] by (simp add: does_def)
  moreover have "schedules d1 = schedules d"
    using won by (auto simp: try_set_cron_time_def Let_def split: if_splits)
  then have "length (get_schedules d1) = length (schedules d)" by (simp add: get_schedules_def)
  then have "traced (replicate (length (schedules d)) OpInsert) d1
      (snd (enqueue_due lib (boss_sender b) env 0 (map (received_schedule pool s) (get_schedules d1)) d1))"
    using enqueue_traced [of "map (received_schedule pool s) (get_schedules d1)" d1 lib b env 0] by simp
  ultimately show ?thesis
    by (auto simp: scheduler_tick_def won intro: traced.more traced_nothing)
qed

lemma sweep_traced: "traced [OpExpire, OpDeleteOld] d (snd (sweep s1 s2 d))"
proof (cases "fail_expired s1 d")
  case (Pair r d1)
  then have "does OpExpire d d1"
    by (cases r) (auto simp: does_def fail_expired_def elim: transaction_cases
        intro: step.expire [unfolded fail_expired_def])
  moreover have "does OpDeleteOld d1 (snd (sweep s1 s2 d))" 
    using Pair step.delete_old [of d1 s2] by (auto simp: sweep_def does_def split: sum.split)
  ultimately show ?thesis by (blast intro: traced.intros)
qed

lemma prog_traced: "prog tr d d' \<Longrightarrow> traced tr d d'"
proof (induction rule: prog.induct)
  case (worker ht h pool options name t w d w' r d')
  then show ?case by (intro turn_traced) auto
qed (auto simp: reads_do_nothing intro: traced.empty traced_append traced_one calls_do fetch_does schedule_does start_does
    tick_traced sweep_traced)

end
