(* ===== verification/Refinement.thy ===== *)
theory Refinement
  imports Program
begin

text \<open>
  What the whole program promises. The abstract specification is an automaton on the states of the
  jobs alone, labelled by the operations: each label says which moves of a job it may make. The
  program refines it trace for trace: every trace of a program is a run of the automaton from the
  states before to the states after. A second relation says that all queue rows keep one of the six
  policies, so reading queues back never fails.
\<close>

section \<open>The abstract job automaton\<close>

text \<open>What one operation may do to one job; \<open>None\<close> is a job that is not there.\<close>

inductive job_step :: "op \<Rightarrow> JobState option \<Rightarrow> JobState option \<Rightarrow> bool" where
  keep: "job_step l x x"
| enqueue: "job_step OpInsert None (Some CREATED)"
| claim: "a < ACTIVE \<Longrightarrow> job_step OpFetch (Some a) (Some ACTIVE)"
| complete: "job_step OpComplete (Some ACTIVE) (Some COMPLETED)"
| retry: "l \<in> {OpFail, OpExpire} \<Longrightarrow> job_step l (Some ACTIVE) (Some RETRY)"
| exhaust: "l \<in> {OpFail, OpExpire} \<Longrightarrow> job_step l (Some ACTIVE) (Some FAILED)"
| dead_letter: "l \<in> {OpFail, OpExpire} \<Longrightarrow> job_step l None (Some CREATED)"
| cancel: "a < COMPLETED \<Longrightarrow> job_step OpCancel (Some a) (Some CANCELLED)"
| resume: "job_step OpResume (Some CANCELLED) (Some CREATED)"
| requeue: "job_step OpRetry (Some FAILED) (Some RETRY)"
| remove: "l \<in> {OpDelete, OpDeleteOld, OpDeleteQueue} \<Longrightarrow> job_step l (Some a) None"

inductive_simps job_step_COMPLETED: "job_step l (Some COMPLETED) x"
inductive_simps job_step_None: "job_step l None x"
inductive_simps job_step_insert: "job_step OpInsert x y"

text \<open>
  One operation on all jobs at once. A dead-letter copy appears only when a job is exhausted in the
  same operation.
\<close>

definition lifecycle :: "op \<Rightarrow> ('k \<Rightarrow> JobState option) \<Rightarrow> ('k \<Rightarrow> JobState option) \<Rightarrow> bool" where
  "lifecycle l m m' \<longleftrightarrow>
     (\<forall>k. job_step l (m k) (m' k)) \<and>
     (l \<noteq> OpInsert \<and> (\<exists>k. m k = None \<and> m' k \<noteq> None) \<longrightarrow> (\<exists>k. m k = Some ACTIVE \<and> m' k = Some FAILED))"

lemma lifecycleI:
  assumes "\<And>k. job_step l (m k) (m' k)"
    "\<And>k. m k = None \<Longrightarrow> m' k \<noteq> None \<Longrightarrow> l \<noteq> OpInsert \<Longrightarrow> \<exists>k. m k = Some ACTIVE \<and> m' k = Some FAILED"
  shows "lifecycle l m m'"
  unfolding lifecycle_def using assms by blast

inductive lifecycle_run :: "op list \<Rightarrow> ('k \<Rightarrow> JobState option) \<Rightarrow> ('k \<Rightarrow> JobState option) \<Rightarrow> bool" where
  empty: "lifecycle_run [] m m"
| more: "lifecycle l m m1 \<Longrightarrow> lifecycle_run tr m1 m2 \<Longrightarrow> lifecycle_run (l # tr) m m2"

text \<open>What the automaton says of a whole trace: a completed job stays completed until it is removed.\<close>

definition removals :: "op set" where
  "removals = {OpDelete, OpDeleteOld, OpDeleteQueue}"

lemma run_keeps_completed:
  "lifecycle_run tr m m' \<Longrightarrow> set tr \<inter> removals = {} \<Longrightarrow> m k = Some COMPLETED \<Longrightarrow> m' k = Some COMPLETED"
proof (induction rule: lifecycle_run.induct)
  case (more l m m1 tr m2)
  then have "job_step l (Some COMPLETED) (m1 k)" by (metis lifecycle_def)
  with more show ?case by (auto simp: job_step_COMPLETED removals_def)
qed simp

text \<open>The abstraction of the tables.\<close>

definition job_states :: "db \<Rightarrow> string \<times> uuid \<Rightarrow> JobState option" where
  "job_states d = map_of (map (\<lambda>j. (job_pk j, j_state j)) (jobs d))"

lemma job_states_Some:
  assumes "distinct (map job_pk (jobs d))"
  shows "job_states d k = Some st \<longleftrightarrow> (\<exists>j\<in>set (jobs d). job_pk j = k \<and> j_state j = st)"
  using assms by (auto simp: job_states_def comp_def)

lemma job_states_None: "job_states d k = None \<longleftrightarrow> k \<notin> job_pk ` set (jobs d)"
  by (simp add: job_states_def map_of_eq_None_iff image_image)

lemma job_states_same: "jobs d' = jobs d \<Longrightarrow> job_states d' = job_states d"
  by (simp add: job_states_def)

section \<open>One statement refines it\<close>

text \<open>An UPDATE: no job appears or disappears.\<close>

definition set_steps :: "op \<Rightarrow> (job_row \<Rightarrow> bool) \<Rightarrow> (job_row \<Rightarrow> db_error + job_row) \<Rightarrow> bool" where
  "set_steps l sel upd \<longleftrightarrow>
     (\<forall>j j'. sel j \<longrightarrow> upd j = Inr j' \<longrightarrow> frame_of j' = frame_of j \<and> job_step l (Some (j_state j)) (Some (j_state j')))"

lemma set_clause_steps:
  "set_steps OpComplete (complete_where name us) (\<lambda>j. Inr (complete_set s out j))"
  "set_steps OpFail (fail_where name us) (\<lambda>j. Inr (retry_or_fail_set s out j))"
  "set_steps OpExpire (expired_where s) (\<lambda>j. Inr (retry_or_fail_set s out j))"
  "set_steps OpCancel (cancel_where name us) (\<lambda>j. Inr (cancel_set s j))"
  "set_steps OpResume (resume_where name us) (\<lambda>j. Inr (resume_set j))"
  "set_steps OpRetry (retry_where name us) retry_set"
  "set_steps OpFetch (\<lambda>j. claim_where name us j \<and> j_state j < ACTIVE) (claim_set s)"
  by (auto simp: set_steps_def where_clauses set_clause_frame intro: job_step.intros)[5]
    (auto simp: set_steps_def where_clauses retry_set_Inr claim_set_def frame_of_def intro: job_step.intros
      split: if_splits)

lemma update_states:
  assumes "distinct (map job_pk (jobs d))" "set_steps l sel upd" "update_jobs sel upd d = Inr (d', ret)"
  shows "map job_pk (jobs d') = map job_pk (jobs d)" "job_step l (job_states d k) (job_states d' k)"
    "job_states d' k = None \<longleftrightarrow> job_states d k = None"
proof -
  have rows: "list_all2 (updated sel upd) (jobs d) (jobs d')" by (rule update_jobs_rows [OF assms(3)])
  have one: "job_pk j' = job_pk j \<and> job_step l (Some (j_state j)) (Some (j_state j'))" if "updated sel upd j j'" for j j'
    using that assms(2) job_pk_frame [of j' j] by (auto simp: updated_def set_steps_def intro: job_step.keep split: if_splits)
  show pks: "map job_pk (jobs d') = map job_pk (jobs d)" by (rule list_all2_map_eq [OF rows]) (use one in blast)
  then have keys: "job_pk ` set (jobs d') = job_pk ` set (jobs d)" by (metis set_map)
  then show none: "job_states d' k = None \<longleftrightarrow> job_states d k = None" by (simp add: job_states_None)
  show "job_step l (job_states d k) (job_states d' k)"
  proof (cases "job_states d k")
    case None
    with none show ?thesis by (simp add: job_step.keep)
  next
    case (Some a)
    with job_states_Some [OF assms(1)] obtain j where j: "j \<in> set (jobs d)" "job_pk j = k" "j_state j = a" by blast
    from list_all2_in_left [OF rows j(1)] obtain j' where j': "j' \<in> set (jobs d')" "updated sel upd j j'" by blast
    have "distinct (map job_pk (jobs d'))" using assms(1) pks by simp
    from job_states_Some [OF this] j'(1) one [OF j'(2)] j(2) have "job_states d' k = Some (j_state j')" by blast
    with Some one [OF j'(2)] j(3) show ?thesis by simp
  qed
qed

lemma update_lifecycle:
  assumes "distinct (map job_pk (jobs d))" "set_steps l sel upd" "update_jobs sel upd d = Inr (d', ret)"
  shows "lifecycle l (job_states d) (job_states d')"
  by (rule lifecycleI [OF update_states(2) [OF assms]]) (metis update_states(3) [OF assms])

text \<open>New rows: those of an insert, and the copies of exhausted jobs.\<close>

lemma job_states_append:
  assumes "distinct (map job_pk (jobs d'))" "jobs d' = jobs d @ new" "\<forall>j\<in>set new. j_state j = CREATED"
  shows "job_states d' k = (if k \<in> job_pk ` set new then Some CREATED else job_states d k)"
    "k \<in> job_pk ` set new \<Longrightarrow> job_states d k = None"
proof -
  show fresh: "k \<in> job_pk ` set new \<Longrightarrow> job_states d k = None"
    using assms(1,2) by (auto simp: job_states_None)
  show "job_states d' k = (if k \<in> job_pk ` set new then Some CREATED else job_states d k)"
  proof (cases "k \<in> job_pk ` set new")
    case True
    then obtain j where "j \<in> set (jobs d')" "job_pk j = k" "j_state j = CREATED" using assms(2,3) by auto
    with job_states_Some [OF assms(1)] True show ?thesis by auto
  next
    case False
    then have "map_of (map (\<lambda>j. (job_pk j, j_state j)) new) k = None" by (auto simp: map_of_eq_None_iff)
    with False assms(2) show ?thesis
      by (cases "map_of (map (\<lambda>j. (job_pk j, j_state j)) (jobs d)) k") (simp_all add: job_states_def map_add_def)
  qed
qed

lemma fail_lifecycle:
  assumes "db_ok d" "db_ok d'" "set_steps l sel upd" "l \<in> {OpFail, OpExpire}"
    "update_jobs sel upd d = Inr (d1, rows)" "\<forall>j\<in>set rows. j_state j = FAILED \<longrightarrow> job_states d (job_pk j) = Some ACTIVE"
    "route s 0 rows d1 = Inr d'"
  shows "lifecycle l (job_states d) (job_states d')"
proof -
  have pks: "distinct (map job_pk (jobs d))" "distinct (map job_pk (jobs d'))"
    using assms(1,2) by (simp_all add: db_ok_def jobs_ok_def)
  note upd = update_states [OF pks(1) assms(3,5)]
  from route_fresh [OF assms(7)] obtain new where new: "jobs d' = jobs d1 @ new" "\<forall>j\<in>set new. j_state j = CREATED"
    by blast
  note app = job_states_append [OF pks(2) new]
  have step: "job_step l (job_states d k) (job_states d' k)" for k
    using upd(2,3) [of k] app [of k] job_step.dead_letter [OF assms(4)] by (cases "k \<in> job_pk ` set new") auto
  moreover have "\<exists>k. job_states d k = Some ACTIVE \<and> job_states d' k = Some FAILED"
    if "job_states d k = None" "job_states d' k \<noteq> None" for k
  proof -
    from that upd(3) [of k] app(1) [of k] have "k \<in> job_pk ` set new" by (metis (full_types))
    then obtain j where j: "j \<in> set new" by blast
    then have "j \<notin> set (jobs d1)" using pks(2) new(1) by (auto simp: distinct_map)
    with route_origin [OF assms(7)] new(1) j obtain r where r: "r \<in> set rows" "j_state r = FAILED" by auto
    have "r \<in> set (jobs d')" using update_jobs_returned(1) [OF assms(5) r(1)] new(1) by simp
    then have "job_states d' (job_pk r) = Some FAILED" using job_states_Some [OF pks(2)] r(2) by blast
    with assms(6) r show ?thesis by blast
  qed
  ultimately show ?thesis by (rule lifecycleI)
qed

lemma failed_were_active:
  assumes "db_ok d" "update_jobs sel (\<lambda>j. Inr (retry_or_fail_set s out j)) d = Inr (d1, rows)"
    "\<And>j. sel j \<Longrightarrow> j_state j = ACTIVE"
  shows "\<forall>j\<in>set rows. j_state j = FAILED \<longrightarrow> job_states d (job_pk j) = Some ACTIVE"
proof (intro ballI impI)
  fix j assume "j \<in> set rows"
  from update_jobs_returned(2) [OF assms(2) this] obtain i
    where i: "i \<in> set (jobs d)" "sel i" "j = retry_or_fail_set s out i" by auto
  have "distinct (map job_pk (jobs d))" using assms(1) by (simp add: db_ok_def jobs_ok_def)
  from job_states_Some [OF this] i(1) assms(3) [OF i(2)] job_pk_frame [OF set_clause_frame(2), of s out i] i(3)
  show "job_states d (job_pk j) = Some ACTIVE" by metis
qed

lemma remove_lifecycle:
  assumes "set (jobs d') \<subseteq> set (jobs d)" "distinct (map job_pk (jobs d))" "distinct (map job_pk (jobs d'))"
    "l \<in> {OpDelete, OpDeleteOld, OpDeleteQueue}"
  shows "lifecycle l (job_states d) (job_states d')"
proof -
  have "job_states d' k = None \<or> job_states d' k = job_states d k" for k
  proof (cases "job_states d' k")
    case (Some a)
    with job_states_Some [OF assms(3)] assms(1) have "job_states d k = Some a"
      using job_states_Some [OF assms(2)] by blast
    with Some show ?thesis by simp
  qed simp
  moreover have "job_step l (job_states d k) None" for k
    by (cases "job_states d k") (use assms(4) in \<open>auto intro: job_step.intros\<close>)
  ultimately have "job_step l (job_states d k) (job_states d' k)" for k by (metis job_step.keep)
  then show ?thesis by (rule lifecycleI) (metis \<open>\<And>k. job_states d' k = None \<or> job_states d' k = job_states d k\<close>)
qed

lemma same_lifecycle:
  assumes "jobs d' = jobs d"
  shows "lifecycle l (job_states d) (job_states d')"
  unfolding job_states_same [OF assms] by (rule lifecycleI) (simp_all only: job_step.keep simp_thms)

lemma step_refines:
  assumes "step l d d'" "db_ok d"
  shows "lifecycle l (job_states d) (job_states d')"
proof -
  have ok: "db_ok d'" using step_db_ok [OF assms] .
  have pks: "distinct (map job_pk (jobs d))" "distinct (map job_pk (jobs d'))"
    using assms(2) ok by (simp_all add: db_ok_def jobs_ok_def)
  note upd = update_lifecycle [OF pks(1)] and gone = remove_lifecycle [OF _ pks]
  from assms(1) show ?thesis
  proof (cases rule: step.cases)
    case (create_queue s name o')
    then show ?thesis by (auto simp: create_queue_def intro!: same_lifecycle split: if_splits)
  next
    case (delete_queue name)
    from gone [OF quiet_steps(2) [OF delete_queue(2)]] delete_queue(1) show ?thesis by simp
  next
    case (insert s specs name ids)
    from insert(2) show ?thesis
    proof (cases rule: insert_jobs_cases)
      case no_queue
      then show ?thesis by (simp add: same_lifecycle)
    next
      case (queue q rows)
      let ?new = "insert_on_conflict_do_nothing (jobs d) rows"
      have "jobs d' = jobs d @ ?new" using queue(5) by simp
      moreover have "\<forall>j\<in>set ?new. j_state j = CREATED"
        using rows_of_specs_mem [OF queue(2)] insert_on_conflict_subset job_row_of_frame(2) by blast
      ultimately have "job_step OpInsert (job_states d k) (job_states d' k)" for k
        using job_states_append [OF pks(2), of d ?new k] by (auto intro: job_step.intros)
      then show ?thesis by (simp add: lifecycle_def insert(1))
    qed
  next
    case (fetch s name n gc snap rows)
    then obtain us where plan: "plan_of s name n gc snap d = Inr us" and claim: "claim_jobs s name us d = Inr (d', rows)"
      by (auto simp: fetch_next_job_at_plan)
    from upd [OF set_clause_steps(7) claim [unfolded claim_of_plan [OF pks(1) plan]]] fetch(1) show ?thesis by simp
  next
    case (complete s name ids out rows)
    then show ?thesis by (auto simp: complete_jobs_def intro: upd [OF set_clause_steps(1)])
  next
    case (fail s name us out)
    then obtain d1 rows where "fail_jobs s name (map (pg_uuid_out s) us) (Some (JObj out)) d = Inr (d1, rows)"
      and route: "route s 0 rows d1 = Inr d'" unfolding fail_by_id_commit by blast
    then obtain vs where upd1: "update_jobs (fail_where name vs)
        (\<lambda>j. Inr (retry_or_fail_set s (Some (JObj out)) j)) d = Inr (d1, rows)"
      by (auto simp: fail_jobs_def)
    from fail_lifecycle [OF assms(2) ok set_clause_steps(2) _ upd1 failed_were_active [OF assms(2) upd1] route] fail(1)
    show ?thesis by (simp add: fail_where_def)
  next
    case (expire s)
    then obtain d1 rows where upd1: "update_jobs (expired_where s)
        (\<lambda>j. Inr (retry_or_fail_set s (Some timed_out) j)) d = Inr (d1, rows)"
      and route: "route s 0 rows d1 = Inr d'" unfolding fail_expired_commit fail_expired_jobs_def by blast
    from fail_lifecycle [OF assms(2) ok set_clause_steps(3) _ upd1 failed_were_active [OF assms(2) upd1] route] expire(1)
    show ?thesis by (simp add: expired_where_def)
  next
    case (cancel s name ids rows)
    then show ?thesis by (auto simp: cancel_jobs_def intro: upd [OF set_clause_steps(4)])
  next
    case (resume s name ids rows)
    then show ?thesis by (auto simp: resume_jobs_def intro: upd [OF set_clause_steps(5)])
  next
    case (retry s name ids rows)
    then show ?thesis by (auto simp: retry_jobs_def intro: upd [OF set_clause_steps(6)])
  next
    case (delete s name ids)
    from gone [OF quiet_steps(3) [OF delete(2)]] delete(1) show ?thesis by simp
  next
    case (delete_old s)
    with gone [of OpDeleteOld] quiet_steps(5) [of s d] show ?thesis by simp
  qed (auto simp: upsert_schedule_def delete_schedule_def try_set_cron_time_def Let_def
      intro!: same_lifecycle split: if_splits)
qed

lemma traced_refines:
  "traced tr d d' \<Longrightarrow> db_ok d \<Longrightarrow> db_ok d' \<and> lifecycle_run tr (job_states d) (job_states d')"
proof (induction rule: traced.induct)
  case (more l d d1 tr d2)
  have "db_ok d1" "lifecycle l (job_states d) (job_states d1)"
    using more(1,4) by (auto simp: does_def intro: step_db_ok step_refines same_lifecycle)
  with more show ?case by (blast intro: lifecycle_run.more)
qed (simp add: lifecycle_run.empty)

section \<open>The program refines it\<close>

text \<open>C3. The whole program refines the job automaton, trace for trace: whatever objects, callers, workers,
  schedulers and maintenance loops do on a correct schema, in whatever order and with whatever
  errors, the constraints still hold afterwards, and the statements they issued are, one after the
  other, steps of the automaton from the states of the jobs before to their states after. So only
  an insert adds a job, but for the dead-letter copies of jobs exhausted in the same operation;
  only a fetch makes one active, only from a queued state; only completing completes one, only from
  active; only a delete or the retention sweep removes one; and as long as nothing is removed, a
  completed job stays completed.\<close>
theorem program_refines_lifecycle:
  assumes "prog tr d d'" "db_ok d"
  shows "db_ok d' \<and> lifecycle_run tr (job_states d) (job_states d') \<and>
    (set tr \<inter> removals = {} \<longrightarrow> (\<forall>k. job_states d k = Some COMPLETED \<longrightarrow> job_states d' k = Some COMPLETED))"
proof -
  from traced_refines [OF prog_traced [OF assms(1)] assms(2)]
  have "db_ok d'" "lifecycle_run tr (job_states d) (job_states d')" by blast+
  with run_keeps_completed [OF this(2)] show ?thesis by (intro conjI impI allI)
qed

text \<open>One object that sends, fetches and completes a job.\<close>

definition sample_underboss :: underboss where
  "sample_underboss = sample_boss\<lparr>ub_started := True, ub_db := ub_db running_core\<rparr>"

definition send_and_complete :: "db \<Rightarrow> db" where
  "send_and_complete d =
     (let d1 = snd (boss_send sample_underboss sample_pg False ''q'' None None d);
          d2 = snd (boss_fetch sample_underboss sample_pg ''q'' 1 False None d1)
      in snd (boss_complete sample_underboss sample_pg ''q'' ''1000'' None d2))"

lemma send_and_complete_prog: "prog [OpInsert, OpFetch, OpComplete] d (send_and_complete d)"
  unfolding send_and_complete_def Let_def
  using prog.seq [OF prog.seq [OF prog.send prog.fetch] prog.complete] by simp

theorem program_refines_lifecycle_witness:
  "map j_state (jobs (send_and_complete (sample_db [sample_queue ''q'' ''standard''] []))) = [COMPLETED] \<and>
   db_ok (send_and_complete (sample_db [sample_queue ''q'' ''standard''] []))"
proof -
  have "db_ok (sample_db [sample_queue ''q'' ''standard''] [])" by code_simp
  from program_refines_lifecycle [OF send_and_complete_prog this]
  have "db_ok (send_and_complete (sample_db [sample_queue ''q'' ''standard''] []))" by blast
  moreover have "map j_state (jobs (send_and_complete (sample_db [sample_queue ''q'' ''standard''] []))) = [COMPLETED]"
    by code_simp
  ultimately show ?thesis by blast
qed

section \<open>Queues read back\<close>

definition queues_typed :: "db \<Rightarrow> bool" where
  "queues_typed d \<longleftrightarrow> (\<forall>q\<in>set (queues d). \<exists>p. q_policy q = QueuePolicy_value p)"

lemma step_queues:
  assumes "step l d d'" "l \<noteq> OpCreateQueue"
  shows "set (queues d') \<subseteq> set (queues d)"
  using assms
proof (cases rule: step.cases)
  case (insert s specs name ids)
  then show ?thesis by (auto elim: insert_jobs_cases)
next
  case (fail s name us out)
  then show ?thesis unfolding fail_by_id_commit
    by (elim exE conjE) (simp add: route_queues [THEN trans] settle_queues(2))
next
  case (expire s)
  then show ?thesis unfolding fail_expired_commit
    by (elim exE conjE) (simp add: route_queues [THEN trans] settle_queues(3))
qed (auto simp: delete_queue_def delete_jobs_def delete_old_jobs_def delete_rows_def upsert_schedule_def
    delete_schedule_def try_set_cron_time_def Let_def dest: settle_queues split: if_splits)

interpretation typed: runs "\<lambda>d d'. queues_typed d \<longrightarrow> queues_typed d'"
proof unfold_locales
  fix l d d' assume "step l d d'" "l \<noteq> OpCreateQueue"
  from step_queues [OF this] show "queues_typed d \<longrightarrow> queues_typed d'" by (auto simp: queues_typed_def)
next
  fix s name o' d d' policy
  assume c: "create_queue s name o' d = Inr d'" and p: "arrow_text s o' ''policy'' = Some (QueuePolicy_value policy)"
  from c obtain q where q: "queue_row_of s name o' = Inr q" "set (queues d') \<subseteq> insert q (set (queues d))"
    by (auto simp: create_queue_def split: if_splits)
  from q(1) p have "q_policy q = QueuePolicy_value policy" by (auto simp: queue_row_of_def)
  with q(2) show "queues_typed d \<longrightarrow> queues_typed d'" by (auto simp: queues_typed_def)
qed auto

lemma row_to_queue_typed: "q_policy q = QueuePolicy_value p \<Longrightarrow> \<exists>x. row_to_queue q = Inr x"
  by (simp add: row_to_queue_def QueuePolicy_roundtrip)

text \<open>C29. Reading queues never fails: on every schema that a program made of a fresh install, \<^verbatim>\<open>get_queues\<close>
  and \<^verbatim>\<open>get_queue\<close> of a running object return \<^verbatim>\<open>Queue\<close> values, with a policy of the enumeration, and
  never raise the \<^verbatim>\<open>ValueError\<close> of an unknown one.\<close>
theorem queues_read_back:
  assumes "prog tr installed d" "running b"
  shows "\<exists>qs. boss_get_queues b d = (Inr qs, d) \<and> length qs = length (queues d) \<and>
    (\<exists>r. boss_get_queue b name d = (Inr r, d) \<and> (r = None \<longleftrightarrow> \<not> queue_exists name d))"
proof -
  have "queues_typed installed" by (simp add: queues_typed_def installed_def)
  with typed.prog_runs [OF assms(1)] have typed: "queues_typed d" by blast
  then have ok: "\<exists>x. row_to_queue q = Inr x" if "q \<in> set (queues d)" for q
    using that row_to_queue_typed unfolding queues_typed_def by blast
  then obtain qs where qs: "traverse row_to_queue (get_queues d) = Inr qs"
    using traverse_ok [of "get_queues d" row_to_queue] by (auto simp: get_queues_def)
  then have "length qs = length (queues d)"
    using list_all2_lengthD [of "\<lambda>q x. row_to_queue q = Inr x" "get_queues d" qs]
    by (simp add: traverse_Inr_iff get_queues_def)
  moreover have "boss_get_queues b d = (Inr qs, d)"
    using qs by (simp add: boss_get_queues_def running_execute [OF assms(2)] reading_def and_then_def)
  moreover have "\<exists>r. boss_get_queue b name d = (Inr r, d) \<and> (r = None \<longleftrightarrow> \<not> queue_exists name d)"
  proof (cases "find_queue name d")
    case None
    then show ?thesis
      by (simp add: boss_get_queue_def running_execute [OF assms(2)] reading_def and_then_def get_queue_def
          find_queue_None [symmetric])
  next
    case (Some q)
    with find_queue_Some ok obtain x where "row_to_queue q = Inr x" by blast
    with Some show ?thesis
      by (auto simp: boss_get_queue_def running_execute [OF assms(2)] reading_def and_then_def get_queue_def
          find_queue_None [symmetric])
  qed
  ultimately show ?thesis by blast
qed

theorem queues_read_back_witness:
  "\<exists>b' c' d qs. underboss_start True sample_pg sample_boss full_install installed = (Inr (), b', c', d) \<and>
     boss_get_queues b' d = (Inr qs, d) \<and> length qs = 1"
proof -
  let ?r = "underboss_start True sample_pg sample_boss full_install installed"
  have "fst ?r = Inr () \<and> running (fst (snd ?r)) \<and> length (queues (snd (snd (snd ?r)))) = 1" by code_simp
  then obtain b' c' d where r: "?r = (Inr (), b', c', d)" "running b'" "length (queues d) = 1"
    by (cases ?r) auto
  have "version_table_exists full_install" by code_simp
  from queues_read_back [OF prog.start [OF this r(1)] r(2), of "[]"] r(3)
  obtain qs where "boss_get_queues b' d = (Inr qs, d)" "length qs = 1" by metis
  with r(1) show ?thesis by (intro exI conjI)
qed

end
