(* ===== verification/Delivery.thy ===== *)
theory Delivery
  imports Worker_Loop Maintenance Boss_Calls
begin

text \<open>
  What producers and consumers are promised across components: a sent job can be read back, a queue
  drains, a crashed worker's batch comes back through the sweep, and what a worker that outlived
  its lease does to the job of the worker that holds it now.
\<close>

section \<open>Fetching from a standard queue\<close>

definition claimed :: "pg \<Rightarrow> job_row \<Rightarrow> job_row" where
  "claimed s j = j\<lparr>j_state := ACTIVE, j_started_on := Some (pg_now s), j_heartbeat_on := Some (pg_now s),
     j_retry_count := (if j_started_on j = None then j_retry_count j else j_retry_count j + 1)\<rparr>"

text \<open>A queue whose claimable jobs no policy index can hold back and whose counters have room.\<close>

definition standard_jobs :: "pg \<Rightarrow> string \<Rightarrow> job_row list \<Rightarrow> bool" where
  "standard_jobs s name rows \<longleftrightarrow>
     (\<forall>j\<in>set rows. claimable s name j \<longrightarrow>
        j_policy j = Some ''standard'' \<and> 0 \<le> j_retry_count j \<and> j_retry_count j + 1 < 2 ^ 31)"

lemma claimed_total:
  "0 \<le> j_retry_count j \<Longrightarrow> j_retry_count j + 1 < 2 ^ 31 \<Longrightarrow> claim_set s j = Inr (claimed s j)"
  by (simp add: claim_set_def claimed_def int4_def)

lemma claimed_keys:
  "j_policy j = Some ''standard'' \<Longrightarrow> j_state j < ACTIVE \<Longrightarrow> index_key i (claimed s j) = index_key i j"
  by (cases i; cases "j_state j") (auto simp: index_defs claimed_def)

lemma claimed_pk [simp]: "job_pk (claimed s j) = job_pk j"
  by (simp add: claimed_def job_pk_def)

lemma update_jobs_cong_upd:
  assumes "\<And>j. j \<in> set (jobs d) \<Longrightarrow> sel j = sel' j"
    "\<And>j. j \<in> set (jobs d) \<Longrightarrow> sel' j \<Longrightarrow> upd j = upd' j"
  shows "update_jobs sel upd d = update_jobs sel' upd' d"
proof -
  have "update_rows sel upd (jobs d) = update_rows sel' upd' (jobs d)"
    unfolding update_rows_def by (rule traverse_cong) (simp add: assms)
  moreover have "traverse upd (filter sel (jobs d)) = traverse upd' (filter sel' (jobs d))"
    using assms by (metis (mono_tags, lifting) filter_cong mem_Collect_eq set_filter traverse_cong)
  ultimately show ?thesis by (simp add: update_jobs_def)
qed

definition next_batch :: "pg \<Rightarrow> string \<Rightarrow> int \<Rightarrow> job_row list \<Rightarrow> job_row list" where
  "next_batch s name n rows = take (nat n) (claim_queue s name rows)"

lemma next_batch_claimable: "j \<in> set (next_batch s name n rows) \<Longrightarrow> j \<in> set rows \<and> claimable s name j"
  by (auto simp: next_batch_def dest!: in_set_takeD)

lemma fetch_standard:
  assumes "db_ok d" "standard_jobs s name (jobs d)" "0 \<le> n"
  shows "fetch_next_job s name n None d =
    Inr (d\<lparr>jobs := set_where (\<lambda>j. j \<in> set (next_batch s name n (jobs d))) (claimed s) (jobs d)\<rparr>,
         map (claimed s) (filter (\<lambda>j. j \<in> set (next_batch s name n (jobs d))) (jobs d)))"
proof -
  let ?T = "set (next_batch s name n (jobs d))"
  have pks: "distinct (map job_pk (jobs d))" and uniq: "\<forall>i. unique_index i (jobs d)"
    using assms(1) by (simp_all add: db_ok_def jobs_ok_def)
  have std: "j_policy j = Some ''standard''" "0 \<le> j_retry_count j" "j_retry_count j + 1 < 2 ^ 31"
    "j_state j < ACTIVE" if "j \<in> ?T" for j
    using next_batch_claimable [OF that] assms(2)
    by (auto simp: standard_jobs_def claimable_def fetch_where_def)
  have plan: "plan_of s name n None d d = Inr (map j_id (next_batch s name n (jobs d)))"
    using assms(3)
    by (simp add: plan_of_def fetch_plan_def select_next_alone claim_queue_def claimable_def [abs_def]
        limit_def next_batch_def)
  have "claim_jobs s name (map j_id (next_batch s name n (jobs d))) d =
      update_jobs (\<lambda>j. j \<in> ?T) (\<lambda>j. Inr (claimed s j)) d"
    unfolding claim_jobs_def
    by (rule update_jobs_cong_upd)
       (use alone_claims [OF pks plan] std in \<open>auto simp: next_batch_def claimed_total\<close>)
  also have "\<dots> = Inr (d\<lparr>jobs := set_where (\<lambda>j. j \<in> ?T) (claimed s) (jobs d)\<rparr>,
      map (claimed s) (filter (\<lambda>j. j \<in> ?T) (jobs d)))"
    by (rule update_jobs_shrinks [OF uniq]) (blast intro: claimed_keys std)
  finally show ?thesis using plan by (simp add: fetch_next_job_def fetch_next_job_at_plan)
qed

text \<open>The turn of a worker on such a queue, with a handler that returns: its batch ends up completed.\<close>

definition returns :: "handler \<Rightarrow> bool" where
  "returns h \<longleftrightarrow> (\<forall>js d. \<exists>v. h js d = (Returned v, d))"

lemma standard_turn:
  assumes "db_ok d" "standard_jobs s name (jobs d)" "0 \<le> wo_batch_size options"
    "wo_group_concurrency options = None" "uuid_text_ok s" "returns h"
  defines "T \<equiv> set (next_batch s name (wo_batch_size options) (jobs d))"
  shows "\<exists>w' pause out. worker_turn b options h name (quiet_turn s) w d =
      (w', Inr pause, d\<lparr>jobs := set_where (\<lambda>j. j \<in> T) (\<lambda>j. complete_set s out (claimed s j)) (jobs d)\<rparr>) \<and>
    wk_stopping w' = wk_stopping w"
proof -
  let ?t = "quiet_turn s" and ?rows = "map (claimed s) (filter (\<lambda>j. j \<in> T) (jobs d))"
  let ?d1 = "d\<lparr>jobs := set_where (\<lambda>j. j \<in> T) (claimed s) (jobs d)\<rparr>"
  have pks: "distinct (map job_pk (jobs d))" using assms(1) by (simp add: db_ok_def jobs_ok_def)
  have fetch: "worker_fetch options name ?t d = Inr (?d1, ?rows)"
    using fetch_standard [OF assms(1-3)] assms(4) by (simp add: worker_fetch_def T_def)
  show ?thesis
  proof (cases "?rows = []")
    case True
    then have "\<forall>j\<in>set (jobs d). j \<notin> T" by (auto simp: filter_empty_conv)
    then have same: "set_where (\<lambda>j. j \<in> T) g (jobs d) = jobs d" for g
      unfolding set_where_def by (intro map_idI) simp
    have "d\<lparr>jobs := jobs d\<rparr> = d" by simp
    with True fetch same show ?thesis by (auto simp: worker_turn_def Let_def)
  next
    case False
    from assms(6) obtain v where
      v: "h (jobs_of b options ?t ?rows) ?d1 = (Returned v, ?d1)"
      unfolding returns_def by blast
    have batch: "in_batch ?rows (claimed s j)" if "j \<in> set (jobs d)" "j \<in> T" for j
      using that by (auto simp: in_batch_def image_image)
    have others: "\<not> in_batch ?rows j" if "j \<in> set (jobs d)" "j \<notin> T" for j
    proof
      assume "in_batch ?rows j"
      then obtain r where "r \<in> set (jobs d)" "r \<in> T" "job_pk j = job_pk r" by (auto simp: in_batch_def)
      with pk_inj [OF pks that(1)] that(2) show False by blast
    qed
    have "map (\<lambda>j. if in_batch ?rows j then f j else j) (jobs ?d1) =
        set_where (\<lambda>j. j \<in> T) (\<lambda>j. f (claimed s j)) (jobs d)" for f
      using batch others by (simp add: set_where_def)
    with turn_completes_batch [where h = h and v = v and t = ?t and w = w, OF assms(1) fetch False _ _ _ v] assms(5)
    show ?thesis by auto
  qed
qed

section \<open>A queue drains\<close>

text \<open>What is left to claim after one such turn.\<close>

lemma completed_not_claimable: "\<not> claimable s name (complete_set s' out j)"
  by (simp add: claimable_def fetch_where_def)

lemma left_after_turn:
  fixes s name n
  assumes "distinct (map job_pk (jobs d))"
  defines "T \<equiv> set (next_batch s name n (jobs d))"
  shows "length (filter (claimable s name) (set_where (\<lambda>j. j \<in> T) (\<lambda>j. complete_set s out (claimed s j)) (jobs d))) =
    length (filter (claimable s name) (jobs d)) - nat n"
proof -
  let ?q = "claim_queue s name (jobs d)"
  have dist: "distinct (jobs d)" "distinct ?q"
    using distinct_jobs [OF assms(1)] by (simp_all add: claim_queue_distinct)
  have "filter (claimable s name) (set_where (\<lambda>j. j \<in> T) (\<lambda>j. complete_set s out (claimed s j)) rows) =
      filter (\<lambda>j. claimable s name j \<and> j \<notin> T) rows" for rows
    by (induction rows) (auto simp: set_where_def completed_not_claimable)
  moreover have "set (take (nat n) ?q) \<inter> set (drop (nat n) ?q) = {}" "set (take (nat n) ?q) \<union> set (drop (nat n) ?q) = set ?q"
    using dist(2) by (metis append_take_drop_id distinct_append, metis append_take_drop_id set_append)
  then have "set (filter (\<lambda>j. claimable s name j \<and> j \<notin> T) (jobs d)) = set (drop (nat n) ?q)"
    by (auto simp: T_def next_batch_def)
  then have "length (filter (\<lambda>j. claimable s name j \<and> j \<notin> T) (jobs d)) = length (drop (nat n) ?q)"
    using dist by (intro same_set_same_length) simp_all
  ultimately show ?thesis by (simp add: claim_queue_def)
qed

lemma returns_handler: "returns h \<Longrightarrow> snd (h js d) = d"
  unfolding returns_def by (metis snd_conv)

lemma returns_contract: "returns h \<Longrightarrow> job_handler evolve h"
  by unfold_locales (simp add: returns_handler)

definition drained :: "pg \<Rightarrow> string \<Rightarrow> job_row \<Rightarrow> job_row \<Rightarrow> bool" where
  "drained s name j j' \<longleftrightarrow>
     (if claimable s name j then frame_of j' = frame_of j \<and> j_state j' = COMPLETED else j' = j)"

lemma drain_step:
  assumes "list_all2 (drained s name) (set_where (\<lambda>j. j \<in> T) (\<lambda>j. complete_set s out (claimed s j)) rows) rows'"
    "\<And>j. j \<in> T \<Longrightarrow> claimable s name j"
  shows "list_all2 (drained s name) rows rows'"
proof -
  have frame: "frame_of (complete_set s out (claimed s j)) = frame_of j" for j
    by (simp add: frame_of_def complete_set_def claimed_def)
  have "list_all2 (\<lambda>j j'. drained s name (if j \<in> T then complete_set s out (claimed s j) else j) j') rows rows'"
    using assms(1) by (simp add: set_where_def list_all2_map1)
  then show ?thesis
    by (rule list_all2_mono)
       (auto simp: drained_def completed_not_claimable frame assms(2) split: if_splits)
qed

text \<open>C4. A queue drains: on a standard queue where nobody else interferes, a worker whose handler returns
  completes every job that is due, unlocked and queued, whatever their number, in as many turns
  as batches of its size are needed, and touches no other row.\<close>
theorem queue_drains:
  assumes "db_ok d" "standard_jobs s name (jobs d)" "0 \<le> wo_batch_size options"
    "wo_group_concurrency options = None" "uuid_text_ok s" "returns h" "\<not> wk_stopping w"
    "length (filter (claimable s name) (jobs d)) \<le> k * nat (wo_batch_size options)"
  shows "\<exists>w' ps d'. worker_run b options h name (replicate k (quiet_turn s)) w d = (w', ps, d') \<and>
    list_all2 (drained s name) (jobs d) (jobs d')"
  using assms(1,2,7,8)
proof (induction k arbitrary: d w)
  case 0
  then have "\<forall>j\<in>set (jobs d). \<not> claimable s name j" by (simp add: filter_empty_conv)
  then have "list_all2 (drained s name) (jobs d) (jobs d)" by (simp add: drained_def list.rel_refl_strong)
  then show ?case by simp
next
  case (Suc k)
  let ?n = "wo_batch_size options" and ?t = "quiet_turn s"
  let ?T = "set (next_batch s name ?n (jobs d))"
  let ?w = "worker_signals ?t w"
  from standard_turn [OF Suc.prems(1,2) assms(3-6), of b ?w] obtain w1 pause out where
    turn: "worker_turn b options h name ?t ?w d =
      (w1, Inr pause, d\<lparr>jobs := set_where (\<lambda>j. j \<in> ?T) (\<lambda>j. complete_set s out (claimed s j)) (jobs d)\<rparr>)"
    and w1: "wk_stopping w1 = wk_stopping ?w" by blast
  let ?d = "d\<lparr>jobs := set_where (\<lambda>j. j \<in> ?T) (\<lambda>j. complete_set s out (claimed s j)) (jobs d)\<rparr>"
  have ok: "db_ok ?d"
    using job_handler.turn_runs [OF returns_contract [OF assms(6)] turn] evolve_db_ok Suc.prems(1) by blast
  have "standard_jobs s name (jobs ?d)"
    using Suc.prems(2) by (auto simp: standard_jobs_def set_where_def completed_not_claimable split: if_splits)
  moreover have "\<not> wk_stopping w1" using w1 Suc.prems(3) by (simp add: worker_signals_def)
  moreover have "distinct (map job_pk (jobs d))" using Suc.prems(1) by (simp add: db_ok_def jobs_ok_def)
  then have "length (filter (claimable s name) (jobs ?d)) \<le> k * nat ?n"
    using Suc.prems(4) left_after_turn [of d s name ?n out] by simp
  ultimately obtain w' ps d' where rest: "worker_run b options h name (replicate k ?t) w1 ?d = (w', ps, d')"
    "list_all2 (drained s name) (jobs ?d) (jobs d')" using Suc.IH [OF ok] by blast
  have "list_all2 (drained s name) (jobs d) (jobs d')"
    by (rule drain_step) (use rest(2) next_batch_claimable in auto)
  with turn rest(1) Suc.prems(3) show ?case by (auto simp: worker_signals_def Let_def)
qed

theorem queue_drains_witness:
  "\<exists>w' ps d'. worker_run own_pool WorkOptions_default (\<lambda>js d. (Returned JNull, d)) ''q''
     (replicate 2 (quiet_turn sample_pg)) worker_new worker_sample = (w', ps, d') \<and>
   map j_state (jobs d') = [COMPLETED, COMPLETED]"
proof -
  let ?h = "\<lambda>js d. (Returned JNull, d) :: handler_result \<times> db"
  have "db_ok worker_sample" "standard_jobs sample_pg ''q'' (jobs worker_sample)"
    "0 \<le> wo_batch_size WorkOptions_default" "wo_group_concurrency WorkOptions_default = None" "\<not> wk_stopping worker_new"
    "length (filter (claimable sample_pg ''q'') (jobs worker_sample)) \<le> 2 * nat (wo_batch_size WorkOptions_default)"
    by code_simp+
  moreover have "returns ?h" by (simp add: returns_def)
  ultimately obtain w' ps d' where "worker_run own_pool WorkOptions_default ?h ''q'' (replicate 2 (quiet_turn sample_pg))
      worker_new worker_sample = (w', ps, d')" "list_all2 (drained sample_pg ''q'') (jobs worker_sample) (jobs d')"
    using queue_drains [of worker_sample sample_pg "''q''" WorkOptions_default ?h worker_new 2 own_pool] by auto
  moreover have "list_all (claimable sample_pg ''q'') (jobs worker_sample)" "length (jobs worker_sample) = 2" by code_simp+
  ultimately show ?thesis
    by (auto simp: drained_def list_all2_conv_all_nth list_all_length intro!: nth_equalityI simp: less_2_cases_iff)
qed

section \<open>A crashed worker\<close>

lemma fetched_rows:
  assumes "worker_fetch options name t d = Inr (d1, rows)" "r \<in> set rows"
  shows "r \<in> set (jobs d1)" "j_name r = name" "j_state r = ACTIVE" "j_started_on r = Some (pg_now (tn_fetch t))"
proof -
  from assms(1) obtain us where claim: "claim_jobs (tn_fetch t) name us d = Inr (d1, rows)"
    by (auto simp: worker_fetch_def fetch_next_job_def fetch_next_job_at_plan)
  from returned_rows [OF claim assms(2)] obtain i where "r \<in> set (jobs d1)" "claim_where name us i"
    "claimed_to (tn_fetch t) i r" by blast
  then show "r \<in> set (jobs d1)" "j_name r = name" "j_state r = ACTIVE" "j_started_on r = Some (pg_now (tn_fetch t))"
    by (auto simp: claimed_to_def claim_where_def dest: same_frame)
qed

lemma retry_or_fail_count: "j_retry_count (retry_or_fail_set s out j) = j_retry_count j"
  by (simp add: retry_or_fail_set_def)

lemma expired_recovered:
  assumes "fail_expired s d = (Inr (), d')" "j \<in> set (jobs d)" "expired_where s j"
  shows "retry_or_fail_set s (Some timed_out) j \<in> set (jobs d')"
proof -
  from assms(1) obtain d1 rows where 1: "fail_expired_jobs s d = Inr (d1, rows)" and 2: "route s 0 rows d1 = Inr d'"
    by (auto simp: fail_expired_commit)
  from list_all2_in_left [OF update_jobs_rows [OF 1 [unfolded fail_expired_jobs_def]] assms(2)] assms(3)
  have "retry_or_fail_set s (Some timed_out) j \<in> set (jobs d1)" by (auto simp: updated_def)
  with route_keeps_rows [OF 2] show ?thesis by auto
qed

text \<open>
  The ways a batch that the server handed out is never settled: the reply to the fetch did not arrive, so
  the worker does not even know its jobs; the handler was cancelled or returned what cannot be dumped;
  or the settling statement did not run.
\<close>

definition never_settles :: "Database \<Rightarrow> WorkOptions \<Rightarrow> handler \<Rightarrow> turn \<Rightarrow> job_row list \<Rightarrow> db \<Rightarrow> bool" where
  "never_settles b options h t rows d \<longleftrightarrow>
     ran (tn_fetch_reply t) \<and>
     (tn_fetch_reply t = Answered \<longrightarrow>
        ends_loop (fst (h (jobs_of b options t rows) d)) \<noteq> None \<or>
        \<not> ran (tn_settle_reply t))"

text \<open>C5. No job is lost with its worker: when a worker fetched a batch and never settled it, because the reply
  to its fetch was lost, its handler ended the loop, or it did not reach the database again, the
  batch is still active and untouched; and once its leases have run out, a sweep of any node that
  succeeds puts each of its jobs back into \<^verbatim>\<open>retry\<close>, or into \<^verbatim>\<open>failed\<close> when no retries are left, with its
  data and attempt count unchanged.\<close>
theorem crashed_batch_recovered:
  assumes "worker_fetch options name t d = Inr (d1, rows)" "rows \<noteq> []" "never_settles b options h t rows d1"
    "snd (h (jobs_of b options t rows) d1) = d1"
    "\<forall>r\<in>set rows. pg_now (tn_fetch t) + j_expire_seconds r * second < pg_now s"
    "fail_expired s d1 = (Inr (), d2)"
  shows "snd (snd (worker_turn b options h name t w d)) = d1 \<and>
    (\<forall>r\<in>set rows. r \<in> set (jobs d1) \<and> j_state r = ACTIVE \<and>
      (\<exists>j\<in>set (jobs d2). frame_of j = frame_of r \<and> j_retry_count j = j_retry_count r \<and>
        j_state j = (if j_retry_count r < j_retry_limit r then RETRY else FAILED)))"
proof (intro conjI ballI)
  show "snd (snd (worker_turn b options h name t w d)) = d1"
  proof (cases "tn_fetch_reply t = Answered")
    case True
    with assms(3,4) show ?thesis
      by (auto simp: turn_with_batch [OF True assms(1,2)] never_settles_def worker_process_jobs worker_complete_def
          worker_fail_def ends_loop_def split: prod.split handler_result.split)
  next
    case False
    with assms(1,3) show ?thesis by (simp add: worker_turn_def Let_def never_settles_def)
  qed
next
  fix r assume r: "r \<in> set rows"
  note row = fetched_rows [OF assms(1) r]
  show "r \<in> set (jobs d1)" "j_state r = ACTIVE" using row by simp_all
  have "expired_where s r" using row assms(5) r by (simp add: expired_where_def)
  from expired_recovered [OF assms(6) row(1) this] show "\<exists>j\<in>set (jobs d2). frame_of j = frame_of r \<and>
      j_retry_count j = j_retry_count r \<and> j_state j = (if j_retry_count r < j_retry_limit r then RETRY else FAILED)"
    by (rule rev_bexI) (simp add: set_clause_frame retry_or_fail_count)
qed

text \<open>A turn whose settling never arrives, and a server fifteen minutes and a second later.\<close>

definition lost_turn :: turn where
  "lost_turn = (quiet_turn sample_pg)\<lparr>tn_settle_reply := Failed False\<rparr>"

definition later_pg :: pg where
  "later_pg = sample_pg\<lparr>pg_now := pg_now sample_pg + 901 * second\<rparr>"

theorem crashed_batch_recovered_witness:
  "\<exists>d1 rows d2. worker_fetch WorkOptions_default ''q'' lost_turn worker_sample = Inr (d1, rows) \<and>
     snd (snd (worker_turn own_pool WorkOptions_default (\<lambda>js d. (Returned JNull, d)) ''q'' lost_turn worker_new worker_sample)) = d1 \<and>
     fail_expired later_pg d1 = (Inr (), d2) \<and> map j_state (jobs d2) = [RETRY, CREATED]"
proof -
  let ?h = "\<lambda>js d. (Returned JNull, d) :: handler_result \<times> db"
  have "case worker_fetch WorkOptions_default ''q'' lost_turn worker_sample of Inl e \<Rightarrow> False
    | Inr (d1, rows) \<Rightarrow> rows \<noteq> [] \<and>
        (\<forall>r\<in>set rows. pg_now (tn_fetch lost_turn) + j_expire_seconds r * second < pg_now later_pg) \<and>
        fst (fail_expired later_pg d1) = Inr () \<and>
        map j_state (jobs (snd (fail_expired later_pg d1))) = [RETRY, CREATED]" by code_simp
  then obtain d1 rows where f: "worker_fetch WorkOptions_default ''q'' lost_turn worker_sample = Inr (d1, rows)" "rows \<noteq> []"
    and e: "\<forall>r\<in>set rows. pg_now (tn_fetch lost_turn) + j_expire_seconds r * second < pg_now later_pg"
    and s: "fst (fail_expired later_pg d1) = Inr ()" "map j_state (jobs (snd (fail_expired later_pg d1))) = [RETRY, CREATED]"
    by (auto split: sum.splits)
  from s(1) have ex: "fail_expired later_pg d1 = (Inr (), snd (fail_expired later_pg d1))" by (simp add: prod_eq_iff)
  have "never_settles own_pool WorkOptions_default ?h lost_turn rows d1" by (simp add: never_settles_def lost_turn_def)
  from crashed_batch_recovered [where h = ?h and w = worker_new, OF f this _ e ex] f(1) ex s(2)
  show ?thesis by (intro exI conjI) auto
qed

section \<open>A worker that outlives its lease\<close>

text \<open>C24. The lease does not fence: completing finds its jobs by id and state alone. When a worker's handler
  took so long that its job was recovered and claimed again, by whomever, its return completes
  that new claim, with its own output, while the other worker is still running the job.\<close>
theorem late_completion_settles:
  assumes "db_ok d2" "worker_fetch options name t d = Inr (d1, rows)" "r \<in> set rows"
    "tn_fetch_reply t = Answered" "tn_settle_reply t = Answered" "uuid_text_ok (tn_settle t)"
    "h (jobs_of b options t rows) d1 = (Returned v, d2)"
    "j \<in> set (jobs d2)" "job_pk j = job_pk r" "j_state j = ACTIVE"
  shows "complete_set (tn_settle t) (mapping_output v) j
    \<in> set (jobs (snd (snd (worker_turn b options h name t w d))))"
proof -
  have "rows \<noteq> []" using assms(3) by auto
  note turn = turn_completes [where h = h and v = v and t = t and w = w, OF assms(1,2) this assms(4-7)]
  have "complete_where name (map j_id rows) j"
    using fetched_rows(2) [OF assms(2,3)] assms(3,9,10) by (auto simp: complete_where_def id_in_def job_pk_def)
  with assms(8) turn show ?thesis by (auto simp: set_where_def)
qed

text \<open>While the first worker's handler runs, the sweep recovers its job and a second worker claims it.\<close>

definition slow_handler :: handler where
  "slow_handler js d =
     (Returned JNull,
      case fetch_next_job later_pg ''q'' 1 None (snd (fail_expired later_pg d)) of
        Inl e \<Rightarrow> d | Inr (d', rows) \<Rightarrow> d')"

definition one_job :: db where
  "one_job = sample_db [sample_queue ''q'' ''standard''] [sample_job ''q'' ''standard'' 1 CREATED]"

theorem late_completion_settles_witness:
  "\<exists>j. j_started_on j = Some (pg_now later_pg) \<and> j_retry_count j = 1 \<and> j_state j = ACTIVE \<and>
     complete_set sample_pg None j \<in>
       set (jobs (snd (snd (worker_turn own_pool WorkOptions_default slow_handler ''q'' (quiet_turn sample_pg) worker_new one_job))))"
proof -
  let ?t = "quiet_turn sample_pg"
  have "case worker_fetch WorkOptions_default ''q'' ?t one_job of Inl e \<Rightarrow> False
    | Inr (d1, rows) \<Rightarrow> map job_pk rows = [(''q'', 1)] \<and> db_ok (snd (slow_handler [] d1)) \<and>
        map (\<lambda>j. (job_pk j, j_started_on j, j_retry_count j, j_state j)) (jobs (snd (slow_handler [] d1))) =
          [((''q'', 1), Some (pg_now later_pg), 1, ACTIVE)]" by code_simp
  then obtain d1 r j where f: "worker_fetch WorkOptions_default ''q'' ?t one_job = Inr (d1, [r])"
    and r: "job_pk r = (''q'', 1)" and ok: "db_ok (snd (slow_handler [] d1))" and j: "jobs (snd (slow_handler [] d1)) = [j]"
    "job_pk j = (''q'', 1)" "j_started_on j = Some (pg_now later_pg)" "j_retry_count j = 1" "j_state j = ACTIVE"
    by (auto split: sum.splits)
  have h: "slow_handler js d1 = (Returned JNull, snd (slow_handler [] d1))" for js by (simp add: slow_handler_def)
  from late_completion_settles [where t = ?t and h = slow_handler and w = worker_new and j = j, OF ok f _ _ _ _ h] r j
  show ?thesis by (intro exI [of _ j]) (auto simp: mapping_output_def)
qed

section \<open>A sent job\<close>

text \<open>C13. What is sent can be read: when \<open>send\<close> returned an id, \<open>get_job\<close> with that id, of any running object,
  returns a \<^verbatim>\<open>created\<close> job of that queue with the data given, as that object's pool decodes it, and the
  priority given, no attempts so far, and the queue's retry limit and lease where the options leave
  them open.\<close>
theorem send_then_get:
  assumes "running b" "running b'" "sendable s options start" "uuid_text_ok s" "find_queue name d = Some q"
    "boss_send b s c name data (Some options) d = (Inr (Some i), d')"
  shows "\<exists>j. boss_get_job b' s name i d' = (Inr (Some j), d') \<and> job_id j = i \<and> job_name j = name \<and>
    job_data j = received (ub_db b') s (map_option JObj data) \<and> job_state j = Some CREATED \<and> job_priority j = Some (so_priority options) \<and>
    job_retry_count j = Some 0 \<and> job_retry_limit j = Some (coalesce (so_retry_limit options) (q_retry_limit q)) \<and>
    job_expire_in_seconds j = coalesce (so_expire_in_seconds options) (q_expire_seconds q)"
proof -
  let ?r = "sent_row s q data options start"
  have name: "q_name q = name" using find_queue_Some [OF assms(5)] by simp
  from assms(6) insert_sent_row [OF assms(3,5), of data]
  have sent: "\<not> conflicts (jobs d) ?r" "i = pg_uuid_out s (j_id ?r)" "d' = d\<lparr>jobs := jobs d @ [?r]\<rparr>"
    by (auto simp: boss_send_def running_execute [OF assms(1)] and_then_def Let_def split: if_splits)
  have uuid: "pg_uuid_in s i = Some (j_id ?r)" using assms(4) sent(2) by (simp add: uuid_text_ok_def)
  have "\<forall>x\<in>set (jobs d). \<not> (j_name x = name \<and> j_id x = j_id ?r)"
    using sent(1) name by (auto simp: conflicts_def job_pk_def image_iff sent_row_def)
  then have "find (\<lambda>x. j_name x = name \<and> j_id x = j_id ?r) (jobs d') = Some ?r"
    unfolding sent(3) using name by (simp add: find_skip) (simp add: sent_row_def)
  then have "boss_get_job b' s name i d' = (Inr (Some (job_of_row s True (received_row (ub_db b') s ?r))), d')"
    by (simp add: boss_get_job_def running_execute [OF assms(2)] reading_def and_then_def get_job_by_id_def uuid)
  then show ?thesis using name sent(2)
    by (intro exI [of _ "job_of_row s True (received_row (ub_db b') s ?r)"])
      (simp add: job_of_row_def received_row_def sent_row_def)
qed

theorem send_then_get_witness:
  "\<exists>d' j. boss_send running_core sample_pg False ''q'' None (Some throttled_options)
     (sample_db [sample_queue ''q'' ''standard''] []) = (Inr (Some ''1000''), d') \<and>
   boss_get_job running_core sample_pg ''q'' ''1000'' d' = (Inr (Some j), d') \<and> job_state j = Some CREATED"
proof -
  let ?d = "sample_db [sample_queue ''q'' ''standard''] []"
  let ?s = "boss_send running_core sample_pg False ''q'' None (Some throttled_options) ?d"
  have "fst ?s = Inr (Some ''1000'')" by code_simp
  then have s: "?s = (Inr (Some ''1000''), snd ?s)" by (simp add: prod_eq_iff)
  have "find_queue ''q'' ?d = Some (sample_queue ''q'' ''standard'')" by code_simp
  from send_then_get [OF running_core running_core throttled_options_sendable sample_uuid_text_ok this s] s
  show ?thesis by blast
qed

end
