(* ===== verification/Schedule_Delivery.thy ===== *)
theory Schedule_Delivery
  imports Cron_Scheduler Delivery
begin

text \<open>
  What becomes of an envelope in the send-it queue: the turn of the send-it worker that fetches it sends
  the schedule's job, for every schedule of the batch, whatever the other envelopes hold.
\<close>

section \<open>One send\<close>

lemma default_sendable:
  assumes "interval_in_ok s"
  shows "sendable s SendOptions_default (pg_now s)"
proof -
  have "str_of_int 0 = ''0''" by code_simp
  moreover have "pg_add_interval s (pg_now s) (str_of_int 0) = Some (pg_now s)"
    using assms unfolding interval_in_ok_def by simp
  ultimately show ?thesis
    by (simp add: sendable_def SendOptions_default_def SendOptions_ok_def int4_ok_def int4_opt_ok_def
        encode_start_after_def start_after_of_def)
qed

text \<open>The job a schedule sends: the queue's settings, nothing else.\<close>

definition plain_row :: "pg \<Rightarrow> queue_row \<Rightarrow> (string \<times> json) list option \<Rightarrow> job_row" where
  "plain_row s q data = sent_row s q data SendOptions_default (pg_now s)"

lemma plain_row_sel:
  "j_name (plain_row s q data) = q_name q" "j_data (plain_row s q data) = map_option JObj data"
  "j_state (plain_row s q data) = CREATED" "j_id (plain_row s q data) = pg_gen_uuid s 0"
  "j_policy (plain_row s q data) = Some (q_policy q)" "j_dead_letter (plain_row s q data) = q_dead_letter q"
  "j_singleton_on (plain_row s q data) = None"
  by (simp_all add: plain_row_def sent_row_def SendOptions_default_def throttle_slot_def)

lemma plain_send:
  assumes "running b" "interval_in_ok s"
  shows "boss_sender b s name data None d =
    (case find_queue name d of
       None \<Rightarrow> (Inr None, d)
     | Some q \<Rightarrow>
         if \<not> job_check (plain_row s q data) then (Inl (Db CheckViolation), d)
         else if conflicts (jobs d) (plain_row s q data) then (Inr None, d)
         else if \<not> fk_ok (q_dead_letter q) d then (Inl (Db ForeignKeyViolation), d)
         else (Inr (Some (pg_uuid_out s (pg_gen_uuid s 0))), d\<lparr>jobs := jobs d @ [plain_row s q data]\<rparr>))"
proof -
  have "boss_sender b s name data None d = boss_send b s False name data (Some SendOptions_default) d"
    by (simp add: boss_sender_def boss_send_def)
  then show ?thesis
  proof (cases "find_queue name d")
    case None
    then show ?thesis
      by (simp add: boss_sender_def boss_send_def running_execute [OF assms(1)] insert_jobs_def and_then_def)
  next
    case (Some q)
    from insert_sent_row [OF default_sendable [OF assms(2)] this, of data] Some show ?thesis
      using plain_row_sel [of s q data]
      by (simp add: boss_sender_def boss_send_def running_execute [OF assms(1)] and_then_def Let_def plain_row_def)
  qed
qed

lemma standard_send:
  assumes "running b" "interval_in_ok s" "find_queue name d = Some q" "q_policy q = ''standard''"
    "fk_ok (q_dead_letter q) d" "pg_gen_uuid s 0 \<notin> j_id ` set (jobs d)"
  shows "snd (boss_sender b s name data None d) = d\<lparr>jobs := jobs d @ [plain_row s q data]\<rparr>"
proof -
  let ?r = "plain_row s q data"
  have "index_key i ?r = None" for i
    using assms(4) by (cases i) (simp_all add: index_defs plain_row_sel)
  moreover have "job_pk ?r \<notin> job_pk ` set (jobs d)"
    using assms(6) by (auto simp: job_pk_def plain_row_sel image_iff)
  ultimately have "\<not> conflicts (jobs d) ?r" by (simp add: conflicts_def)
  moreover have "job_check ?r" using assms(4) by (simp add: job_check_def plain_row_sel)
  ultimately show ?thesis using assms(5) by (simp add: plain_send [OF assms(1,2)] assms(3))
qed

lemma plain_send_appends:
  assumes "running b" "interval_in_ok s"
  obtains xs where "snd (boss_sender b s name data None d) = d\<lparr>jobs := jobs d @ xs\<rparr>"
    "\<forall>x\<in>set xs. j_id x = pg_gen_uuid s 0"
proof -
  have "snd (boss_sender b s name data None d) = d \<or>
      (\<exists>q. snd (boss_sender b s name data None d) = d\<lparr>jobs := jobs d @ [plain_row s q data]\<rparr>)"
    by (auto simp: plain_send [OF assms] split: option.split)
  then show ?thesis
  proof
    assume "snd (boss_sender b s name data None d) = d"
    then show ?thesis by (intro that [of "[]"]) simp_all
  next
    assume "\<exists>q. snd (boss_sender b s name data None d) = d\<lparr>jobs := jobs d @ [plain_row s q data]\<rparr>"
    then obtain q where "snd (boss_sender b s name data None d) = d\<lparr>jobs := jobs d @ [plain_row s q data]\<rparr>" ..
    then show ?thesis by (intro that [of "[plain_row s q data]"]) (simp_all add: plain_row_sel)
  qed
qed

section \<open>The handler's batch\<close>

lemma send_all_appends:
  assumes "running b" "\<forall>m. interval_in_ok (env m)" "inj (\<lambda>m. pg_gen_uuid (env m) 0)"
    "\<forall>m\<ge>k. pg_gen_uuid (env m) 0 \<notin> j_id ` set (jobs d)"
  shows "\<exists>new. send_all (boss_sender b) env k js d = d\<lparr>jobs := jobs d @ new\<rparr> \<and>
    (\<forall>i<length js. \<forall>name data q. open_envelope (job_data (js ! i)) = Inr (name, data) \<longrightarrow>
      find_queue name d = Some q \<longrightarrow> q_policy q = ''standard'' \<longrightarrow> fk_ok (q_dead_letter q) d \<longrightarrow>
      plain_row (env (k + i)) q data \<in> set new)"
  using assms(4)
proof (induction js arbitrary: k d)
  case Nil
  show ?case by (intro exI [of _ "[]"]) simp
next
  case (Cons j js)
  let ?sent = "case open_envelope (job_data j) of Inl e \<Rightarrow> d
    | Inr (name, data) \<Rightarrow> snd (boss_sender b (env k) name data None d)"
  have all: "send_all (boss_sender b) env k (j # js) d = send_all (boss_sender b) env (Suc k) js ?sent"
    by (auto split: sum.split)
  have "\<exists>xs. ?sent = d\<lparr>jobs := jobs d @ xs\<rparr> \<and> (\<forall>x\<in>set xs. j_id x = pg_gen_uuid (env k) 0)"
  proof (cases "open_envelope (job_data j)")
    case (Inl e)
    then show ?thesis by (intro exI [of _ "[]"]) simp
  next
    case (Inr p)
    obtain name data where p: "p = (name, data)" by (cases p)
    obtain xs where "snd (boss_sender b (env k) name data None d) = d\<lparr>jobs := jobs d @ xs\<rparr>"
      "\<forall>x\<in>set xs. j_id x = pg_gen_uuid (env k) 0"
      by (rule plain_send_appends [OF assms(1) spec [OF assms(2)]])
    then show ?thesis by (intro exI [of _ xs]) (simp add: Inr p)
  qed
  then obtain xs where sent: "?sent = d\<lparr>jobs := jobs d @ xs\<rparr>"
    and xs: "\<forall>x\<in>set xs. j_id x = pg_gen_uuid (env k) 0" by (elim exE conjE) (rule that)
  define d1 where "d1 = d\<lparr>jobs := jobs d @ xs\<rparr>"
  have d1: "d1 = ?sent" "jobs d1 = jobs d @ xs" unfolding d1_def by (rule sent [symmetric]) simp
  have fresh: "pg_gen_uuid (env m) 0 \<notin> j_id ` set (jobs d1)" if "Suc k \<le> m" for m
  proof
    assume "pg_gen_uuid (env m) 0 \<in> j_id ` set (jobs d1)"
    moreover have "pg_gen_uuid (env m) 0 \<notin> j_id ` set (jobs d)" using Cons.prems that by (meson Suc_leD)
    ultimately have "pg_gen_uuid (env m) 0 = pg_gen_uuid (env k) 0" using d1(2) xs by auto
    from injD [OF assms(3) this] that show False by simp
  qed
  then obtain new where
    rest: "send_all (boss_sender b) env (Suc k) js d1 = d1\<lparr>jobs := jobs d1 @ new\<rparr>"
    and new: "\<And>i name data q. i < length js \<Longrightarrow> open_envelope (job_data (js ! i)) = Inr (name, data) \<Longrightarrow>
      find_queue name d1 = Some q \<Longrightarrow> q_policy q = ''standard'' \<Longrightarrow> fk_ok (q_dead_letter q) d1 \<Longrightarrow>
      plain_row (env (Suc k + i)) q data \<in> set new"
    using Cons.IH [of "Suc k" d1] by blast
  show ?case
  proof (intro exI [of _ "xs @ new"] conjI allI impI)
    show "send_all (boss_sender b) env k (j # js) d = d\<lparr>jobs := jobs d @ xs @ new\<rparr>"
      unfolding all d1(1) [symmetric] rest by (simp add: d1_def)
    fix i name data q
    assume i: "i < length (j # js)" "open_envelope (job_data ((j # js) ! i)) = Inr (name, data)"
      and q: "find_queue name d = Some q" "q_policy q = ''standard''" "fk_ok (q_dead_letter q) d"
    show "plain_row (env (k + i)) q data \<in> set (xs @ new)"
    proof (cases i)
      case 0
      have "pg_gen_uuid (env k) 0 \<notin> j_id ` set (jobs d)" using Cons.prems by blast
      from standard_send [OF assms(1) spec [OF assms(2)] q this, of data] 0 i(2) d1(1)
      have "jobs d1 = jobs d @ [plain_row (env k) q data]" by simp
      with d1(2) 0 show ?thesis by auto
    next
      case (Suc m)
      have "find_queue name d1 = Some q" "fk_ok (q_dead_letter q) d1"
        using q by (simp_all add: d1_def find_queue_def)
      with new [of m name data q] i q(2) Suc show ?thesis by simp
    qed
  qed
qed

section \<open>From the envelope to the job\<close>

lemma open_own_envelope:
  "sch_data sch = map_option JObj data \<Longrightarrow> open_envelope (Some (JObj (envelope sch))) = Inr (sch_name sch, data)"
  by (cases data) (simp_all add: open_envelope_def envelope_get_def envelope_def json_or_null_def)

lemma handler_evolves: "evolve d (send_all (boss_sender b) env k js d)"
  by (rule boss.send_all_runs)

lemma sendit_turn:
  assumes "running b" "has_codecs pool" "db_ok d"
    "worker_fetch options SEND_IT_QUEUE t d = Inr (d1, rows)"
    "tn_fetch_reply t = Answered" "tn_settle_reply t = Answered" "uuid_text_ok (tn_settle t)"
    "\<forall>m. interval_in_ok (env m)" "inj (\<lambda>m. pg_gen_uuid (env m) 0)"
    "\<forall>m. pg_gen_uuid (env m) 0 \<notin> j_id ` set (jobs d1)"
    "r \<in> set rows" "j_data r = Some (JObj (envelope sch))" "sch_data sch = map_option JObj data"
    "find_queue (sch_name sch) d1 = Some q" "q_policy q = ''standard''"
    "worker_turn pool options (on_send_it (boss_sender b) env) SEND_IT_QUEUE t w d = (w', pause, d')"
  shows "(\<exists>m. plain_row (env m) q data \<in> set (jobs d')) \<and>
    (\<forall>r\<in>set rows. \<exists>j\<in>set (jobs d'). job_pk j = job_pk r \<and> j_state j = COMPLETED)"
proof -
  let ?h = "on_send_it (boss_sender b) env" and ?js = "jobs_of pool options t rows"
  have ok1: "db_ok d1" using fetched_batch [OF assms(3)] assms(4) by (auto simp: worker_fetch_def)
  have fk: "fk_ok (q_dead_letter q) d1"
    using ok1 find_queue_Some [OF assms(14)] by (auto simp: db_ok_def queues_ok_def queue_row_ok_def)
  obtain new where new: "send_all (boss_sender b) env 0 ?js d1 = d1\<lparr>jobs := jobs d1 @ new\<rparr>"
    and sent: "\<And>i name data q. i < length ?js \<Longrightarrow> open_envelope (job_data (?js ! i)) = Inr (name, data) \<Longrightarrow>
      find_queue name d1 = Some q \<Longrightarrow> q_policy q = ''standard'' \<Longrightarrow> fk_ok (q_dead_letter q) d1 \<Longrightarrow>
      plain_row (env (0 + i)) q data \<in> set new"
    using send_all_appends [OF assms(1,8,9), of 0 d1 ?js] assms(10) by blast
  define d2 where "d2 = d1\<lparr>jobs := jobs d1 @ new\<rparr>"
  have h: "?h ?js d1 = (Returned JNull, d2)" by (simp add: on_send_it_def new d2_def)
  have ok2: "db_ok d2" using evolve_db_ok [OF handler_evolves ok1] new unfolding d2_def by metis
  obtain i where i: "i < length rows" "rows ! i = r" using assms(11) by (auto simp: in_set_conv_nth)
  then have "?js ! i = job_of_row (tn_fetch t) (wo_include_metadata options) r" "i < length ?js"
    by (simp_all add: jobs_of_def assms(2))
  then have "plain_row (env i) q data \<in> set new"
    using sent [of i "sch_name sch" data q] open_own_envelope [OF assms(13)] assms(12,14,15) fk
    by (simp add: job_of_row_def)
  moreover have "rows \<noteq> []" using assms(11) by auto
  note turn = turn_completes [where h = ?h and v = JNull and t = t and w = w, OF ok2 assms(4) this assms(5-7) h]
  have jobs: "jobs d' = set_where (complete_where SEND_IT_QUEUE (map j_id rows))
      (complete_set (tn_settle t) (mapping_output JNull)) (jobs d1 @ new)"
    using assms(16) unfolding turn by (auto simp: d2_def)
  have keeps: "j \<in> set (jobs d')" if "j \<in> set new" "j_state j = CREATED" for j
    using that unfolding jobs by (force simp: set_where_def complete_where_def)
  have completes: "complete_set (tn_settle t) (mapping_output JNull) x \<in> set (jobs d')" if "x \<in> set rows" for x
  proof -
    note row = fetched_rows [OF assms(4) that]
    have "complete_where SEND_IT_QUEUE (map j_id rows) x"
      using that row by (simp add: complete_where_def id_in_def)
    then show ?thesis using row(1) unfolding jobs by (force simp: set_where_def)
  qed
  have "job_pk (complete_set (tn_settle t) (mapping_output JNull) x) = job_pk x \<and>
      j_state (complete_set (tn_settle t) (mapping_output JNull) x) = COMPLETED" for x
    by (simp add: complete_set_def job_pk_def)
  with completes calculation keeps show ?thesis by (metis plain_row_sel(3))
qed

text \<open>A firing becomes a job: the turn of the send-it worker that fetched the envelope of a schedule puts a
  new \<^verbatim>\<open>created\<close> job with the schedule's data and the queue's settings into the schedule's queue, a
  standard queue, for every schedule of the batch and whatever else the batch holds, and completes
  the whole batch. It needs a running object, a pool with the codecs, new ids and a settling
  statement that arrives.\<close>
theorem sendit_delivers:
  assumes "running b" "has_codecs pool" "db_ok d"
    "worker_fetch options SEND_IT_QUEUE t d = Inr (d1, rows)"
    "tn_fetch_reply t = Answered" "tn_settle_reply t = Answered" "uuid_text_ok (tn_settle t)"
    "\<forall>m. interval_in_ok (env m)" "inj (\<lambda>m. pg_gen_uuid (env m) 0)"
    "\<forall>m. pg_gen_uuid (env m) 0 \<notin> j_id ` set (jobs d1)"
    "r \<in> set rows" "j_data r = Some (JObj (envelope sch))" "sch_data sch = map_option JObj data"
    "find_queue (sch_name sch) d1 = Some q" "q_policy q = ''standard''"
    "worker_turn pool options (on_send_it (boss_sender b) env) SEND_IT_QUEUE t w d = (w', pause, d')"
  shows "(\<exists>m. plain_row (env m) q data \<in> set (jobs d')) \<and>
    (\<forall>r\<in>set rows. \<exists>j\<in>set (jobs d'). job_pk j = job_pk r \<and> j_state j = COMPLETED)"
  by (rule sendit_turn [OF assms])

text \<open>A schedule of a strict-FIFO queue never delivers: the scheduled send has no singleton key, the insert
  violates the check, the handler drops the exception, and the batch is completed all the same.\<close>

theorem strict_fifo_schedule_lost:
  assumes "running b" "interval_in_ok (env k)" "find_queue (sch_name sch) d = Some q" "q_policy q = ''key_strict_fifo''"
    "job_data j = Some (JObj (envelope sch))" "sch_data sch = map_option JObj data"
  shows "boss_sender b (env k) (sch_name sch) data None d = (Inl (Db CheckViolation), d) \<and>
    send_all (boss_sender b) env k (j # js) d = send_all (boss_sender b) env (Suc k) js d"
proof -
  have "\<not> job_check (plain_row (env k) q data)"
    using assms(4) by (simp add: job_check_def plain_row_def sent_row_def SendOptions_default_def)
  then have "boss_sender b (env k) (sch_name sch) data None d = (Inl (Db CheckViolation), d)"
    by (simp add: plain_send [OF assms(1,2)] assms(3))
  then show ?thesis by (simp add: assms(5) open_own_envelope [OF assms(6)])
qed

text \<open>A send-it queue with one envelope, and its worker's servers, each with ids of its own.\<close>

definition envelope_sample :: db where
  "envelope_sample =
     sample_db [sample_queue SEND_IT_QUEUE ''standard'', sample_queue ''mail'' ''standard'']
       [(sample_job SEND_IT_QUEUE ''standard'' 1 CREATED)\<lparr>j_data := Some (JObj (envelope (sample_schedule ''mail'' [] None)))\<rparr>]"

definition sendit_env :: "nat \<Rightarrow> pg" where
  "sendit_env m = fst (node_at (7231 * second) m)"

lemma sendit_env_ok:
  "\<forall>m. interval_in_ok (sendit_env m)" "inj (\<lambda>m. pg_gen_uuid (sendit_env m) 0)" "pg_gen_uuid (sendit_env m) 0 \<noteq> 1"
  by (simp_all add: sendit_env_def sample_interval_ok) (simp_all add: node_at_def inj_def)

theorem sendit_delivers_witness:
  "\<exists>d'. snd (snd (worker_turn own_pool (sendit_work_options (scheduler_new 60))
     (on_send_it (boss_sender running_core) sendit_env) SEND_IT_QUEUE (quiet_turn sample_pg) worker_new envelope_sample)) = d' \<and>
   (\<exists>j\<in>set (jobs d'). j_name j = ''mail'' \<and> j_state j = CREATED) \<and>
   (\<exists>j\<in>set (jobs d'). job_pk j = (SEND_IT_QUEUE, 1) \<and> j_state j = COMPLETED)"
proof -
  let ?o = "sendit_work_options (scheduler_new 60)" and ?sch = "sample_schedule ''mail'' [] None"
  let ?t = "quiet_turn sample_pg" and ?q = "sample_queue ''mail'' ''standard''"
  have "case worker_fetch ?o SEND_IT_QUEUE ?t envelope_sample of Inl e \<Rightarrow> False
    | Inr (d1, rows) \<Rightarrow> map j_data rows = [Some (JObj (envelope ?sch))] \<and> map job_pk rows = [(SEND_IT_QUEUE, 1)] \<and>
        map j_id (jobs d1) = [1] \<and> find_queue (sch_name ?sch) d1 = Some ?q" by code_simp
  then obtain d1 r where f: "worker_fetch ?o SEND_IT_QUEUE ?t envelope_sample = Inr (d1, [r])"
    and r: "j_data r = Some (JObj (envelope ?sch))" "job_pk r = (SEND_IT_QUEUE, 1)"
    and d1: "map j_id (jobs d1) = [1]" "find_queue (sch_name ?sch) d1 = Some ?q"
    by (auto split: sum.splits)
  obtain w' p d' where turn: "worker_turn own_pool ?o (on_send_it (boss_sender running_core) sendit_env) SEND_IT_QUEUE ?t
      worker_new envelope_sample = (w', p, d')" by (metis prod_cases3)
  have "db_ok envelope_sample" by code_simp
  moreover have "j_id ` set (jobs d1) = {1}" using d1(1) by (metis list.set(1) list.set(2) list.set_map)
  then have "\<forall>m. pg_gen_uuid (sendit_env m) 0 \<notin> j_id ` set (jobs d1)" using sendit_env_ok(3) by simp
  moreover have "sch_data ?sch = map_option JObj None" "q_policy ?q = ''standard''"
    by (simp_all add: sample_schedule_def sample_queue_def)
  ultimately have "(\<exists>m. plain_row (sendit_env m) ?q None \<in> set (jobs d')) \<and>
      (\<forall>r\<in>set [r]. \<exists>j\<in>set (jobs d'). job_pk j = job_pk r \<and> j_state j = COMPLETED)"
    using sendit_delivers [OF running_core own_pool_open(2) _ f _ _ _ sendit_env_ok(1,2) _ _ r(1) _ d1(2) _ turn] by simp
  then show ?thesis using turn r(2) plain_row_sel(1,3) [of _ ?q None] by (auto simp: sample_queue_def)
qed

theorem strict_fifo_schedule_lost_witness:
  "boss_sender running_core (sendit_env 0) ''mail'' None None (sample_db [sample_queue ''mail'' ''key_strict_fifo''] []) =
     (Inl (Db CheckViolation), sample_db [sample_queue ''mail'' ''key_strict_fifo''] [])"
proof -
  have "find_queue (sch_name (sample_schedule ''mail'' [] None)) (sample_db [sample_queue ''mail'' ''key_strict_fifo''] []) =
      Some (sample_queue ''mail'' ''key_strict_fifo'')" by code_simp
  moreover have "q_policy (sample_queue ''mail'' ''key_strict_fifo'') = ''key_strict_fifo''"
    "sch_data (sample_schedule ''mail'' [] None) = map_option JObj None" "sch_name (sample_schedule ''mail'' [] None) = ''mail''"
    by (simp_all add: sample_queue_def sample_schedule_def)
  ultimately show ?thesis
    using strict_fifo_schedule_lost [where env = sendit_env and k = 0 and sch = "sample_schedule ''mail'' [] None"
        and j = "job_of_row sample_pg False (sample_job ''x'' ''standard'' 1 CREATED)\<lparr>job_data := Some (JObj (envelope (sample_schedule ''mail'' [] None)))\<rparr>"
        and data = None and js = "[]", OF running_core spec [OF sendit_env_ok(1)]]
    by simp
qed

end
