(* ===== verification/Schedule_Fires.thy ===== *)
theory Schedule_Fires
  imports Schedule_Delivery
begin

text \<open>
  From the schedule to its job: the tick that finds a schedule due and the next turn of the send-it
  worker together put the schedule's job into its queue.
\<close>

section \<open>What a tick adds\<close>

definition envelope_row :: "pg \<Rightarrow> queue_row \<Rightarrow> schedule_row \<Rightarrow> job_row" where
  "envelope_row s q row = sent_row s q (Some (envelope row)) (sendit_options row) (pg_now s)"

lemma envelope_row_sel:
  "j_name (envelope_row s q row) = q_name q" "j_data (envelope_row s q row) = Some (JObj (envelope row))"
  "j_state (envelope_row s q row) = CREATED" "j_start_after (envelope_row s q row) = pg_now s"
  "j_singleton_key (envelope_row s q row) = so_singleton_key (sendit_options row)"
  by (simp_all add: envelope_row_def sent_row_def)

lemma sendit_send:
  assumes "running b" "interval_in_ok s" "find_queue SEND_IT_QUEUE d = Some q"
    "boss_sender b s SEND_IT_QUEUE (Some (envelope row)) (Some (sendit_options row)) d = (Inr x, d')"
  shows "queues d' = queues d \<and> (jobs d' = jobs d \<or> jobs d' = jobs d @ [envelope_row s q row])"
  using assms(4) insert_sent_row [OF sendit_sendable [OF assms(2)] assms(3), of "Some (envelope row)" row]
  by (auto simp: boss_sender_def boss_send_def running_execute [OF assms(1)] and_then_def Let_def envelope_row_def
      split: if_splits)

lemma enqueue_due_appends:
  assumes "running b" "\<forall>m. interval_in_ok (fst (env m))" "find_queue SEND_IT_QUEUE d = Some q"
    "enqueue_due lib (boss_sender b) env k rows d = (Inr (), d')"
  shows "\<exists>new. jobs d' = jobs d @ new \<and> queues d' = queues d \<and>
    (\<forall>x\<in>set new. \<exists>m. \<exists>row\<in>set rows. x = envelope_row (fst (env m)) q row)"
  using assms(3,4)
proof (induction rows arbitrary: k d)
  case (Cons row rows)
  obtain d1 xs where d1: "queues d1 = queues d" "jobs d1 = jobs d @ xs"
    "\<forall>x\<in>set xs. x = envelope_row (fst (env k)) q row"
    "enqueue_due lib (boss_sender b) env (Suc k) rows d1 = (Inr (), d')"
  proof (cases "should_send lib (snd (env k)) (sch_cron row) (sch_timezone row) = Inr True")
    case True
    with Cons.prems(2) obtain x d1 where
      send: "boss_sender b (fst (env k)) SEND_IT_QUEUE (Some (envelope row)) (Some (sendit_options row)) d = (Inr x, d1)"
      and rest: "enqueue_due lib (boss_sender b) env (Suc k) rows d1 = (Inr (), d')"
      by (auto split: prod.splits sum.splits)
    from sendit_send [OF assms(1) spec [OF assms(2)] Cons.prems(1) send] have q: "queues d1 = queues d"
      and j: "jobs d1 = jobs d \<or> jobs d1 = jobs d @ [envelope_row (fst (env k)) q row]" by auto
    from j show ?thesis
    proof
      assume "jobs d1 = jobs d"
      with q rest show ?thesis by (intro that [of d1 "[]"]) simp_all
    next
      assume "jobs d1 = jobs d @ [envelope_row (fst (env k)) q row]"
      with q rest show ?thesis by (intro that [of d1 "[envelope_row (fst (env k)) q row]"]) simp_all
    qed
  next
    case False
    with Cons.prems(2) have "enqueue_due lib (boss_sender b) env (Suc k) rows d = (Inr (), d')"
      by (auto split: sum.splits if_splits)
    then show ?thesis by (intro that [of d "[]"]) simp_all
  qed
  have "find_queue SEND_IT_QUEUE d1 = Some q" using Cons.prems(1) d1(1) by (simp add: find_queue_def)
  from Cons.IH [OF this d1(4)] obtain new where new: "jobs d' = jobs d1 @ new" "queues d' = queues d1"
    "\<forall>x\<in>set new. \<exists>m. \<exists>row\<in>set rows. x = envelope_row (fst (env m)) q row" by blast
  show ?case
  proof (intro exI [of _ "xs @ new"] conjI)
    show "jobs d' = jobs d @ xs @ new" using new(1) d1(2) by simp
    show "queues d' = queues d" using new(2) d1(1) by simp
    show "\<forall>x\<in>set (xs @ new). \<exists>m. \<exists>r\<in>set (row # rows). x = envelope_row (fst (env m)) q r"
      using d1(3) new(3) by auto blast
  qed
qed simp

text \<open>A due schedule whose slots are free gets an envelope of its own, when no other schedule has its key.\<close>

lemma due_gets_envelope:
  assumes "running b" "\<forall>m. interval_in_ok (fst (env m))" "inj (\<lambda>m. pg_gen_uuid (fst (env m)) 0)"
    "find_queue SEND_IT_QUEUE d = Some q" "q_policy q = ''standard''"
    "\<forall>m. (SEND_IT_QUEUE, pg_gen_uuid (fst (env m)) 0) \<notin> job_pk ` set (jobs d)"
    "enqueue_due lib (boss_sender b) env 0 rows d = (Inr (), d')" "sch \<in> set rows"
    "\<forall>m. should_send lib (snd (env m)) (sch_cron sch) (sch_timezone sch) = Inr True"
    "\<forall>m. \<forall>j\<in>set (jobs d). \<not> in_slot (so_singleton_key (sendit_options sch))
      (throttle_slot (fst (env m)) (sendit_options sch)) j"
    "\<forall>row\<in>set rows. so_singleton_key (sendit_options row) = so_singleton_key (sendit_options sch) \<longrightarrow> row = sch"
  shows "\<exists>m. envelope_row (fst (env m)) q sch \<in> set (jobs d')"
proof -
  obtain i where i: "i < length rows" "rows ! i = sch" using assms(8) by (auto simp: in_set_conv_nth)
  let ?slot = "throttle_slot (fst (env i)) (sendit_options sch)"
  have "\<exists>j\<in>set (jobs d'). in_slot (so_singleton_key (sendit_options sch)) ?slot j"
    using enqueue_due_fills [OF assms(1-5) _ assms(7)] assms(6,9) i by auto
  then obtain j where j: "j \<in> set (jobs d')" "in_slot (so_singleton_key (sendit_options sch)) ?slot j" by blast
  from enqueue_due_appends [OF assms(1,2,4,7)] obtain new where new: "jobs d' = jobs d @ new"
    "\<forall>x\<in>set new. \<exists>m. \<exists>row\<in>set rows. x = envelope_row (fst (env m)) q row" by blast
  have "j \<notin> set (jobs d)" using j(2) assms(10) by blast
  with j(1) new obtain m row where row: "row \<in> set rows" "j = envelope_row (fst (env m)) q row" by auto
  with j(2) have "so_singleton_key (sendit_options row) = so_singleton_key (sendit_options sch)"
    by (simp add: in_slot_def envelope_row_sel)
  with assms(11) row j(1) show ?thesis by blast
qed

lemma tick_gets_envelope:
  assumes "running b" "has_codecs (ub_db b)" "\<forall>m. interval_in_ok (fst (env m))" "inj (\<lambda>m. pg_gen_uuid (fst (env m)) 0)"
    "find_queue SEND_IT_QUEUE d = Some q" "q_policy q = ''standard''"
    "\<forall>m. (SEND_IT_QUEUE, pg_gen_uuid (fst (env m)) 0) \<notin> job_pk ` set (jobs d)"
    "scheduler_tick lib (ub_db b) (boss_sender b) s env interval d = (Inr (), d1)"
    "snd (try_set_cron_time s interval d) \<noteq> []" "sch \<in> set (schedules d)"
    "\<forall>m. should_send lib (snd (env m)) (sch_cron sch) (sch_timezone sch) = Inr True"
    "\<forall>m. \<forall>j\<in>set (jobs d). \<not> in_slot (so_singleton_key (sendit_options sch))
      (throttle_slot (fst (env m)) (sendit_options sch)) j"
    "\<forall>row\<in>set (schedules d). so_singleton_key (sendit_options row) = so_singleton_key (sendit_options sch) \<longrightarrow> row = sch"
  shows "queues d1 = queues d \<and> (\<exists>m. envelope_row (fst (env m)) q sch \<in> set (jobs d1))"
proof -
  obtain dv won where v: "try_set_cron_time s interval d = (dv, won)" by (cases "try_set_cron_time s interval d")
  then have same: "jobs dv = jobs d" "queues dv = queues d" "schedules dv = schedules d"
    by (auto simp: try_set_cron_time_def)
  have rows: "set (get_schedules dv) = set (schedules d)" by (simp add: get_schedules_def same)
  have q: "find_queue SEND_IT_QUEUE dv = Some q" using assms(5) same(2) by (simp add: find_queue_def)
  have tick: "enqueue_due lib (boss_sender b) env 0 (get_schedules dv) dv = (Inr (), d1)"
  proof -
    have "map (received_schedule (ub_db b) s) (get_schedules dv) = get_schedules dv"
      by (rule map_idI) (simp add: assms(2))
    with assms(8,9) v show ?thesis by (simp add: scheduler_tick_def)
  qed
  have "queues d1 = queues dv" using enqueue_due_appends [OF assms(1,3) q tick] by blast
  moreover have "\<exists>m. envelope_row (fst (env m)) q sch \<in> set (jobs d1)"
    by (rule due_gets_envelope [OF assms(1,3,4) q assms(6) _ tick]) (use assms(7,10-13) rows same in auto)
  ultimately show ?thesis using same(2) by simp
qed

section \<open>The worker's fetch\<close>

lemma whole_queue_fetched:
  assumes "db_ok d" "standard_jobs s name (jobs d)"
    "int (length (filter (claimable s name) (jobs d))) \<le> n" "x \<in> set (jobs d)" "claimable s name x"
  shows "\<exists>d' rows. fetch_next_job s name n None d = Inr (d', rows) \<and> claimed s x \<in> set rows \<and>
    queues d' = queues d \<and> j_id ` set (jobs d') = j_id ` set (jobs d)"
proof -
  let ?T = "set (next_batch s name n (jobs d))"
  have n: "0 \<le> n" using assms(3) by linarith
  have "length (claim_queue s name (jobs d)) \<le> nat n" using assms(3) by (simp add: claim_queue_def)
  then have "x \<in> ?T" using assms(4,5) by (simp add: next_batch_def)
  with assms(4) have "claimed s x \<in> set (map (claimed s) (filter (\<lambda>j. j \<in> ?T) (jobs d)))" by auto
  moreover have "map j_id (set_where (\<lambda>j. j \<in> ?T) (claimed s) (jobs d)) = map j_id (jobs d)"
    by (simp add: set_where_def claimed_def)
  then have "j_id ` set (set_where (\<lambda>j. j \<in> ?T) (claimed s) (jobs d)) = j_id ` set (jobs d)"
    by (metis list.set_map)
  ultimately show ?thesis using fetch_standard [OF assms(1,2) n] by simp
qed

section \<open>Schedule, tick, worker, job\<close>

text \<open>Servers of several sends: they read plain intervals and draw ids that are distinct and new.\<close>

definition fresh_servers :: "(nat \<Rightarrow> pg) \<Rightarrow> db \<Rightarrow> bool" where
  "fresh_servers srv d \<longleftrightarrow>
     (\<forall>m. interval_in_ok (srv m)) \<and> inj (\<lambda>m. pg_gen_uuid (srv m) 0) \<and>
     (\<forall>m. pg_gen_uuid (srv m) 0 \<notin> j_id ` set (jobs d))"

definition standard_queue :: "string \<Rightarrow> db \<Rightarrow> queue_row \<Rightarrow> bool" where
  "standard_queue name d q \<longleftrightarrow> find_queue name d = Some q \<and> q_policy q = ''standard''"

text \<open>The schedule is due on that node's clock, and no job holds a slot it would send into, nor could
  another schedule of the table take it.\<close>

definition fires_alone :: "cron_lib \<Rightarrow> (nat \<Rightarrow> pg \<times> int) \<Rightarrow> schedule_row \<Rightarrow> db \<Rightarrow> bool" where
  "fires_alone lib env sch d \<longleftrightarrow>
     (\<forall>m. should_send lib (snd (env m)) (sch_cron sch) (sch_timezone sch) = Inr True) \<and>
     (\<forall>m. \<forall>j\<in>set (jobs d). \<not> in_slot (so_singleton_key (sendit_options sch))
        (throttle_slot (fst (env m)) (sendit_options sch)) j) \<and>
     (\<forall>row\<in>set (schedules d). so_singleton_key (sendit_options row) = so_singleton_key (sendit_options sch) \<longrightarrow> row = sch)"

text \<open>A turn that reaches the database, with a batch large enough for what is queued.\<close>

definition clear_turn :: "string \<Rightarrow> WorkOptions \<Rightarrow> turn \<Rightarrow> db \<Rightarrow> bool" where
  "clear_turn name options t d \<longleftrightarrow>
     tn_fetch_reply t = Answered \<and> tn_settle_reply t = Answered \<and> uuid_text_ok (tn_settle t) \<and>
     standard_jobs (tn_fetch t) name (jobs d) \<and>
     list_all (\<lambda>j. \<not> pg_skip_locked (tn_fetch t) (job_pk j)) (jobs d) \<and>
     int (length (filter (claimable (tn_fetch t) name) (jobs d))) \<le> wo_batch_size options"

text \<open>C21. A schedule fires: when a node wins the tick in the minute of a schedule's firing, no job of that minute
  was queued before and no other schedule has the same throttle key, then after that tick and the
  next turn of a send-it worker whose batch holds what is queued, a \<^verbatim>\<open>created\<close> job with the schedule's
  data stands in the schedule's queue, a standard queue, whatever else the two loops met.\<close>
theorem schedule_fires:
  assumes "running b" "has_codecs (ub_db b)" "db_ok d" "sch \<in> set (schedules d)" "sch_data sch = map_option JObj data"
    "standard_queue SEND_IT_QUEUE d q0" "standard_queue (sch_name sch) d q"
    "scheduler_tick lib (ub_db b) (boss_sender b) s env interval d = (Inr (), d1)"
    "snd (try_set_cron_time s interval d) \<noteq> []" "fires_alone lib env sch d" "fresh_servers (\<lambda>m. fst (env m)) d"
    "worker_turn (ub_db b) (sendit_work_options sd) (on_send_it (boss_sender b) env') SEND_IT_QUEUE t w d1 = (w', pause, d2)"
    "clear_turn SEND_IT_QUEUE (sendit_work_options sd) t d1" "fresh_servers env' d1"
    "\<forall>m. pg_now (fst (env m)) \<le> pg_now (tn_fetch t)"
  shows "\<exists>m. plain_row (env' m) q data \<in> set (jobs d2)"
proof -
  let ?f = "tn_fetch t" and ?o = "sendit_work_options sd"
  note hyps = assms(6,7,10,11,13,14) [unfolded standard_queue_def fires_alone_def fresh_servers_def clear_turn_def]
  have ids: "\<forall>m. (SEND_IT_QUEUE, pg_gen_uuid (fst (env m)) 0) \<notin> job_pk ` set (jobs d)"
    using hyps(4) by (auto simp: job_pk_def image_iff)
  have "queues d1 = queues d \<and> (\<exists>m. envelope_row (fst (env m)) q0 sch \<in> set (jobs d1))"
    by (rule tick_gets_envelope [OF assms(1,2) _ _ _ _ ids assms(8,9,4)]) (use hyps in blast)+
  then obtain m where qs: "queues d1 = queues d" and x: "envelope_row (fst (env m)) q0 sch \<in> set (jobs d1)" by blast
  let ?x = "envelope_row (fst (env m)) q0 sch"
  have ok: "db_ok d1" using evolve_db_ok [OF boss.tick_runs assms(3)] assms(8) by (metis snd_conv)
  have "\<not> pg_skip_locked ?f (job_pk ?x)" using hyps(5) x by (simp add: list_all_iff)
  then have "claimable ?f SEND_IT_QUEUE ?x"
    using find_queue_Some [of SEND_IT_QUEUE d q0] hyps(1) assms(15)
    by (simp add: claimable_def fetch_where_def envelope_row_sel)
  with whole_queue_fetched [OF ok _ _ x, of ?f SEND_IT_QUEUE "wo_batch_size ?o"] hyps(5) obtain d3 rows where
    f: "fetch_next_job ?f SEND_IT_QUEUE (wo_batch_size ?o) None d1 = Inr (d3, rows)" and r: "claimed ?f ?x \<in> set rows"
    and d3: "queues d3 = queues d1" "j_id ` set (jobs d3) = j_id ` set (jobs d1)" by blast
  have fetch: "worker_fetch ?o SEND_IT_QUEUE t d1 = Inr (d3, rows)"
    using f by (simp add: worker_fetch_def sendit_work_options_def WorkOptions_default_def)
  have data: "j_data (claimed ?f ?x) = Some (JObj (envelope sch))" by (simp add: claimed_def envelope_row_sel)
  have "find_queue (sch_name sch) d3 = Some q" using hyps(2) qs d3(1) by (simp add: find_queue_def)
  with sendit_turn [where r = "claimed ?f ?x", OF assms(1,2) ok fetch _ _ _ _ _ _ r data assms(5) _ _ assms(12)] hyps d3(2)
  show ?thesis by simp
qed

text \<open>An hourly schedule for \<^verbatim>\<open>mail\<close>, the tick half a minute past two and a worker a second later.\<close>

definition hourly :: db where
  "hourly = (sample_db [sample_queue SEND_IT_QUEUE ''standard'', sample_queue ''mail'' ''standard''] [])
     \<lparr>schedules := [sample_schedule ''mail'' [] None]\<rparr>"

definition hourly_env :: "nat \<Rightarrow> pg \<times> int" where
  "hourly_env m = node_at (7230 * second) m"

definition later_env :: "nat \<Rightarrow> pg" where
  "later_env m = sendit_env (m + 5)"

definition hourly_turn :: turn where
  "hourly_turn = quiet_turn (fst (node_at (7231 * second) 90))"

definition after_tick :: db where
  "after_tick = snd (scheduler_tick sample_lib own_pool (boss_sender running_core) (fst (hourly_env 0)) hourly_env 60 hourly)"

lemma hourly_fires: "fires_alone sample_lib hourly_env (sample_schedule ''mail'' [] None) hourly"
proof -
  have "should_send sample_lib (7230 * second) (sch_cron (sample_schedule ''mail'' [] None))
      (sch_timezone (sample_schedule ''mail'' [] None)) = Inr True" by code_simp
  then show ?thesis by (simp add: fires_alone_def hourly_env_def node_at_def hourly_def sample_db_def)
qed

lemma hourly_servers: "fresh_servers (\<lambda>m. fst (hourly_env m)) hourly" "fresh_servers later_env after_tick"
proof -
  have "map j_id (jobs after_tick) = [1000]" by code_simp
  then have "j_id ` set (jobs after_tick) = {1000}" by (metis list.set(1) list.set(2) list.set_map)
  moreover have "pg_gen_uuid (later_env m) 0 = 1500 + 100 * m" for m
    by (simp add: later_env_def sendit_env_def node_at_def)
  ultimately show "fresh_servers later_env after_tick"
    by (simp add: fresh_servers_def sendit_env_ok(1) [unfolded all_conj_distrib] inj_def)
      (simp add: later_env_def sendit_env_ok(1))
  show "fresh_servers (\<lambda>m. fst (hourly_env m)) hourly"
    by (simp add: fresh_servers_def hourly_env_def sample_interval_ok)
      (simp add: node_at_def inj_def hourly_def sample_db_def)
qed

theorem schedule_fires_witness:
  "\<exists>j\<in>set (jobs (snd (snd (worker_turn own_pool (sendit_work_options (scheduler_new 60))
     (on_send_it (boss_sender running_core) later_env) SEND_IT_QUEUE hourly_turn worker_new after_tick)))).
   j_name j = ''mail'' \<and> j_state j = CREATED"
proof -
  let ?o = "sendit_work_options (scheduler_new 60)" and ?sch = "sample_schedule ''mail'' [] None"
  let ?tick = "scheduler_tick sample_lib own_pool (boss_sender running_core) (fst (hourly_env 0)) hourly_env 60 hourly"
  have "fst ?tick = Inr ()" by code_simp
  then have tick: "scheduler_tick sample_lib (ub_db running_core) (boss_sender running_core) (fst (hourly_env 0)) hourly_env 60
      hourly = (Inr (), after_tick)" by (simp add: after_tick_def running_core_def prod_eq_iff)
  have won: "snd (try_set_cron_time (fst (hourly_env 0)) 60 hourly) \<noteq> []" by code_simp
  have ok: "db_ok hourly" by code_simp
  have queues: "standard_queue SEND_IT_QUEUE hourly (sample_queue SEND_IT_QUEUE ''standard'')"
    "standard_queue (sch_name ?sch) hourly (sample_queue ''mail'' ''standard'')" by code_simp+
  have "standard_jobs (tn_fetch hourly_turn) SEND_IT_QUEUE (jobs after_tick)"
    "list_all (\<lambda>j. \<not> pg_skip_locked (tn_fetch hourly_turn) (job_pk j)) (jobs after_tick)"
    "int (length (filter (claimable (tn_fetch hourly_turn) SEND_IT_QUEUE) (jobs after_tick))) \<le> wo_batch_size ?o"
    by code_simp+
  then have turn: "clear_turn SEND_IT_QUEUE ?o hourly_turn after_tick"
    by (simp add: clear_turn_def hourly_turn_def) (simp add: node_at_def uuid_text_ok_def sample_uuid_text_ok [unfolded uuid_text_ok_def])
  have clock: "\<forall>m. pg_now (fst (hourly_env m)) \<le> pg_now (tn_fetch hourly_turn)"
    by (simp add: hourly_env_def hourly_turn_def node_at_def second_def)
  have core: "has_codecs (ub_db running_core)" "?sch \<in> set (schedules hourly)" "sch_data ?sch = map_option JObj None"
    by (simp_all add: running_core_def hourly_def sample_schedule_def)
  obtain w' p d2 where run: "worker_turn (ub_db running_core) ?o (on_send_it (boss_sender running_core) later_env) SEND_IT_QUEUE
      hourly_turn worker_new after_tick = (w', p, d2)" by (metis prod_cases3)
  from schedule_fires [OF running_core core(1) ok core(2,3) queues tick won hourly_fires hourly_servers(1) run turn
      hourly_servers(2) clock] obtain m where
    "plain_row (later_env m) (sample_queue ''mail'' ''standard'') None \<in> set (jobs d2)" ..
  with run show ?thesis using plain_row_sel(1,3) [of "later_env m" "sample_queue ''mail'' ''standard''" None]
    by (auto simp: running_core_def sample_queue_def)
qed

end
