(* ===== verification/Caller_Transaction.thy ===== *)
theory Caller_Transaction
  imports Boss_Calls
begin

text \<open>
  The calls that take a \<^verbatim>\<open>connection\<close>: \<^verbatim>\<open>create_queue\<close>, \<^verbatim>\<open>send\<close> and \<^verbatim>\<open>insert\<close> run on a connection of the
  caller's, inside a transaction the caller opened there and closes. The server aborts the
  transaction at the first error and refuses every later statement of it; committing an aborted
  transaction rolls it back. All its statements see the \<^verbatim>\<open>now()\<close> of its begin. The block runs by itself:
  what others commit while it is open is not part of it.
\<close>

section \<open>A block of calls\<close>

datatype tx_call =
    Create_queue string "QueueOptions option"
  | Send string "(string \<times> json) list option" "SendOptions option"
  | Insert string "JobInsert list"

datatype tx_result = Created_queue | Sent "string option" | Inserted "string list"

fun call_on :: "('z core_scheme) \<Rightarrow> pg \<Rightarrow> bool \<Rightarrow> tx_call \<Rightarrow> db \<Rightarrow> (error + tx_result) \<times> db" where
  "call_on b s c (Create_queue name options) d =
     and_then (boss_create_queue b s c name options d) (\<lambda>u. Inr Created_queue)"
| "call_on b s c (Send name data options) d =
     and_then (boss_send b s c name data options d) (\<lambda>i. Inr (Sent i))"
| "call_on b s c (Insert name js) d =
     and_then (boss_insert b s c name js d) (\<lambda>ids. Inr (Inserted ids))"

text \<open>The transaction on the server: open, with the tables it sees, or aborted.\<close>

datatype tx = Open db | Aborted

definition call_in_tx :: "('z core_scheme) \<Rightarrow> pg \<Rightarrow> tx_call \<Rightarrow> tx \<Rightarrow> (error + tx_result) \<times> tx" where
  "call_in_tx b s call x =
     (case x of
        Aborted \<Rightarrow> (Inl (if ub_started b then Db InFailedSqlTransaction else NotStartedError), Aborted)
      | Open d \<Rightarrow>
          (case call_on b s True call d of
             (Inl (Db e), d') \<Rightarrow> (Inl (Db e), Aborted)
           | (r, d') \<Rightarrow> (r, Open d')))"

text \<open>
  The body of the caller's block: its calls in order, each with whether the caller catches what it
  raises. It gives the results so far, the exception that left it, if any, and the transaction.
\<close>

fun tx_calls ::
  "('z core_scheme) \<Rightarrow> (nat \<Rightarrow> pg) \<Rightarrow> nat \<Rightarrow> (tx_call \<times> bool) list \<Rightarrow> tx \<Rightarrow>
     (error + tx_result) list \<times> error option \<times> tx" where
  "tx_calls b env k [] x = ([], None, x)"
| "tx_calls b env k ((call, caught) # body) x =
     (case call_in_tx b (env k) call x of
        (r, x') \<Rightarrow>
          (case (r, caught) of
             (Inl e, False) \<Rightarrow> ([r], Some e, x')
           | _ \<Rightarrow>
               (case tx_calls b env (Suc k) body x' of
                  (rs, e, x'') \<Rightarrow> (r # rs, e, x''))))"

definition caller_transaction ::
  "('z core_scheme) \<Rightarrow> int \<Rightarrow> (nat \<Rightarrow> pg) \<Rightarrow> (tx_call \<times> bool) list \<Rightarrow> db \<Rightarrow>
     (error + tx_result) list \<times> error option \<times> db" where
  "caller_transaction b begun env body d =
     (case tx_calls b (\<lambda>k. (env k)\<lparr>pg_now := begun\<rparr>) 0 body (Open d) of
        (rs, None, Open d') \<Rightarrow> (rs, None, d')
      | (rs, e, x) \<Rightarrow> (rs, e, d))"

text \<open>The same calls one after the other, each in a transaction of its own on the pool.\<close>

fun calls_alone ::
  "('z core_scheme) \<Rightarrow> (nat \<Rightarrow> pg) \<Rightarrow> nat \<Rightarrow> tx_call list \<Rightarrow> db \<Rightarrow> (error + tx_result) list \<times> db" where
  "calls_alone b env k [] d = ([], d)"
| "calls_alone b env k (call # calls) d =
     (case call_on b (env k) False call d of
        (r, d') \<Rightarrow> (case calls_alone b env (Suc k) calls d' of (rs, d'') \<Rightarrow> (r # rs, d'')))"

section \<open>Each call\<close>

lemma call_on_connection: "running b \<Longrightarrow> call_on b s c call d = call_on b s False call d"
  by (cases call) (simp_all add: boss_calls running_execute Let_def)

lemma call_on_raises: "running b \<Longrightarrow> call_on b s c call d = (Inl e, d') \<Longrightarrow> (\<exists>x. e = Db x) \<and> d' = d"
  by (cases call)
    (auto simp: boss_calls running_execute Let_def and_then_def no_rows_def split: sum.splits prod.splits)

lemma call_in_tx_open:
  "running b \<Longrightarrow> call_in_tx b s call (Open d) =
    (case call_on b s False call d of (Inl e, d') \<Rightarrow> (Inl e, Aborted) | (Inr v, d') \<Rightarrow> (Inr v, Open d'))"
  using call_on_raises [of b s False call d] call_on_connection [of b s True call d]
  by (fastforce simp: call_in_tx_def split: prod.split sum.split error.split)

lemma call_in_tx_aborted:
  "running b \<Longrightarrow> call_in_tx b s call Aborted = (Inl (Db InFailedSqlTransaction), Aborted)"
  by (simp add: call_in_tx_def running_def)

section \<open>The block\<close>

lemma aborted_calls:
  assumes "running b" "tx_calls b env k body Aborted = (rs, e, x)"
  shows "x = Aborted \<and> (\<forall>r\<in>set rs. r = Inl (Db InFailedSqlTransaction))"
  using assms(2)
proof (induction body arbitrary: k rs)
  case (Cons c body)
  then show ?case
    by (cases c) (fastforce simp: call_in_tx_aborted [OF assms(1)] split: bool.splits prod.splits)
qed simp

definition aborted_at :: "nat \<Rightarrow> (error + tx_result) list \<Rightarrow> bool" where
  "aborted_at n rs \<longleftrightarrow>
     n < length rs \<and> (\<forall>i<n. ok (rs ! i)) \<and> (\<exists>x. rs ! n = Inl (Db x)) \<and>
     (\<forall>i. n < i \<and> i < length rs \<longrightarrow> rs ! i = Inl (Db InFailedSqlTransaction))"

lemma aborted_at_0:
  "\<forall>r\<in>set rs. r = Inl (Db InFailedSqlTransaction) \<Longrightarrow> aborted_at 0 (Inl (Db x) # rs)"
  by (auto simp: aborted_at_def nth_Cons split: nat.split)

lemma aborted_at_Suc: "aborted_at n rs \<Longrightarrow> aborted_at (Suc n) (Inr v # rs)"
  by (auto simp: aborted_at_def nth_Cons less_Suc_eq_0_disj split: nat.splits)

lemma aborted_at_raised:
  assumes "aborted_at n rs"
  shows "\<not> (\<forall>r\<in>set rs. ok r)"
proof -
  from assms obtain x where "rs ! n \<in> set rs" "rs ! n = Inl (Db x)" unfolding aborted_at_def by (metis nth_mem)
  then show ?thesis by force
qed

lemma tx_calls_outcome:
  assumes "running b" "tx_calls b env k body (Open d) = (rs, e, x)"
  shows "(\<forall>r\<in>set rs. ok r) \<and> e = None \<and>
      (\<exists>d'. x = Open d' \<and> calls_alone b env k (map fst body) d = (rs, d')) \<or>
    x = Aborted \<and> (\<exists>n. aborted_at n rs)"
  using assms(2)
proof (induction body arbitrary: k d rs)
  case (Cons c body)
  obtain call caught where c: "c = (call, caught)" by (cases c)
  obtain r d1 where run: "call_on b (env k) False call d = (r, d1)" by (cases "call_on b (env k) False call d")
  show ?case
  proof (cases r)
    case (Inl err)
    then obtain y where y: "err = Db y" using call_on_raises [OF assms(1), of "env k" False call d err d1] run by blast
    show ?thesis
    proof (cases caught)
      case True
      with Cons.prems Inl run obtain rs' where
        rest: "tx_calls b env (Suc k) body Aborted = (rs', e, x)" "rs = Inl err # rs'"
        by (auto simp: c call_in_tx_open [OF assms(1)] split: prod.splits)
      from aborted_calls [OF assms(1) rest(1)] rest(2) y show ?thesis by (blast intro: aborted_at_0)
    next
      case False
      with Cons.prems Inl run y show ?thesis
        by (auto simp: c call_in_tx_open [OF assms(1)] intro!: exI [of _ 0] aborted_at_0)
    qed
  next
    case (Inr v)
    with Cons.prems run obtain rs' where
      rest: "tx_calls b env (Suc k) body (Open d1) = (rs', e, x)" "rs = Inr v # rs'"
      by (auto simp: c call_in_tx_open [OF assms(1)] split: prod.splits)
    have alone: "calls_alone b env (Suc k) (map fst body) d1 = (rs', d') \<Longrightarrow>
        calls_alone b env k (map fst (c # body)) d = (rs, d')" for d'
      by (simp add: c run Inr rest(2))
    from Cons.IH [OF rest(1)] show ?thesis
    proof (elim disjE conjE exE)
      fix d' assume "\<forall>r\<in>set rs'. ok r" "e = None" "x = Open d'"
        "calls_alone b env (Suc k) (map fst body) d1 = (rs', d')"
      with alone show ?thesis by (intro disjI1) (simp add: rest(2))
    next
      fix n assume "x = Aborted" "aborted_at n rs'"
      then show ?thesis unfolding rest(2) by (blast intro: aborted_at_Suc)
    qed
  qed
qed simp

text \<open>C39. A caller's transaction is all or nothing: a block of \<^verbatim>\<open>create_queue\<close>, \<^verbatim>\<open>send\<close> and \<^verbatim>\<open>insert\<close> calls on
  the caller's connection either has no call that raised, and then commits exactly what the same
  calls would have done one after the other on the pool, with the same results; or it leaves the
  tables as they were, every call after the first that raised raising too, and this even when the
  caller caught every exception and committed, and earlier calls had returned job ids.\<close>
theorem caller_transaction_atomic:
  assumes "running b" "caller_transaction b begun env body d = (rs, e, d')"
  shows "if \<forall>r\<in>set rs. ok r
    then e = None \<and> calls_alone b (\<lambda>k. (env k)\<lparr>pg_now := begun\<rparr>) 0 (map fst body) d = (rs, d')
    else d' = d \<and> (\<exists>n. aborted_at n rs)"
proof -
  let ?env = "\<lambda>k. (env k)\<lparr>pg_now := begun\<rparr>"
  obtain rs1 e1 x where calls: "tx_calls b ?env 0 body (Open d) = (rs1, e1, x)" by (metis prod_cases3)
  from tx_calls_outcome [OF assms(1) calls] show ?thesis
  proof (elim disjE conjE exE)
    fix d1 assume ok: "\<forall>r\<in>set rs1. ok r" and rest: "e1 = None" "x = Open d1"
      "calls_alone b ?env 0 (map fst body) d = (rs1, d1)"
    have "rs = rs1" "e = None" "d' = d1"
      using assms(2) by (simp_all add: caller_transaction_def calls rest(1,2))
    with ok rest(3) show ?thesis by simp
  next
    fix n assume x: "x = Aborted" and n: "aborted_at n rs1"
    have "rs = rs1" "d' = d" using assms(2) by (cases e1; simp add: caller_transaction_def calls x)+
    moreover have "\<exists>n. aborted_at n rs1" using n by blast
    ultimately show ?thesis using aborted_at_raised [OF n] by (simp only: if_False simp_thms)
  qed
qed

text \<open>A send whose id the caller has, and a second one to a queue with a dead-letter queue that is missing:
  the caller catches its exception and commits, and the first job is gone as well.\<close>

definition caught_block :: "(tx_call \<times> bool) list" where
  "caught_block =
     [(Send ''q'' None None, False),
      (Send ''q'' None (Some (SendOptions_default\<lparr>so_dead_letter := Some ''nowhere''\<rparr>)), True)]"

theorem caller_transaction_atomic_witness:
  "\<exists>rs. caller_transaction running_core 0 (\<lambda>k. sample_pg\<lparr>pg_gen_uuid := (\<lambda>i. 1000 + 100 * k + i)\<rparr>) caught_block
     (sample_db [sample_queue ''q'' ''standard''] []) = (rs, None, sample_db [sample_queue ''q'' ''standard''] []) \<and>
   rs ! 0 = Inr (Sent (Some ''1000''))"
proof -
  let ?d = "sample_db [sample_queue ''q'' ''standard''] []"
  let ?t = "caller_transaction running_core 0 (\<lambda>k. sample_pg\<lparr>pg_gen_uuid := (\<lambda>i. 1000 + 100 * k + i)\<rparr>) caught_block ?d"
  have first: "fst ?t = [Inr (Sent (Some ''1000'')), Inl (Db ForeignKeyViolation)]" "fst (snd ?t) = None" by code_simp+
  obtain rs e d' where t: "?t = (rs, e, d')" by (metis prod_cases3)
  with first have rs: "rs = [Inr (Sent (Some ''1000'')), Inl (Db ForeignKeyViolation)]" "e = None" by simp_all
  then have "\<not> (\<forall>r\<in>set rs. ok r)" by simp
  with caller_transaction_atomic [OF running_core t] have "d' = ?d" by (simp only: if_False)
  with t rs show ?thesis by simp
qed

context runs
begin

lemma call_on_runs: "R d (snd (call_on b s c call d))"
  by (cases call) (simp_all add: create_queue_runs boss_calls_run)

lemma calls_alone_runs: "calls_alone b env k calls d = (rs, d') \<Longrightarrow> R d d'"
proof (induction calls arbitrary: k d rs)
  case (Cons call calls)
  obtain r d1 where run: "call_on b (env k) False call d = (r, d1)" by (cases "call_on b (env k) False call d")
  then have "R d d1" using call_on_runs [of d b "env k" False call] by simp
  with Cons run show ?case by (auto split: prod.splits intro: R_trans)
qed (simp add: R_refl)

text \<open>So a block is a run of the program's steps, or none.\<close>

lemma caller_transaction_runs:
  assumes "running b" "caller_transaction b begun env body d = (rs, e, d')"
  shows "R d d'"
proof -
  let ?env = "\<lambda>k. (env k)\<lparr>pg_now := begun\<rparr>"
  obtain rs1 e1 x where calls: "tx_calls b ?env 0 body (Open d) = (rs1, e1, x)" by (metis prod_cases3)
  from tx_calls_outcome [OF assms(1) calls] show ?thesis
  proof (elim disjE conjE exE)
    fix d1 assume "e1 = None" "x = Open d1" and alone: "calls_alone b ?env 0 (map fst body) d = (rs1, d1)"
    with assms(2) have "d' = d1" by (simp add: caller_transaction_def calls)
    with calls_alone_runs [OF alone] show ?thesis by simp
  next
    assume "x = Aborted"
    with assms(2) show ?thesis by (cases e1) (simp_all add: caller_transaction_def calls R_refl)
  qed
qed

end

end
