(* ===== verification/Bulk_Insert.thy ===== *)
theory Bulk_Insert
  imports Boss_Calls
begin

text \<open>
  What \<^verbatim>\<open>Underboss.insert\<close> (\<^verbatim>\<open>underboss/underboss.py\<close>) does with a batch: the row each \<^verbatim>\<open>JobInsert\<close> stands
  for, which of the rows the statement's \<^verbatim>\<open>ON CONFLICT DO NOTHING\<close> keeps, the outcome of the call on
  every branch, and what a second attempt of the same batch does.
\<close>

section \<open>The rows of a batch\<close>

definition bulk_row :: "pg \<Rightarrow> queue_row \<Rightarrow> nat \<Rightarrow> JobInsert \<Rightarrow> int \<Rightarrow> job_row" where
  "bulk_row s q k job start =
     \<lparr>j_id = coalesce (Option.bind (ji_id job) (pg_uuid_in s)) (pg_gen_uuid s k), j_name = q_name q,
      j_priority = ji_priority job, j_data = map_option JObj (ji_data job), j_state = CREATED,
      j_retry_limit = coalesce (ji_retry_limit job) (q_retry_limit q), j_retry_count = 0,
      j_retry_delay = coalesce (ji_retry_delay job) (q_retry_delay q),
      j_retry_backoff = coalesce (ji_retry_backoff job) (q_retry_backoff q),
      j_retry_delay_max = q_retry_delay_max q,
      j_expire_seconds = coalesce (ji_expire_in_seconds job) (q_expire_seconds q),
      j_deletion_seconds = q_deletion_seconds q,
      j_singleton_key = ji_singleton_key job, j_singleton_on = None,
      j_group_id = map_option group_id (ji_group job),
      j_group_tier = Option.bind (ji_group job) group_tier,
      j_start_after = start, j_created_on = pg_now s, j_started_on = None, j_completed_on = None,
      j_keep_until = start + q_retention_seconds q * second, j_output = None,
      j_dead_letter = coalesce2 (ji_dead_letter job) (q_dead_letter q),
      j_policy = Some (q_policy q), j_heartbeat_on = None,
      j_heartbeat_seconds = q_heartbeat_seconds q\<rparr>"

fun bulk_rows :: "pg \<Rightarrow> queue_row \<Rightarrow> nat \<Rightarrow> (JobInsert \<times> int) list \<Rightarrow> job_row list" where
  "bulk_rows s q k [] = []"
| "bulk_rows s q k ((job, start) # jobs') = bulk_row s q k job start # bulk_rows s q (Suc k) jobs'"

text \<open>A \<^verbatim>\<open>JobInsert\<close> the statement accepts, with the instant it starts at.\<close>

definition insertable :: "pg \<Rightarrow> JobInsert \<Rightarrow> int \<Rightarrow> bool" where
  "insertable s job start \<longleftrightarrow>
     JobInsert_ok s job \<and> start_after_of s (encode_start_after (ji_start_after job)) = Inr start"

lemma bulk_row_of:
  assumes "insertable s job start"
  shows "\<exists>x. job_spec_of s (JObj (job_insert_payload job)) = Inr x \<and>
    job_row_of s q k x = Inr (bulk_row s q k job start)"
  using job_insert_payload_spec [of s job start] assms
  by (auto simp: insertable_def job_row_of_def job_defaults_def bulk_row_def)

lemma rows_of_bulk:
  assumes "list_all (\<lambda>(job, start). insertable s job start) batch"
  shows "rows_of_specs s q k (map (\<lambda>job. JObj (job_insert_payload job)) (map fst batch)) =
    Inr (bulk_rows s q k batch)"
  using assms
proof (induction batch arbitrary: k)
  case (Cons b batch)
  obtain job start where b: "b = (job, start)" by (cases b)
  with Cons.prems bulk_row_of [of s job start q k] obtain x where
    "job_spec_of s (JObj (job_insert_payload job)) = Inr x" "job_row_of s q k x = Inr (bulk_row s q k job start)"
    by auto
  with Cons b show ?case by simp
qed simp

lemma bulk_rows_nth:
  "i < length batch \<Longrightarrow>
   bulk_rows s q k batch ! i = bulk_row s q (k + i) (fst (batch ! i)) (snd (batch ! i))"
  by (induction s q k batch arbitrary: i rule: bulk_rows.induct) (auto simp: nth_Cons split: nat.split)

lemma length_bulk_rows [simp]: "length (bulk_rows s q k batch) = length batch"
  by (induction s q k batch rule: bulk_rows.induct) auto

section \<open>Which rows are kept\<close>

lemma conflicts_mono: "conflicts rows j \<Longrightarrow> set rows \<subseteq> set rows' \<Longrightarrow> conflicts rows' j"
  unfolding conflicts_def by (metis (no_types, opaque_lifting) image_mono list.set_map subsetD)

lemma conflicts_self: "j \<in> set rows \<Longrightarrow> conflicts rows j"
  by (simp add: conflicts_def)

lemma conflicts_cong:
  "job_pk j' = job_pk j \<Longrightarrow> (\<And>i. index_key i j' = index_key i j) \<Longrightarrow> conflicts rows j' = conflicts rows j"
  by (simp add: conflicts_def)

lemma insert_on_conflict_saturated:
  "j \<in> set js \<Longrightarrow> conflicts (rows @ insert_on_conflict_do_nothing rows js) j"
proof (induction rows js rule: insert_on_conflict_do_nothing.induct)
  case (2 rows k js)
  show ?case
  proof (cases "conflicts rows k")
    case True
    with 2 show ?thesis by (auto intro: conflicts_mono [of rows])
  next
    case False
    with 2 show ?thesis by (auto intro: conflicts_self)
  qed
qed simp

lemma insert_on_conflict_none: "\<forall>j\<in>set js. conflicts rows j \<Longrightarrow> insert_on_conflict_do_nothing rows js = []"
  by (induction js) auto

lemma insert_on_conflict_append:
  "insert_on_conflict_do_nothing rows (js @ js') =
     insert_on_conflict_do_nothing rows js @
     insert_on_conflict_do_nothing (rows @ insert_on_conflict_do_nothing rows js) js'"
  by (induction rows js rule: insert_on_conflict_do_nothing.induct) auto

section \<open>The outcome of the call\<close>

lemma boss_insert_rows:
  assumes "running b" "list_all (\<lambda>(job, start). insertable s job start) batch"
  shows "boss_insert b s c name (map fst batch) d =
    (case find_queue name d of
       None \<Rightarrow> (Inr [], d)
     | Some q \<Rightarrow>
         let rows = bulk_rows s q 0 batch; new = insert_on_conflict_do_nothing (jobs d) rows
         in if \<not> list_all job_check rows then (Inl (Db CheckViolation), d)
            else if \<not> list_all (\<lambda>j. fk_ok (j_dead_letter j) d) new then (Inl (Db ForeignKeyViolation), d)
            else (Inr (map (\<lambda>j. pg_uuid_out s (j_id j)) new), d\<lparr>jobs := jobs d @ new\<rparr>))"
  using rows_of_bulk [OF assms(2), of _ 0]
  by (cases "find_queue name d")
    (simp_all add: boss_insert_def running_execute [OF assms(1)] insert_jobs_def and_then_def Let_def comp_def)

text \<open>Which positions are kept is settled from the front: a row is kept unless it conflicts with the table
  or with a row kept before it.\<close>

lemma insert_on_conflict_nths:
  fixes rows js :: "job_row list"
  defines "K \<equiv> {i. \<not> conflicts (rows @ insert_on_conflict_do_nothing rows (take i js)) (js ! i)}"
  shows "n \<le> length js \<Longrightarrow> insert_on_conflict_do_nothing rows (take n js) = nths (take n js) K"
proof (induction n)
  case (Suc n)
  then have "n < length js" by simp
  with Suc show ?case
    by (simp add: take_Suc_conv_app_nth insert_on_conflict_append nths_append K_def)
qed simp

lemma insert_on_conflict_first_come:
  "\<exists>K. insert_on_conflict_do_nothing rows js = nths js K \<and>
     (\<forall>i<length js. i \<in> K \<longleftrightarrow> \<not> conflicts (rows @ nths (take i js) K) (js ! i))"
  (is "\<exists>K. _ = _ \<and> ?kept K")
proof -
  let ?K = "{i. \<not> conflicts (rows @ insert_on_conflict_do_nothing rows (take i js)) (js ! i)}"
  note nths = insert_on_conflict_nths [of _ js rows]
  from nths [of "length js"] have "insert_on_conflict_do_nothing rows js = nths js ?K" by simp
  moreover have "?kept ?K" using nths by fastforce
  ultimately show ?thesis by blast
qed

section \<open>Properties\<close>

text \<open>C17. What \<open>insert\<close> does with a batch on a running object, case by case. No such queue: it returns no ids
  and inserts nothing, without an error. A job the queue's policy requires a key of and that has none:
  a check violation, and no job of the batch is inserted. Otherwise the batch is taken from the front:
  a job is kept unless its id, its policy key or its slot is taken by a row of the table or by a job of
  the batch kept before it. A kept job with a dead-letter queue that does not exist makes the call
  fail and insert nothing; else exactly the kept jobs are appended, in the order given, with the
  fields given and the queue's settings for the rest, and their ids are returned.\<close>
theorem insert_outcome:
  assumes "running b" "list_all (\<lambda>(job, start). insertable s job start) batch"
  shows "case find_queue name d of
      None \<Rightarrow> boss_insert b s c name (map fst batch) d = (Inr [], d)
    | Some q \<Rightarrow>
        let rows = bulk_rows s q 0 batch
        in if \<not> list_all job_check rows
           then boss_insert b s c name (map fst batch) d = (Inl (Db CheckViolation), d)
           else \<exists>K. (\<forall>i<length rows. i \<in> K \<longleftrightarrow> \<not> conflicts (jobs d @ nths (take i rows) K) (rows ! i)) \<and>
             boss_insert b s c name (map fst batch) d =
               (if list_all (\<lambda>j. fk_ok (j_dead_letter j) d) (nths rows K)
                then (Inr (map (\<lambda>j. pg_uuid_out s (j_id j)) (nths rows K)), d\<lparr>jobs := jobs d @ nths rows K\<rparr>)
                else (Inl (Db ForeignKeyViolation), d))"
proof (cases "find_queue name d")
  case None
  with boss_insert_rows [OF assms] show ?thesis by simp
next
  case (Some q)
  from insert_on_conflict_first_come [of "jobs d" "bulk_rows s q 0 batch"] obtain K where
    "insert_on_conflict_do_nothing (jobs d) (bulk_rows s q 0 batch) = nths (bulk_rows s q 0 batch) K"
    "\<forall>i<length (bulk_rows s q 0 batch). i \<in> K \<longleftrightarrow>
       \<not> conflicts (jobs d @ nths (take i (bulk_rows s q 0 batch)) K) (bulk_rows s q 0 batch ! i)"
    by blast
  with Some boss_insert_rows [OF assms, of c name d] show ?thesis
    by (auto simp: Let_def intro!: exI [of _ K])
qed

lemma sample_insertable: "insertable sample_pg JobInsert_sample 1010000000"
proof -
  have "start_after_of sample_pg (encode_start_after (ji_start_after JobInsert_sample)) = Inr 1010000000"
    by code_simp
  then show ?thesis
    by (simp add: insertable_def JobInsert_ok_def JobInsert_sample_def int4_ok_def int4_opt_ok_def)
qed

theorem insert_outcome_witness:
  "boss_insert running_core sample_pg True ''q'' [JobInsert_sample, JobInsert_sample]
     (sample_db [sample_queue ''q'' ''standard''] []) =
   (Inr [''7''], sample_db [sample_queue ''q'' ''standard'']
     [bulk_row sample_pg (sample_queue ''q'' ''standard'') 0 JobInsert_sample 1010000000])"
proof -
  let ?q = "sample_queue ''q'' ''standard''"
  let ?batch = "[(JobInsert_sample, 1010000000), (JobInsert_sample, 1010000000)]"
  define d where "d = sample_db [?q] []"
  define r0 where "r0 = bulk_row sample_pg ?q 0 JobInsert_sample 1010000000"
  define r1 where "r1 = bulk_row sample_pg ?q 1 JobInsert_sample 1010000000"
  have rows: "bulk_rows sample_pg ?q 0 ?batch = [r0, r1]" by (simp add: r0_def r1_def)
  have find: "find_queue ''q'' d = Some ?q" "jobs d = []" unfolding d_def by code_simp+
  have row: "job_check r0" "job_check r1" "\<not> conflicts [] r0" "conflicts [r0] r1"
    "fk_ok (j_dead_letter r0) d" "pg_uuid_out sample_pg (j_id r0) = ''7''"
    unfolding r0_def r1_def d_def by code_simp+
  from insert_outcome [OF running_core, of sample_pg ?batch True "''q''" d] sample_insertable
  obtain K where "\<forall>i<length [r0, r1]. i \<in> K \<longleftrightarrow> \<not> conflicts (jobs d @ nths (take i [r0, r1]) K) ([r0, r1] ! i)"
    "boss_insert running_core sample_pg True ''q'' (map fst ?batch) d =
      (if list_all (\<lambda>j. fk_ok (j_dead_letter j) d) (nths [r0, r1] K)
       then (Inr (map (\<lambda>j. pg_uuid_out sample_pg (j_id j)) (nths [r0, r1] K)), d\<lparr>jobs := jobs d @ nths [r0, r1] K\<rparr>)
       else (Inl (Db ForeignKeyViolation), d))"
    unfolding find option.case Let_def rows using row(1,2) by auto
  moreover from this(1) have "0 \<in> K" "1 \<notin> K"
    using row(3,4) find(2) by (force simp: nths_Cons)+
  ultimately have "boss_insert running_core sample_pg True ''q'' [JobInsert_sample, JobInsert_sample] d =
      (Inr [''7''], d\<lparr>jobs := [r0]\<rparr>)"
    using row(5,6) find(2) by (simp add: nths_Cons)
  then show ?thesis by (simp add: d_def r0_def sample_db_def)
qed

lemma bulk_row_keys:
  assumes "insertable s job start" "ji_id job \<noteq> None" "pg_uuid_in s' = pg_uuid_in s"
  shows "job_pk (bulk_row s' q k' job start') = job_pk (bulk_row s q k job start)"
    "index_key i (bulk_row s' q k' job start') = index_key i (bulk_row s q k job start)"
    "job_check (bulk_row s' q k' job start') = job_check (bulk_row s q k job start)"
proof -
  from assms(1,2) obtain u where "Option.bind (ji_id job) (pg_uuid_in s) = Some u"
    by (auto simp: insertable_def JobInsert_ok_def)
  with assms(3) show "job_pk (bulk_row s' q k' job start') = job_pk (bulk_row s q k job start)"
    by (simp add: bulk_row_def job_pk_def)
  show "index_key i (bulk_row s' q k' job start') = index_key i (bulk_row s q k job start)"
    by (cases i) (simp_all add: index_defs bulk_row_def)
  show "job_check (bulk_row s' q k' job start') = job_check (bulk_row s q k job start)"
    by (simp add: job_check_def bulk_row_def)
qed

text \<open>C18. A bulk insert whose jobs carry ids can be sent again: whenever the call has returned, the same jobs
  inserted once more, at another time and on another connection, are all skipped; no id is returned,
  no error raised and nothing changes. So a caller that lost the reply does not duplicate its jobs.\<close>
theorem insert_retry_skips:
  assumes "running b" "list_all (\<lambda>(job, start). insertable s job start) batch"
    "list_all (\<lambda>(job, start). insertable s' job start) batch'" "map fst batch' = map fst batch"
    "\<forall>job\<in>set (map fst batch). ji_id job \<noteq> None" "pg_uuid_in s' = pg_uuid_in s"
    "boss_insert b s c name (map fst batch) d = (Inr ids, d')"
  shows "boss_insert b s' c' name (map fst batch) d' = (Inr [], d')"
proof (cases "find_queue name d")
  case None
  with assms(7) boss_insert_rows [OF assms(1,2), of c name d] have "d' = d" by simp
  with None boss_insert_rows [OF assms(1,3), of c' name d] assms(4) show ?thesis by simp
next
  case (Some q)
  let ?rows = "bulk_rows s q 0 batch" and ?rows' = "bulk_rows s' q 0 batch'"
  let ?new = "insert_on_conflict_do_nothing (jobs d) ?rows"
  from Some assms(7) boss_insert_rows [OF assms(1,2), of c name d]
  have ok: "list_all job_check ?rows" and d': "d' = d\<lparr>jobs := jobs d @ ?new\<rparr>"
    by (auto simp: Let_def split: if_splits)
  have len: "length batch' = length batch" using assms(4) by (metis length_map)
  have row: "conflicts (jobs d') (?rows' ! i) \<and> job_check (?rows' ! i)" if "i < length batch" for i
  proof -
    let ?job = "fst (batch ! i)" and ?start = "snd (batch ! i)" and ?start' = "snd (batch' ! i)"
    have rows: "?rows ! i = bulk_row s q i ?job ?start" "?rows' ! i = bulk_row s' q i ?job ?start'"
      using that len nth_map [of i batch fst] nth_map [of i batch' fst] assms(4)
      by (simp_all add: bulk_rows_nth)
    have "insertable s ?job ?start" "ji_id ?job \<noteq> None"
      using that assms(2,5) by (auto simp: list_all_length split_beta)
    note keys = bulk_row_keys [OF this assms(6), where k = i and k' = i and q = q and start' = ?start']
    have "?rows ! i \<in> set ?rows" using that by simp
    then have "conflicts (jobs d') (?rows ! i)" "job_check (?rows ! i)"
      using ok by (simp_all add: d' insert_on_conflict_saturated list_all_iff)
    then show ?thesis using conflicts_cong [OF keys(1,2)] keys(3) by (simp add: rows)
  qed
  then have "list_all job_check ?rows'" "\<forall>j\<in>set ?rows'. conflicts (jobs d') j"
    using len by (auto simp: list_all_length in_set_conv_nth)
  moreover from this(2) have "insert_on_conflict_do_nothing (jobs d') ?rows' = []"
    by (rule insert_on_conflict_none)
  moreover have "find_queue name d' = Some q" using Some by (simp add: d' find_queue_def)
  ultimately show ?thesis
    using boss_insert_rows [OF assms(1,3), of c' name d'] assms(4) by (simp add: Let_def)
qed

theorem insert_retry_skips_witness:
  "\<exists>d. boss_insert running_core sample_pg True ''q'' [JobInsert_sample]
      (sample_db [sample_queue ''q'' ''standard''] []) = (Inr [''7''], d) \<and>
    boss_insert running_core (sample_pg\<lparr>pg_now := 1005000000\<rparr>) False ''q'' [JobInsert_sample] d = (Inr [], d)"
proof -
  let ?s' = "sample_pg\<lparr>pg_now := 1005000000\<rparr>"
  let ?d = "sample_db [sample_queue ''q'' ''standard'']
    [bulk_row sample_pg (sample_queue ''q'' ''standard'') 0 JobInsert_sample 1010000000]"
  have first: "boss_insert running_core sample_pg True ''q'' [JobInsert_sample]
      (sample_db [sample_queue ''q'' ''standard''] []) = (Inr [''7''], ?d)" by code_simp
  have "start_after_of ?s' (encode_start_after (ji_start_after JobInsert_sample)) = Inr 1015000000"
    by code_simp
  then have "insertable ?s' JobInsert_sample 1015000000"
    using sample_insertable by (simp add: insertable_def JobInsert_ok_def)
  moreover have "ji_id JobInsert_sample \<noteq> None" by (simp add: JobInsert_sample_def)
  ultimately have "boss_insert running_core ?s' False ''q'' [JobInsert_sample] ?d = (Inr [], ?d)"
    using insert_retry_skips [OF running_core, of sample_pg "[(JobInsert_sample, 1010000000)]" ?s'
        "[(JobInsert_sample, 1015000000)]" True "''q''" _ "[''7'']" ?d False] sample_insertable first
    by simp
  with first show ?thesis by blast
qed

end
