(* ===== verification/Spec2Isabelle.thy ===== *)
theory Spec2Isabelle
  imports Schema_Functions Schema_Rows Table_Format Refinement Schedule_Fires Caller_Transaction Bulk_Insert
begin

text \<open>
  underboss is an asynchronous job queue on PostgreSQL (or CockroachDB) for Python. Its state lives
  in the tables of one schema; the Python objects send SQL statements to them, and any number of
  processes ("nodes") do so at once. This development models the statements as functions of the
  tables, the Python classes as functions that run those statements, and proves what they promise.

  \<^bold>\<open>The parts and their theories.\<close>

  \<^item> \<open>Prelude\<close>: the result type (an error or a value), its sequencing \<open>bindr\<close>, list and option lemmas.
  \<^item> \<open>Pg_Engine\<close>: what the statements use of PostgreSQL: the SQL errors, JSON values and the operators
    on them, integer and uuid casts, and the record \<open>pg\<close> of what only the server knows: its clock
    (\<^verbatim>\<open>now()\<close>, in microseconds), random numbers, generated ids, locked rows, and its readers and
    printers of uuids, timestamps, intervals and JSON.
  \<^item> \<open>Job_Types\<close>: the dataclasses and enumerations of \<^verbatim>\<open>types.py\<close>, the exceptions of \<^verbatim>\<open>errors.py\<close>.
  \<^item> \<open>Json_Text\<close>: \<^verbatim>\<open>json.dumps\<close> and \<^verbatim>\<open>json.loads\<close>, and that reading gives back what was printed.
  \<^item> \<open>Job_Schema\<close>: the tables of \<^verbatim>\<open>schema.py\<close> as lists of row records, with their keys, checks, foreign keys
    and unique partial indexes; \<open>db_ok\<close> says that all of them hold. An UPDATE that would break a
    unique index raises.
  \<^item> \<open>Job_Updates\<close>: the lifecycle of a job (\<open>may_move\<close>) and the locale \<open>job_update\<close>, the contract of an
    UPDATE of the \<^verbatim>\<open>job\<close> table; every such statement interprets it.
  \<^item> \<open>Queue_Sql\<close>, \<open>Insert_Sql\<close>, \<open>Fetch_Sql\<close>, \<open>Settle_Sql\<close>, \<open>Schedule_Sql\<close>: the statements of \<^verbatim>\<open>sql.py\<close>.
  \<^item> \<open>Fetch_Blocks\<close>: exactly when a fetch fails on a policy index.
  \<^item> \<open>Schema_Ddl\<close>: the statements of \<^verbatim>\<open>build_schema\<close> as data: tables with their columns, types, defaults and
    constraints, indexes with keys and predicates, functions; SQL expressions have a three-valued
    evaluation. \<open>Schema_Meaning\<close>: what these declarations demand of rows, and that it is \<open>db_ok\<close>.
    \<open>Schema_Rows\<close>: the column lists of the INSERTs and of the fetch, and that every reachable table
    obeys the installed schema.
  \<^item> \<open>Table_Format\<close>: the installed function \<^verbatim>\<open>job_table_format\<close>.
  \<^item> \<open>Schema_Functions\<close>: the SQL functions and the partial indexes that \<^verbatim>\<open>schema.py\<close> installs, and that the
    inlined statements are those functions, the indexed reads the full ones.
  \<^item> \<open>Failure\<close>, \<open>Maintenance\<close>: \<^verbatim>\<open>failure.py\<close> and \<^verbatim>\<open>maintenance.py\<close>, transactions of several statements and
    the loop that runs the sweeps.
  \<^item> \<open>Lifecycle\<close>: the tables over time. \<open>step\<close> is one statement or transaction of any node, \<open>reachable\<close>
    the tables any interleaving of them makes of a fresh install; the invariants are proved over
    it. The locale \<open>runs\<close> is the contract of a relation that contains all step sequences.
  \<^item> \<open>Calendar\<close>, \<open>Payload\<close>: the translation between Python objects, JSON and rows in \<^verbatim>\<open>underboss.py\<close> and
    \<^verbatim>\<open>worker.py\<close>; datetimes are rendered through the proleptic Gregorian calendar.
  \<^item> \<open>Provision\<close>: \<^verbatim>\<open>run_script\<close>, \<^verbatim>\<open>_provision\<close> and the version statements on a catalog of objects, with and
    without transactional DDL.
  \<^item> \<open>Db_Access\<close>: \<^verbatim>\<open>db.py\<close>: the pool, statements on it, the JSON codecs and a pool without them.
  \<^item> \<open>Worker_Loop\<close>: \<^verbatim>\<open>worker.py\<close>. The handler is a parameter with the contract \<open>job_handler\<close>: it returns,
    raises, is cancelled or returns what \<^verbatim>\<open>json.dumps\<close> refuses; the reply to either statement may be
    lost or the wait for it cancelled.
  \<^item> \<open>Boss_Calls\<close>: the calls of \<^verbatim>\<open>underboss.py\<close> that run one statement. \<open>Caller_Transaction\<close>: blocks of them on
    a connection of the caller's, inside its transaction. \<open>Bulk_Insert\<close>: what \<^verbatim>\<open>insert\<close> does with a batch,
    and with the same batch sent again.
  \<^item> \<open>Cron_Scheduler\<close>: \<^verbatim>\<open>scheduler.py\<close>. Its \<^verbatim>\<open>send\<close> is a parameter with the contract \<open>sender\<close>; the
    object's own \<^verbatim>\<open>send\<close> provides it, and the send-it handler is a \<open>job_handler\<close>.
  \<^item> \<open>Underboss_Object\<close>: the \<^verbatim>\<open>Underboss\<close> object with its workers and background loops, \<^verbatim>\<open>start\<close>, \<^verbatim>\<open>stop\<close> with the
    exceptions of workers that died, the async context manager, and what \<^verbatim>\<open>start\<close> makes of a partial install.
  \<^item> \<open>Policies\<close>: where the jobs of a reachable table come from, and what the policy of a queue means for them.
  \<^item> \<open>Program\<close>, \<open>Refinement\<close>: everything the program does to one schema, as a relation with one rule
    per public operation and per turn of a loop, labelled by the trace of its statements; that every
    trace is a run of the abstract job automaton, whose labels say what an operation may do to a
    job, and that the queues a program makes can always be read back.
  \<^item> \<open>Delivery\<close>: promises across components: a sent job can be read, a queue drains, a crashed
    worker's batch comes back, and what a worker does that outlives its lease. \<open>Schedule_Delivery\<close>,
    \<open>Schedule_Fires\<close>: from a schedule through the tick and the send-it worker to its job.
  \<^item> \<open>Sample_Tables\<close>: a concrete server and small tables, on which the properties are applied.

  \<^bold>\<open>How code and model correspond.\<close> A definition has the name of the function it models, in the theory
  of its file; methods carry the class as a prefix (\<^verbatim>\<open>Underboss.send\<close> is \<open>boss_send\<close>, \<^verbatim>\<open>Worker.stop\<close> is
  \<open>worker_stop\<close>). A statement takes the server, its bind parameters and the tables, and gives the
  error it raises or the tables and rows it leaves; WHERE and SET clauses are definitions of their
  own. A Python method gives its result or exception together with the tables. Python integers
  and SQL integers are \<open>int\<close>, with the range of \<^verbatim>\<open>integer\<close> checked where a value is cast or computed;
  seconds that may be fractions are \<open>rat\<close>; instants are microseconds since the epoch.

  \<^bold>\<open>Loops and bounds.\<close> The three background loops never end by themselves, so they are functions of
  the list of their turns, each turn holding what the outside does in it (clock, lost
  connections, other nodes, \<^verbatim>\<open>notify()\<close>, \<^verbatim>\<open>stop()\<close>); a property for all lists is one for every finite
  run, and \<open>queue_drains\<close> says how many turns are enough. All other recursion is structural or has
  a proved measure, but for \<open>load_value\<close> of \<open>Json_Text\<close>: its fuel is the length of the text plus one,
  and \<open>json_loads_dumps\<close> shows that it is enough for every printed value.

  \<^bold>\<open>What is assumed of the outside\<close>, always as a named hypothesis: that the server reads back the
  uuids it prints (\<open>uuid_text_ok\<close>), that generated ids are distinct and new (\<open>gen_uuid_distinct\<close>,
  \<open>fresh_ids\<close>), that it reads ISO 8601 text (\<open>iso_in_ok\<close>) and a plain number as an interval of
  seconds (\<open>interval_in_ok\<close>); of \<^verbatim>\<open>croniter\<close> and \<^verbatim>\<open>zoneinfo\<close> nothing but their types (\<open>cron_lib\<close>),
  and that \<^verbatim>\<open>get_prev\<close> answers in the zone it was asked in. Each is
  shown to hold of the sample server.

  \<^bold>\<open>What the properties show.\<close> Safety and invariants: no job is claimed twice, queues keep their policies,
  references, attempts, throttling, a repeated bulk insert, all or nothing of a caller's transaction,
  the refinement of the job automaton, every reachable table as the DDL declares it. Functional
  behaviour: every outcome of send and of a bulk insert, of a worker's batch, of failing and
  sweeping, of schedules and of start. Round trips: options, payloads, start times, sent jobs.
  Equivalence: inlined statements, the DDL's constraints and \<open>db_ok\<close>, INSERT lists and model rows.
  Progress: draining, recovery, schedules that fire. Several theorems state what the code does where
  that is less than its comments promise: a batch or a head of a queue that blocks itself, a sweep
  that one queue stops, a job deleted while active, a late completion, workers that die of their
  handler, a stop that one of them breaks, loops that are dead after a restart, an install taken for
  finished; among the lemmas, dead-letter queues that escape their policy, schedules that fire every
  minute after a clock is set back, schedules of strict-FIFO queues and pools without the codecs.

  \<^bold>\<open>Not modelled.\<close> The network and asyncpg itself, beyond lost replies and cancellation; the
  \<^verbatim>\<open>search_path\<close>, which is passed on but means nothing to statements on one schema; what other nodes
  commit while a caller's transaction is open, and waiting for its locks; the timing of tasks and how
  long \<^verbatim>\<open>stop()\<close> waits before it cancels; log messages; the rounding of float8 arithmetic (exact rationals
  stand for it) and overflow of timestamps; JSON numbers that are not integers, strings beyond
  character 255 and the NUL character, which jsonb refuses; order and visibility effects between
  statements beyond the snapshot of the fetch statement; the format specifiers of \<^verbatim>\<open>job_table_format\<close>
  with flags or a width; the re-exports of \<^verbatim>\<open>__init__.py\<close>. \<^verbatim>\<open>delete_queue\<close> and \<^verbatim>\<open>set_version\<close> are modelled
  though no method calls them. After a partial install the model keeps the tables: \<open>start\<close> meets
  a missing \<^verbatim>\<open>queue\<close> table, later calls that would meet a missing table are not described. The JSON text of
  parameters is cast by the server, which is taken to read it as \<^verbatim>\<open>json.loads\<close> does; the statements take
  the values.
\<close>

end
